(* ===== verification/Flute_Prelude.thy ===== *)
theory Flute_Prelude
  imports Main "HOL-Library.Word" "HOL-Library.Signed_Division" "HOL-Library.Sublist"
begin

text \<open>
  Shared material of the development: the result type in which a failed \<^verbatim>\<open>assert\<close>, a
  \<^verbatim>\<open>LOG_FATAL\<close> / \<^verbatim>\<open>LOG_SYSFATAL\<close> line (both end in \<^verbatim>\<open>abort()\<close>, LogLine.cc:72) and a C++ exception
  are values; the pieces of the C++ standard library the sources use (\<^verbatim>\<open>std::copy\<close>, \<^verbatim>\<open>std::search\<close>,
  \<^verbatim>\<open>std::find\<close>, conversions between \<^verbatim>\<open>size_t\<close> and \<^verbatim>\<open>int\<close>); the generic invariant rule for
  step systems; and the list lemmas the components share.
\<close>

section \<open>Results\<close>

datatype abort_reason =
    AssertFailed string  \<comment> \<open>an \<^verbatim>\<open>assert\<close> of the source does not hold\<close>
  | LogFatal string      \<comment> \<open>a \<^verbatim>\<open>LOG_FATAL\<close> or \<^verbatim>\<open>LOG_SYSFATAL\<close> line was written\<close>
  | Throw string         \<comment> \<open>a C++ exception leaves the function\<close>
  | Undefined string     \<comment> \<open>the C++ standard gives the operation no meaning (null or out-of-range access)\<close>

type_synonym 'a res = "abort_reason + 'a"

definition rbind :: "'a res \<Rightarrow> ('a \<Rightarrow> 'b res) \<Rightarrow> 'b res" where
  "rbind m f = (case m of Inl e \<Rightarrow> Inl e | Inr x \<Rightarrow> f x)"

definition massert :: "bool \<Rightarrow> string \<Rightarrow> 'a res \<Rightarrow> 'a res" where
  "massert b msg k = (if b then k else Inl (AssertFailed msg))"

definition mfatal :: "string \<Rightarrow> 'a res" where
  "mfatal msg = Inl (LogFatal msg)"

text \<open>\<open>mdefined\<close> guards an access whose behaviour is undefined when the condition does not hold.\<close>

definition mdefined :: "bool \<Rightarrow> string \<Rightarrow> 'a res \<Rightarrow> 'a res" where
  "mdefined b msg k = (if b then k else Inl (Undefined msg))"

section \<open>The C++ library the sources use\<close>

text \<open>\<^verbatim>\<open>std::copy(ys.begin(), ys.end(), xs.begin() + i)\<close>.\<close>

definition copy_at :: "'a list \<Rightarrow> nat \<Rightarrow> 'a list \<Rightarrow> 'a list" where
  "copy_at xs i ys = take i xs @ ys @ drop (i + length ys) xs"

text \<open>\<^verbatim>\<open>vector::resize\<close>: the new elements are value-initialised.\<close>

definition vec_resize :: "'a \<Rightarrow> nat \<Rightarrow> 'a list \<Rightarrow> 'a list" where
  "vec_resize z n xs = take n xs @ replicate (n - length xs) z"

text \<open>\<^verbatim>\<open>std::search\<close> and \<^verbatim>\<open>std::find\<close>: the offset of the first match, or the length (the \<^verbatim>\<open>last\<close>
  iterator) when there is none.\<close>

fun cpp_search :: "'a list \<Rightarrow> 'a list \<Rightarrow> nat" where
  "cpp_search pat [] = 0"
| "cpp_search pat (x # xs) =
     (if take (length pat) (x # xs) = pat then 0 else Suc (cpp_search pat xs))"

fun cpp_find :: "'a \<Rightarrow> 'a list \<Rightarrow> nat" where
  "cpp_find c [] = 0"
| "cpp_find c (x # xs) = (if x = c then 0 else Suc (cpp_find c xs))"

text \<open>\<^verbatim>\<open>static_cast<int>(n)\<close> of a \<^verbatim>\<open>size_t\<close>.\<close>

definition size_to_int :: "nat \<Rightarrow> int" where
  "size_to_int n = sint (word_of_nat n :: 32 word)"

text \<open>\<^verbatim>\<open>static_cast<int>(x)\<close> of a wider integer, and the range of an \<^verbatim>\<open>int\<close>.\<close>

definition cast_int32 :: "int \<Rightarrow> int" where
  "cast_int32 x = sint (word_of_int x :: 32 word)"

definition fits_int32 :: "int \<Rightarrow> bool" where
  "fits_int32 x \<longleftrightarrow> - (2 ^ 31) \<le> x \<and> x < 2 ^ 31"

section \<open>Proof support\<close>

named_theorems res_simps \<open>rewrite rules for results\<close>

lemma rbind_Inr [simp, res_simps]: "rbind (Inr x) f = f x"
  by (simp add: rbind_def)

lemma rbind_Inl [simp, res_simps]: "rbind (Inl e) f = Inl e"
  by (simp add: rbind_def)

lemma rbind_Inr_right [simp, res_simps]: "rbind m Inr = m"
  by (cases m) auto

lemma rbind_eq_Inr_iff [res_simps]: "rbind m f = Inr y \<longleftrightarrow> (\<exists>x. m = Inr x \<and> f x = Inr y)"
  by (cases m) auto

lemma massert_True [simp, res_simps]: "b \<Longrightarrow> massert b msg k = k"
  by (simp add: massert_def)

lemma massert_eq_Inr_iff [res_simps]: "massert b msg k = Inr y \<longleftrightarrow> b \<and> k = Inr y"
  by (simp add: massert_def)

lemma mfatal_neq_Inr [simp]: "mfatal msg \<noteq> Inr y"
  by (simp add: mfatal_def)

lemma rbind_cong [fundef_cong]:
  "m = m' \<Longrightarrow> (\<And>x. m' = Inr x \<Longrightarrow> f x = f' x) \<Longrightarrow> rbind m f = rbind m' f'"
  by (cases m') auto

lemma rbind_assoc: "rbind (rbind m f) g = rbind m (\<lambda>x. rbind (f x) g)"
  by (cases m) auto

lemma length_copy_at [simp]:
  "i + length ys \<le> length xs \<Longrightarrow> length (copy_at xs i ys) = length xs"
  by (simp add: copy_at_def)

lemma take_copy_at [simp]: "i \<le> length xs \<Longrightarrow> take i (copy_at xs i ys) = take i xs"
  by (simp add: copy_at_def)

lemma drop_copy_at_self:
  "i \<le> length xs \<Longrightarrow> drop i (copy_at xs i ys) = ys @ drop (i + length ys) xs"
  by (simp add: copy_at_def)

lemma length_vec_resize [simp]: "length (vec_resize z n xs) = n"
  by (simp add: vec_resize_def)

lemma vec_resize_grow: "length xs \<le> n \<Longrightarrow> vec_resize z n xs = xs @ replicate (n - length xs) z"
  by (simp add: vec_resize_def)

lemma size_to_int_small: "n < 2 ^ 31 \<Longrightarrow> size_to_int n = int n"
  by (simp add: size_to_int_def signed_of_nat signed_take_bit_int_eq_self)

lemma mdefined_True [simp, res_simps]: "b \<Longrightarrow> mdefined b msg k = k"
  by (simp add: mdefined_def)

lemma mdefined_eq_Inr_iff [res_simps]: "mdefined b msg k = Inr y \<longleftrightarrow> b \<and> k = Inr y"
  by (simp add: mdefined_def)

lemma cast_int32_fits: "fits_int32 x \<Longrightarrow> cast_int32 x = x"
  by (simp add: cast_int32_def fits_int32_def sint_sbintrunc' signed_take_bit_int_eq_self)

lemma fits_int32_small: "0 \<le> x \<Longrightarrow> x < 2147483648 \<Longrightarrow> fits_int32 x"
  by (simp add: fits_int32_def)

text \<open>C++ division truncates towards zero; on non-negative operands it is \<open>div\<close>.\<close>

lemma sdiv_nonneg: "0 \<le> n \<Longrightarrow> 0 \<le> d \<Longrightarrow> n sdiv d = n div (d :: int)"
  by (cases "n = 0"; cases "d = 0") (auto simp: signed_divide_int_def)

lemma smod_nonneg: "0 \<le> n \<Longrightarrow> 0 \<le> d \<Longrightarrow> n smod d = n mod (d :: int)"
  by (cases "n = 0") (auto simp: signed_modulo_int_def)

lemma smod_sdiv: "n sdiv d * d + n smod d = (n :: int)"
  by (rule sdiv_mult_smod_eq)

lemma int_div_eqI: "d * q \<le> n \<Longrightarrow> n < d * q + d \<Longrightarrow> n div d = (q :: int)"
  by (rule int_div_pos_eq [of n d q "n - d * q"]) auto

text \<open>An invariant of a step relation holds wherever its steps lead.\<close>

lemma rtranclp_invariant:
  "step\<^sup>*\<^sup>* s s' \<Longrightarrow> I s \<Longrightarrow> (\<And>x y. I x \<Longrightarrow> step x y \<Longrightarrow> I y) \<Longrightarrow> I s'"
  by (induction rule: rtranclp_induct) auto

section \<open>Lists\<close>

lemma count_list_append: "count_list (xs @ ys) x = count_list xs x + count_list ys x"
  by (induction xs) simp_all

lemma count_list_0: "count_list xs x = 0 \<longleftrightarrow> x \<notin> set xs"
  by (induction xs) auto

lemma concat_map_concat: "concat (map concat xsss) = concat (concat xsss)"
  by (induction xsss) simp_all

section \<open>Searching\<close>

lemma cpp_search_le: "cpp_search pat xs \<le> length xs"
  by (induction xs) auto

lemma cpp_find_le: "cpp_find c xs \<le> length xs"
  by (induction xs) auto

lemma cpp_search_hit:
  assumes "cpp_search pat xs < length xs"
  shows "take (length pat) (drop (cpp_search pat xs) xs) = pat"
  using assms by (induction xs) (auto split: if_splits)

lemma cpp_search_first:
  "j < cpp_search pat xs \<Longrightarrow> take (length pat) (drop j xs) \<noteq> pat"
proof (induction xs arbitrary: j)
  case (Cons x xs)
  then show ?case by (cases j) (auto split: if_splits)
qed simp

lemma cpp_search_at:
  assumes "pre @ pat @ post = xs" and "pat \<noteq> []"
    and "\<forall>j < length pre. take (length pat) (drop j xs) \<noteq> pat"
  shows "cpp_search pat xs = length pre"
  using assms
proof (induction xs arbitrary: pre)
  case (Cons x xs)
  show ?case
  proof (cases pre)
    case Nil
    with Cons.prems(1) have "take (length pat) (x # xs) = pat"
      by (metis append_Nil append_eq_conv_conj)
    with Nil show ?thesis by simp
  next
    case (Cons y ys)
    then have "take (length pat) (x # xs) \<noteq> pat" and eq: "ys @ pat @ post = xs"
      using Cons.prems by auto
    moreover have "\<forall>j < length ys. take (length pat) (drop j xs) \<noteq> pat"
      using Cons.prems(3) Cons by (metis Suc_less_eq drop_Suc_Cons length_Cons)
    ultimately show ?thesis
      using Cons.IH [OF eq] Cons.prems(2) Cons by simp
  qed
qed simp

lemma cpp_search_eq_length_iff:
  "pat \<noteq> [] \<Longrightarrow> cpp_search pat xs = length xs \<longleftrightarrow> \<not> sublist pat xs"
proof (induction xs)
  case (Cons x xs)
  have "prefix pat (x # xs) \<longleftrightarrow> take (length pat) (x # xs) = pat"
    by (auto simp: prefix_def) (metis append_take_drop_id)
  with Cons show ?case by (auto simp: sublist_Cons_right)
qed simp

lemma cpp_find_nth: "cpp_find c xs < length xs \<Longrightarrow> xs ! cpp_find c xs = c"
  by (induction xs) (auto split: if_splits)

lemma cpp_find_first: "c \<notin> set (take (cpp_find c xs) xs)"
  by (induction xs) auto

lemma cpp_find_eq_length_iff: "cpp_find c xs = length xs \<longleftrightarrow> c \<notin> set xs"
  by (induction xs) auto

lemma cpp_find_append: "c \<notin> set pre \<Longrightarrow> cpp_find c (pre @ c # post) = length pre"
  by (induction pre) auto

lemma cpp_find_takeWhile: "cpp_find c xs = length (takeWhile (\<lambda>x. x \<noteq> c) xs)"
  by (induction xs) auto

end
