(* ===== verification/Endian.thy ===== *)
theory Endian
  imports Flute_Prelude
begin

text \<open>
  Byte order (flute/net/Endian.h). An object of an integer type occupies a run of bytes; on the
  little-endian hosts flute is built for (\<^verbatim>\<open>-march=native\<close> on x86) the least significant byte comes
  first, so \<^verbatim>\<open>htobe64\<close> and its companions reverse the bytes of their argument. \<^verbatim>\<open>int64_t\<close> and
  \<^verbatim>\<open>uint64_t\<close> share their representation, a 64-bit word here.
\<close>

section \<open>Object representation\<close>

fun le_bytes :: "nat \<Rightarrow> nat \<Rightarrow> char list" where
  "le_bytes 0 v = []"
| "le_bytes (Suc n) v = char_of (v mod 256) # le_bytes n (v div 256)"

fun le_val :: "char list \<Rightarrow> nat" where
  "le_val [] = 0"
| "le_val (c # cs) = of_char c + 256 * le_val cs"

definition mem_of :: "'a::len word \<Rightarrow> char list" where
  "mem_of (w :: 'a word) = le_bytes (LENGTH('a) div 8) (unat w)"

definition word_of_mem :: "char list \<Rightarrow> 'a::len word" where
  "word_of_mem bs = word_of_nat (le_val bs)"

definition bswap :: "'a::len word \<Rightarrow> 'a word" where
  "bswap w = word_of_mem (rev (mem_of w))"

section \<open>Endian.h\<close>

definition host_to_net64 :: "64 word \<Rightarrow> 64 word" where "host_to_net64 host64 = bswap host64"
definition host_to_net32 :: "32 word \<Rightarrow> 32 word" where "host_to_net32 host32 = bswap host32"
definition host_to_net16 :: "16 word \<Rightarrow> 16 word" where "host_to_net16 host16 = bswap host16"
definition net_to_host64 :: "64 word \<Rightarrow> 64 word" where "net_to_host64 net64 = bswap net64"
definition net_to_host32 :: "32 word \<Rightarrow> 32 word" where "net_to_host32 net32 = bswap net32"
definition net_to_host16 :: "16 word \<Rightarrow> 16 word" where "net_to_host16 net16 = bswap net16"

lemmas endian_defs =
  host_to_net64_def host_to_net32_def host_to_net16_def
  net_to_host64_def net_to_host32_def net_to_host16_def

section \<open>Round trips\<close>

lemma length_le_bytes [simp]: "length (le_bytes n v) = n"
  by (induction n arbitrary: v) auto

lemma le_val_le_bytes: "le_val (le_bytes n v) = v mod 256 ^ n"
proof (induction n arbitrary: v)
  case 0
  then show ?case by simp
next
  case (Suc n)
  have "v mod 256 + 256 * (v div 256 mod 256 ^ n) = v mod (256 * 256 ^ n)"
    by (simp add: mod_mult2_eq)
  with Suc show ?case by simp
qed

lemma le_bytes_le_val: "le_bytes (length bs) (le_val bs) = bs"
  by (induction bs) simp_all

lemma le_val_less: "le_val bs < 256 ^ length bs"
proof -
  have "le_val bs = le_val (le_bytes (length bs) (le_val bs))"
    by (simp add: le_bytes_le_val)
  also have "\<dots> = le_val bs mod 256 ^ length bs"
    by (rule le_val_le_bytes)
  also have "\<dots> < 256 ^ length bs" by simp
  finally show ?thesis .
qed

lemma length_mem_of [simp]: "length (mem_of (w :: 'a::len word)) = LENGTH('a) div 8"
  by (simp add: mem_of_def)

lemma pow256_bytes: "8 dvd n \<Longrightarrow> (256 :: nat) ^ (n div 8) = 2 ^ n"
  by (auto simp: dvd_def power_mult)

lemma word_of_mem_mem_of:
  assumes "8 dvd LENGTH('a::len)"
  shows "word_of_mem (mem_of w) = (w :: 'a word)"
  using assms by (simp add: word_of_mem_def mem_of_def le_val_le_bytes pow256_bytes unsigned_less)

lemma mem_of_word_of_mem:
  assumes "8 dvd LENGTH('a::len)" and "length bs = LENGTH('a) div 8"
  shows "mem_of (word_of_mem bs :: 'a word) = bs"
proof -
  have "unat (word_of_mem bs :: 'a word) = le_val bs mod 2 ^ LENGTH('a)"
    by (simp add: word_of_mem_def unat_of_nat)
  also have "\<dots> = le_val bs"
    using le_val_less [of bs] assms by (simp add: pow256_bytes)
  finally show ?thesis
    using assms le_bytes_le_val [of bs] by (simp add: mem_of_def)
qed

text \<open>A swapped word lies in memory with its bytes reversed: most significant byte first.\<close>

lemma mem_of_bswap:
  assumes "8 dvd LENGTH('a::len)"
  shows "mem_of (bswap w :: 'a word) = rev (mem_of w)"
  using assms by (simp add: bswap_def mem_of_word_of_mem)

lemma bswap_bswap:
  assumes "8 dvd LENGTH('a::len)"
  shows "bswap (bswap w) = (w :: 'a word)"
  using assms by (simp add: bswap_def mem_of_word_of_mem word_of_mem_mem_of)

end
