(* ===== verification/Byte_Queue.thy ===== *)
theory Byte_Queue
  imports Flute_Prelude
begin

text \<open>
  The contract of a FIFO byte queue, as the clients of \<^verbatim>\<open>Buffer\<close> (TcpConnection, HttpContext) rely on
  it: pushing appends, popping removes a prefix, neither can fail when its precondition holds. What
  a client gets from it is proved once here: whatever the interleaving of pushes and pops, the bytes
  popped so far followed by the bytes still queued are the bytes that were there followed by the
  bytes pushed.
\<close>

datatype qop = Push "char list" | Pop nat

fun pushed :: "qop list \<Rightarrow> char list" where
  "pushed [] = []"
| "pushed (Push d # ops) = d @ pushed ops"
| "pushed (Pop n # ops) = pushed ops"

text \<open>A schedule is legal from a queue of \<open>k\<close> bytes when it never pops more than is there.\<close>

fun legal :: "qop list \<Rightarrow> nat \<Rightarrow> bool" where
  "legal [] k = True"
| "legal (Push d # ops) k = legal ops (k + length d)"
| "legal (Pop n # ops) k = (n \<le> k \<and> legal ops (k - n))"

fun queue_run ::
    "(char list \<Rightarrow> 'q \<Rightarrow> 'q res) \<Rightarrow> (nat \<Rightarrow> 'q \<Rightarrow> 'q res) \<Rightarrow> ('q \<Rightarrow> char list) \<Rightarrow>
     qop list \<Rightarrow> 'q \<Rightarrow> (char list \<times> 'q) res" where
  "queue_run push pop bytes [] q = Inr ([], q)"
| "queue_run push pop bytes (Push d # ops) q = rbind (push d q) (queue_run push pop bytes ops)"
| "queue_run push pop bytes (Pop n # ops) q =
     rbind (pop n q) (\<lambda>q1. rbind (queue_run push pop bytes ops q1)
       (\<lambda>(out, q2). Inr (take n (bytes q) @ out, q2)))"

locale byte_queue =
  fixes invar :: "'q \<Rightarrow> bool"
    and bytes :: "'q \<Rightarrow> char list"
    and push :: "char list \<Rightarrow> 'q \<Rightarrow> 'q res"
    and pop :: "nat \<Rightarrow> 'q \<Rightarrow> 'q res"
  assumes push_ok: "invar q \<Longrightarrow> \<exists>q'. push d q = Inr q' \<and> invar q' \<and> bytes q' = bytes q @ d"
    and pop_ok: "invar q \<Longrightarrow> n \<le> length (bytes q) \<Longrightarrow>
                 \<exists>q'. pop n q = Inr q' \<and> invar q' \<and> bytes q' = drop n (bytes q)"
begin

lemma push_total: "invar q \<Longrightarrow> \<exists>q'. push d q = Inr q'"
  using push_ok by blast

lemma push_Inr: "push d q = Inr q' \<Longrightarrow> invar q \<Longrightarrow> invar q' \<and> bytes q' = bytes q @ d"
  using push_ok [of q d] by auto

lemma pop_Inr:
  "pop n q = Inr q' \<Longrightarrow> invar q \<Longrightarrow> n \<le> length (bytes q) \<Longrightarrow>
   invar q' \<and> bytes q' = drop n (bytes q)"
  using pop_ok [of q n] by auto

theorem fifo:
  assumes "invar q" and "legal ops (length (bytes q))"
  shows "\<exists>out q'. queue_run push pop bytes ops q = Inr (out, q') \<and> invar q' \<and>
                  out @ bytes q' = bytes q @ pushed ops"
  using assms
proof (induction ops arbitrary: q)
  case Nil
  then show ?case by simp
next
  case (Cons op ops)
  show ?case
  proof (cases op)
    case (Push d)
    obtain q1 where "push d q = Inr q1" "invar q1" "bytes q1 = bytes q @ d"
      using push_ok [OF Cons.prems(1)] by blast
    then show ?thesis
      using Cons.IH [of q1] Cons.prems(2) Push by simp
  next
    case (Pop n)
    then have n: "n \<le> length (bytes q)" using Cons.prems(2) by simp
    obtain q1 where q1: "pop n q = Inr q1" "invar q1" "bytes q1 = drop n (bytes q)"
      using pop_ok [OF Cons.prems(1) n] by blast
    obtain out q2 where "queue_run push pop bytes ops q1 = Inr (out, q2)" "invar q2"
        "out @ bytes q2 = bytes q1 @ pushed ops"
      using Cons.IH [of q1] Cons.prems(2) Pop q1 by auto
    then show ?thesis
      using Pop q1 by simp
  qed
qed

end

end
