(* ===== verification/Buffer.thy ===== *)
theory Buffer
  imports Endian Byte_Queue
begin

text \<open>
  The FIFO byte buffer (flute/net/Buffer.h, Buffer.cc). The vector is a byte list, the two indices
  are naturals (\<^verbatim>\<open>size_t\<close>; every subtraction of the source is one whose operands the class
  invariant orders, so the truncated subtraction of \<open>nat\<close> agrees with the unsigned one). A pointer
  into the vector is its offset from \<^verbatim>\<open>begin()\<close>. Every \<^verbatim>\<open>assert\<close> is a branch of the result.
\<close>

section \<open>State\<close>

record buffer =
  m_buffer :: "char list"
  m_read_idx :: nat
  m_write_idx :: nat

definition kCheapPrepend :: nat where "kCheapPrepend = 8"
definition kInitialSize :: nat where "kInitialSize = 1024"

definition kCRLF :: string where "kCRLF = [CHR 0x0D, CHR 0x0A]"

definition Buffer_init :: "nat \<Rightarrow> buffer" where
  "Buffer_init initialSize =
     \<lparr>m_buffer = replicate (kCheapPrepend + initialSize) (CHR 0x00),
      m_read_idx = kCheapPrepend, m_write_idx = kCheapPrepend\<rparr>"

definition swap :: "buffer \<Rightarrow> buffer \<Rightarrow> buffer \<times> buffer" where
  "swap this rhs = (rhs, this)"

section \<open>Queries\<close>

definition content_bytes_len :: "buffer \<Rightarrow> nat" where
  "content_bytes_len b = m_write_idx b - m_read_idx b"

definition writable_bytes_len :: "buffer \<Rightarrow> nat" where
  "writable_bytes_len b = length (m_buffer b) - m_write_idx b"

definition prependable_bytes_len :: "buffer \<Rightarrow> nat" where
  "prependable_bytes_len b = m_read_idx b"

text \<open>The bytes of \<^verbatim>\<open>[begin() + i, begin() + j)\<close>.\<close>

definition bytes_between :: "buffer \<Rightarrow> nat \<Rightarrow> nat \<Rightarrow> char list" where
  "bytes_between b i j = take (j - i) (drop i (m_buffer b))"

text \<open>The readable bytes, from \<^verbatim>\<open>peek_base()\<close> to \<^verbatim>\<open>write_base()\<close>.\<close>

definition contents :: "buffer \<Rightarrow> char list" where
  "contents b = bytes_between b (m_read_idx b) (m_write_idx b)"

definition find_CRLF :: "buffer \<Rightarrow> nat option" where
  "find_CRLF b =
     (let crlf = m_read_idx b + cpp_search kCRLF (contents b)
      in if crlf = m_write_idx b then None else Some crlf)"

definition find_CRLF_from :: "buffer \<Rightarrow> nat \<Rightarrow> nat option res" where
  "find_CRLF_from b start =
     massert (m_read_idx b \<le> start) ''peek_base() <= start''
    (massert (start \<le> m_write_idx b) ''start <= write_base()''
    (let crlf = start + cpp_search kCRLF (bytes_between b start (m_write_idx b))
     in Inr (if crlf = m_write_idx b then None else Some crlf)))"

text \<open>\<^verbatim>\<open>memchr\<close>: the first occurrence, or \<^verbatim>\<open>NULL\<close>.\<close>

definition cpp_memchr :: "buffer \<Rightarrow> nat \<Rightarrow> char \<Rightarrow> nat \<Rightarrow> nat option" where
  "cpp_memchr b start c n =
     (let xs = bytes_between b start (start + n); i = cpp_find c xs
      in if i = length xs then None else Some (start + i))"

definition find_EOL :: "buffer \<Rightarrow> nat option" where
  "find_EOL b = cpp_memchr b (m_read_idx b) (CHR 0x0A) (content_bytes_len b)"

definition find_EOL_from :: "buffer \<Rightarrow> nat \<Rightarrow> nat option res" where
  "find_EOL_from b start =
     massert (m_read_idx b \<le> start) ''peek_base() <= start''
    (massert (start \<le> m_write_idx b) ''start <= write_base()''
    (Inr (cpp_memchr b start (CHR 0x0A) (m_write_idx b - start))))"

text \<open>\<^verbatim>\<open>StringPiece(peek_base(), static_cast<int>(len))\<close> and the \<^verbatim>\<open>string\<close> built the same way: a
  length of \<open>2^31\<close> or more turns into another \<^verbatim>\<open>int\<close>, and a negative one back into a huge
  \<^verbatim>\<open>size_t\<close>, on which the string or vector operation throws.\<close>

definition as_string_piece :: "buffer \<Rightarrow> char list res" where
  "as_string_piece b =
     (let n = size_to_int (content_bytes_len b)
      in if n < 0 then Inl (Throw ''length_error'') else Inr (take (nat n) (contents b)))"

definition as_string :: "buffer \<Rightarrow> char list res" where
  "as_string b =
     (let n = size_to_int (content_bytes_len b)
      in if n < 0 then Inl (Throw ''length_error'') else Inr (take (nat n) (contents b)))"

definition peek_last_as_string :: "buffer \<Rightarrow> nat \<Rightarrow> char list" where
  "peek_last_as_string b len =
     (if len > content_bytes_len b then []
      else let start = m_read_idx b + (content_bytes_len b - len)
           in bytes_between b start (start + len))"

section \<open>Consuming\<close>

definition retrieve_all :: "buffer \<Rightarrow> buffer" where
  "retrieve_all b = b\<lparr>m_read_idx := kCheapPrepend, m_write_idx := kCheapPrepend\<rparr>"

definition retrieve :: "nat \<Rightarrow> buffer \<Rightarrow> buffer res" where
  "retrieve len b =
     massert (len \<le> content_bytes_len b) ''len <= content_bytes_len()''
    (if len < content_bytes_len b then Inr (b\<lparr>m_read_idx := m_read_idx b + len\<rparr>)
     else Inr (retrieve_all b))"

definition retrieve_until :: "nat \<Rightarrow> buffer \<Rightarrow> buffer res" where
  "retrieve_until endp b =
     massert (m_read_idx b \<le> endp) ''peek_base() <= end''
    (massert (endp \<le> m_write_idx b) ''end <= write_base()''
    (retrieve (endp - m_read_idx b) b))"

definition retrieve_int64 :: "buffer \<Rightarrow> buffer res" where "retrieve_int64 = retrieve 8"
definition retrieve_int32 :: "buffer \<Rightarrow> buffer res" where "retrieve_int32 = retrieve 4"
definition retrieve_int16 :: "buffer \<Rightarrow> buffer res" where "retrieve_int16 = retrieve 2"
definition retrieve_int8 :: "buffer \<Rightarrow> buffer res" where "retrieve_int8 = retrieve 1"

definition readout_as_string :: "nat \<Rightarrow> buffer \<Rightarrow> (char list \<times> buffer) res" where
  "readout_as_string len b =
     massert (len \<le> content_bytes_len b) ''len <= content_bytes_len()''
    (let result = bytes_between b (m_read_idx b) (m_read_idx b + len)
     in rbind (retrieve len b) (\<lambda>b'. Inr (result, b')))"

definition readout_all_as_string :: "buffer \<Rightarrow> (char list \<times> buffer) res" where
  "readout_all_as_string b = readout_as_string (content_bytes_len b) b"

section \<open>Producing\<close>

definition make_space :: "nat \<Rightarrow> buffer \<Rightarrow> buffer res" where
  "make_space len b =
     (if writable_bytes_len b + prependable_bytes_len b < len + kCheapPrepend
      then Inr (b\<lparr>m_buffer := vec_resize (CHR 0x00) (m_write_idx b + len) (m_buffer b)\<rparr>)
      else
        massert (kCheapPrepend < m_read_idx b) ''kCheapPrepend < m_read_idx''
       (let readable = content_bytes_len b;
            b' = b\<lparr>m_buffer := copy_at (m_buffer b) kCheapPrepend (contents b),
                   m_read_idx := kCheapPrepend, m_write_idx := kCheapPrepend + readable\<rparr>
        in massert (readable = content_bytes_len b') ''readable == content_bytes_len()'' (Inr b')))"

definition ensure_writable_len :: "nat \<Rightarrow> buffer \<Rightarrow> buffer res" where
  "ensure_writable_len len b =
     rbind (if writable_bytes_len b < len then make_space len b else Inr b)
       (\<lambda>b'. massert (writable_bytes_len b' \<ge> len) ''writable_bytes_len() >= len'' (Inr b'))"

definition mark_written :: "nat \<Rightarrow> buffer \<Rightarrow> buffer res" where
  "mark_written len b =
     massert (len \<le> writable_bytes_len b) ''len <= writable_bytes_len()''
    (Inr (b\<lparr>m_write_idx := m_write_idx b + len\<rparr>))"

definition append_bytes :: "char list \<Rightarrow> buffer \<Rightarrow> buffer res" where
  "append_bytes data b =
     rbind (ensure_writable_len (length data) b)
       (\<lambda>b'. mark_written (length data)
               (b'\<lparr>m_buffer := copy_at (m_buffer b') (m_write_idx b') data\<rparr>))"

definition unwrite :: "nat \<Rightarrow> buffer \<Rightarrow> buffer res" where
  "unwrite len b =
     massert (len \<le> content_bytes_len b) ''len <= content_bytes_len()''
    (Inr (b\<lparr>m_write_idx := m_write_idx b - len\<rparr>))"

definition prepend :: "char list \<Rightarrow> buffer \<Rightarrow> buffer res" where
  "prepend data b =
     massert (length data \<le> prependable_bytes_len b) ''len <= prependable_bytes_len()''
    (let r = m_read_idx b - length data
     in Inr (b\<lparr>m_read_idx := r, m_buffer := copy_at (m_buffer b) r data\<rparr>))"

definition shrink :: "nat \<Rightarrow> buffer \<Rightarrow> buffer res" where
  "shrink reserve b =
     rbind (ensure_writable_len (content_bytes_len b + reserve) (Buffer_init kInitialSize))
       (\<lambda>other. rbind (as_string_piece b) (\<lambda>s. rbind (append_bytes s other)
       (\<lambda>other'. Inr (fst (swap b other')))))"

section \<open>Integers in network byte order\<close>

definition append_int64_net :: "64 word \<Rightarrow> buffer \<Rightarrow> buffer res" where
  "append_int64_net x = append_bytes (mem_of (host_to_net64 x))"
definition append_int32_net :: "32 word \<Rightarrow> buffer \<Rightarrow> buffer res" where
  "append_int32_net x = append_bytes (mem_of (host_to_net32 x))"
definition append_int16_net :: "16 word \<Rightarrow> buffer \<Rightarrow> buffer res" where
  "append_int16_net x = append_bytes (mem_of (host_to_net16 x))"
definition append_int8_net :: "8 word \<Rightarrow> buffer \<Rightarrow> buffer res" where
  "append_int8_net x = append_bytes (mem_of x)"

definition prepend_int64_net :: "64 word \<Rightarrow> buffer \<Rightarrow> buffer res" where
  "prepend_int64_net x = prepend (mem_of (host_to_net64 x))"
definition prepend_int32_net :: "32 word \<Rightarrow> buffer \<Rightarrow> buffer res" where
  "prepend_int32_net x = prepend (mem_of (host_to_net32 x))"
definition prepend_int16_net :: "16 word \<Rightarrow> buffer \<Rightarrow> buffer res" where
  "prepend_int16_net x = prepend (mem_of (host_to_net16 x))"
definition prepend_int8_net :: "8 word \<Rightarrow> buffer \<Rightarrow> buffer res" where
  "prepend_int8_net x = prepend (mem_of x)"

text \<open>\<^verbatim>\<open>memcpy(&x, peek_base(), n)\<close>.\<close>

definition peek_bytes :: "nat \<Rightarrow> buffer \<Rightarrow> char list" where
  "peek_bytes n b = bytes_between b (m_read_idx b) (m_read_idx b + n)"

definition peek_int64_host :: "buffer \<Rightarrow> 64 word res" where
  "peek_int64_host b =
     massert (content_bytes_len b \<ge> 8) ''content_bytes_len() >= sizeof(int64_t)''
    (Inr (net_to_host64 (word_of_mem (peek_bytes 8 b))))"
definition peek_int32_host :: "buffer \<Rightarrow> 32 word res" where
  "peek_int32_host b =
     massert (content_bytes_len b \<ge> 4) ''content_bytes_len() >= sizeof(int32_t)''
    (Inr (net_to_host32 (word_of_mem (peek_bytes 4 b))))"
definition peek_int16_host :: "buffer \<Rightarrow> 16 word res" where
  "peek_int16_host b =
     massert (content_bytes_len b \<ge> 2) ''content_bytes_len() >= sizeof(int16_t)''
    (Inr (net_to_host16 (word_of_mem (peek_bytes 2 b))))"
definition peek_int8_host :: "buffer \<Rightarrow> 8 word res" where
  "peek_int8_host b =
     massert (content_bytes_len b \<ge> 1) ''content_bytes_len() >= sizeof(int8_t)''
    (Inr (word_of_mem (peek_bytes 1 b)))"

definition readout_int64_host :: "buffer \<Rightarrow> (64 word \<times> buffer) res" where
  "readout_int64_host b =
     rbind (peek_int64_host b) (\<lambda>x. rbind (retrieve_int64 b) (\<lambda>b'. Inr (x, b')))"
definition readout_int32_host :: "buffer \<Rightarrow> (32 word \<times> buffer) res" where
  "readout_int32_host b =
     rbind (peek_int32_host b) (\<lambda>x. rbind (retrieve_int32 b) (\<lambda>b'. Inr (x, b')))"
definition readout_int16_host :: "buffer \<Rightarrow> (16 word \<times> buffer) res" where
  "readout_int16_host b =
     rbind (peek_int16_host b) (\<lambda>x. rbind (retrieve_int16 b) (\<lambda>b'. Inr (x, b')))"
definition readout_int8_host :: "buffer \<Rightarrow> (8 word \<times> buffer) res" where
  "readout_int8_host b =
     rbind (peek_int8_host b) (\<lambda>x. rbind (retrieve_int8 b) (\<lambda>b'. Inr (x, b')))"

section \<open>Reading from a descriptor\<close>

text \<open>
  \<^verbatim>\<open>readv\<close> is given the lengths of the two vectors; its outcome is an errno (\<open>Inl\<close>) or the bytes the
  kernel delivered (\<open>Inr\<close>), which it scatters over the vectors in order. The result is the return
  value, the saved errno and the buffer.
\<close>

definition extrabuf_size :: nat where "extrabuf_size = 65536"

definition read_iovs :: "buffer \<Rightarrow> nat list" where
  "read_iovs b =
     (let writable = writable_bytes_len b
      in if writable < extrabuf_size then [writable, extrabuf_size] else [writable])"

definition read_all_from ::
    "(nat list \<Rightarrow> int + char list) \<Rightarrow> buffer \<Rightarrow> (int \<times> int option \<times> buffer) res" where
  "read_all_from readv b =
     (let writable = writable_bytes_len b
      in case readv (read_iovs b) of
           Inl errno \<Rightarrow> Inr (- 1, Some errno, b)
         | Inr d \<Rightarrow>
             let b1 = b\<lparr>m_buffer := copy_at (m_buffer b) (m_write_idx b) (take writable d)\<rparr>
             in if length d \<le> writable
                then rbind (mark_written (length d) b1) (\<lambda>b2. Inr (int (length d), None, b2))
                else rbind (append_bytes (drop writable d) (b1\<lparr>m_write_idx := length (m_buffer b1)\<rparr>))
                       (\<lambda>b2. Inr (int (length d), None, b2)))"

section \<open>The class invariant\<close>

text \<open>Buffer.h:25 states \<^verbatim>\<open>0 <= reader_idx <= writerIndex <= size\<close>; \<^verbatim>\<open>retrieve_all\<close> needs the
  reserved prefix to be there as well.\<close>

definition buf_inv :: "buffer \<Rightarrow> bool" where
  "buf_inv b \<longleftrightarrow>
     m_read_idx b \<le> m_write_idx b \<and> m_write_idx b \<le> length (m_buffer b) \<and>
     kCheapPrepend \<le> length (m_buffer b)"

lemmas buf_len_defs = content_bytes_len_def writable_bytes_len_def prependable_bytes_len_def

lemma Buffer_init_inv [simp]: "buf_inv (Buffer_init n)"
  by (simp add: buf_inv_def Buffer_init_def)

lemma contents_Buffer_init [simp]: "contents (Buffer_init n) = []"
  by (simp add: contents_def bytes_between_def Buffer_init_def)

lemma Buffer_init_asserts:
  "content_bytes_len (Buffer_init n) = 0" "writable_bytes_len (Buffer_init n) = n"
  "prependable_bytes_len (Buffer_init n) = kCheapPrepend"
  by (simp_all add: buf_len_defs Buffer_init_def)

lemma length_contents: "buf_inv b \<Longrightarrow> length (contents b) = content_bytes_len b"
  by (simp add: contents_def bytes_between_def buf_inv_def content_bytes_len_def min_absorb2 diff_le_mono)

lemma contents_retrieve_all [simp]: "contents (retrieve_all b) = []"
  by (simp add: contents_def bytes_between_def retrieve_all_def)

lemma retrieve_all_inv [simp]: "buf_inv b \<Longrightarrow> buf_inv (retrieve_all b)"
  by (simp add: buf_inv_def retrieve_all_def)

lemma bytes_between_prefix:
  "buf_inv b \<Longrightarrow> n \<le> content_bytes_len b \<Longrightarrow>
   bytes_between b (m_read_idx b) (m_read_idx b + n) = take n (contents b)"
  by (simp add: contents_def bytes_between_def content_bytes_len_def)

lemma bytes_between_suffix:
  "buf_inv b \<Longrightarrow> m_read_idx b \<le> start \<Longrightarrow>
   bytes_between b start (m_write_idx b) = drop (start - m_read_idx b) (contents b)"
  by (simp add: contents_def bytes_between_def drop_take)

lemma retrieve_spec:
  assumes "buf_inv b" and "n \<le> length (contents b)"
  shows "\<exists>b'. retrieve n b = Inr b' \<and> buf_inv b' \<and> contents b' = drop n (contents b)"
proof (cases "n < content_bytes_len b")
  case True
  let ?b = "b\<lparr>m_read_idx := m_read_idx b + n\<rparr>"
  have "contents ?b = drop n (contents b)"
    by (simp add: contents_def bytes_between_def drop_take add.commute)
  moreover have "buf_inv ?b"
    using assms True by (auto simp: buf_inv_def content_bytes_len_def)
  ultimately show ?thesis using True by (simp add: retrieve_def)
next
  case False
  with assms show ?thesis by (simp add: retrieve_def length_contents)
qed

lemma retrieve_until_spec:
  assumes "buf_inv b" and "m_read_idx b \<le> e" and "e \<le> m_write_idx b"
  shows "\<exists>b'. retrieve_until e b = Inr b' \<and> buf_inv b' \<and>
              contents b' = drop (e - m_read_idx b) (contents b)"
  using assms retrieve_spec [of b "e - m_read_idx b"]
  by (simp add: retrieve_until_def length_contents content_bytes_len_def)

lemma make_space_spec:
  assumes "buf_inv b" and "writable_bytes_len b < len"
  shows "\<exists>b'. make_space len b = Inr b' \<and> buf_inv b' \<and> contents b' = contents b \<and>
              len \<le> writable_bytes_len b' \<and> min (m_read_idx b) kCheapPrepend \<le> m_read_idx b'"
proof (cases "writable_bytes_len b + prependable_bytes_len b < len + kCheapPrepend")
  case True
  let ?b = "b\<lparr>m_buffer := vec_resize (CHR 0x00) (m_write_idx b + len) (m_buffer b)\<rparr>"
  have grow: "length (m_buffer b) \<le> m_write_idx b + len"
    using assms by (simp add: writable_bytes_len_def)
  have "contents ?b = contents b"
    using assms(1) grow by (simp add: contents_def bytes_between_def vec_resize_grow buf_inv_def)
  moreover have "buf_inv ?b" and "len \<le> writable_bytes_len ?b"
    using assms grow by (auto simp: buf_inv_def writable_bytes_len_def)
  ultimately show ?thesis using True by (simp add: make_space_def)
next
  case False
  let ?b = "b\<lparr>m_buffer := copy_at (m_buffer b) kCheapPrepend (contents b),
              m_read_idx := kCheapPrepend, m_write_idx := kCheapPrepend + content_bytes_len b\<rparr>"
  have room: "kCheapPrepend < m_read_idx b"
    using assms False by (simp add: prependable_bytes_len_def)
  have fits: "kCheapPrepend + length (contents b) \<le> length (m_buffer b)"
    using assms(1) room by (auto simp: length_contents content_bytes_len_def buf_inv_def)
  have "contents ?b = contents b"
    using assms(1) fits
    by (subst contents_def) (simp add: bytes_between_def drop_copy_at_self flip: length_contents)
  moreover have "buf_inv ?b"
    using assms(1) fits length_contents [OF assms(1)] by (simp add: buf_inv_def)
  moreover have "len \<le> writable_bytes_len ?b"
    using assms(1) False fits length_contents [OF assms(1)]
    by (auto simp: buf_len_defs buf_inv_def)
  ultimately show ?thesis using False room by (simp add: make_space_def Let_def content_bytes_len_def)
qed

lemma ensure_writable_len_spec:
  assumes "buf_inv b"
  shows "\<exists>b'. ensure_writable_len len b = Inr b' \<and> buf_inv b' \<and> contents b' = contents b \<and>
              len \<le> writable_bytes_len b' \<and> min (m_read_idx b) kCheapPrepend \<le> m_read_idx b'"
  using assms make_space_spec [of b len]
  by (cases "writable_bytes_len b < len") (auto simp: ensure_writable_len_def)

text \<open>Bytes laid down at \<^verbatim>\<open>write_base()\<close> and then marked as written.\<close>

lemma fill_and_mark_spec:
  assumes "buf_inv b" and "length d \<le> writable_bytes_len b"
  shows "\<exists>b'. mark_written (length d) (b\<lparr>m_buffer := copy_at (m_buffer b) (m_write_idx b) d\<rparr>) = Inr b' \<and>
              buf_inv b' \<and> contents b' = contents b @ d \<and> m_read_idx b' = m_read_idx b"
proof -
  let ?xs = "copy_at (m_buffer b) (m_write_idx b) d"
  let ?b' = "b\<lparr>m_buffer := ?xs, m_write_idx := m_write_idx b + length d\<rparr>"
  have le: "m_write_idx b + length d \<le> length (m_buffer b)" and i: "m_read_idx b \<le> m_write_idx b"
    using assms by (auto simp: buf_inv_def writable_bytes_len_def)
  have "take (m_write_idx b + length d) ?xs = take (m_write_idx b) (m_buffer b) @ d"
    using le by (simp add: copy_at_def)
  then have "contents ?b' = drop (m_read_idx b) (take (m_write_idx b) (m_buffer b) @ d)"
    using i by (simp add: contents_def bytes_between_def take_drop)
  also have "\<dots> = contents b @ d"
    using i le by (simp add: contents_def bytes_between_def take_drop)
  finally have "contents ?b' = contents b @ d" .
  moreover have "buf_inv ?b'"
    using assms le by (simp add: buf_inv_def)
  ultimately show ?thesis
    using assms le by (simp add: mark_written_def writable_bytes_len_def)
qed

lemma append_bytes_spec:
  assumes "buf_inv b"
  shows "\<exists>b'. append_bytes d b = Inr b' \<and> buf_inv b' \<and> contents b' = contents b @ d \<and>
              min (m_read_idx b) kCheapPrepend \<le> m_read_idx b'"
proof -
  obtain b1 where b1: "ensure_writable_len (length d) b = Inr b1" "buf_inv b1"
    "contents b1 = contents b" "length d \<le> writable_bytes_len b1"
    "min (m_read_idx b) kCheapPrepend \<le> m_read_idx b1"
    using ensure_writable_len_spec [OF assms] by blast
  then show ?thesis
    using fill_and_mark_spec [of b1 d] by (auto simp: append_bytes_def)
qed

lemma unwrite_spec:
  assumes "buf_inv b" and "n \<le> length (contents b)"
  shows "\<exists>b'. unwrite n b = Inr b' \<and> buf_inv b' \<and> contents b' = take (length (contents b) - n) (contents b)"
proof -
  let ?b = "b\<lparr>m_write_idx := m_write_idx b - n\<rparr>"
  have n: "n \<le> content_bytes_len b" using assms by (simp add: length_contents)
  then have "contents ?b = take (content_bytes_len b - n) (contents b)"
    by (simp add: contents_def bytes_between_def content_bytes_len_def add.commute)
  moreover have "buf_inv ?b"
    using assms n by (auto simp: buf_inv_def content_bytes_len_def)
  ultimately show ?thesis using assms n by (simp add: unwrite_def length_contents)
qed

lemma prepend_spec:
  assumes "buf_inv b" and "length d \<le> prependable_bytes_len b"
  shows "\<exists>b'. prepend d b = Inr b' \<and> buf_inv b' \<and> contents b' = d @ contents b"
proof -
  let ?r = "m_read_idx b - length d"
  let ?b' = "b\<lparr>m_read_idx := ?r, m_buffer := copy_at (m_buffer b) ?r d\<rparr>"
  have r: "?r + length d = m_read_idx b" "m_read_idx b \<le> m_write_idx b" "m_write_idx b \<le> length (m_buffer b)"
    using assms by (auto simp: prependable_bytes_len_def buf_inv_def)
  have "contents ?b' = take (m_write_idx b - ?r) (d @ drop (m_read_idx b) (m_buffer b))"
    using r by (simp add: contents_def bytes_between_def drop_copy_at_self)
  also have "\<dots> = d @ contents b"
  proof -
    have "m_write_idx b - ?r - length d = m_write_idx b - m_read_idx b" "length d \<le> m_write_idx b - ?r"
      using r by simp_all
    then show ?thesis by (simp add: contents_def bytes_between_def)
  qed
  finally have "contents ?b' = d @ contents b" .
  moreover have "buf_inv ?b'"
    using assms r by (auto simp: buf_inv_def)
  ultimately show ?thesis
    using assms by (simp add: prepend_def Let_def)
qed

lemma shrink_spec:
  assumes "buf_inv b" and "length (contents b) < 2 ^ 31"
  shows "\<exists>b'. shrink r b = Inr b' \<and> buf_inv b' \<and> contents b' = contents b"
proof -
  have "as_string_piece b = Inr (contents b)"
    using assms by (simp add: as_string_piece_def size_to_int_small flip: length_contents)
  moreover obtain o1 where "ensure_writable_len (content_bytes_len b + r) (Buffer_init kInitialSize) = Inr o1"
    "buf_inv o1" "contents o1 = []"
    using ensure_writable_len_spec [of "Buffer_init kInitialSize"] by force
  ultimately show ?thesis
    using append_bytes_spec [of o1 "contents b"] by (auto simp: shrink_def swap_def)
qed

lemma readout_as_string_spec:
  assumes "buf_inv b" and "n \<le> length (contents b)"
  shows "\<exists>b'. readout_as_string n b = Inr (take n (contents b), b') \<and> buf_inv b' \<and>
              contents b' = drop n (contents b)"
  using retrieve_spec [OF assms] assms bytes_between_prefix [OF assms(1), of n]
  by (auto simp: readout_as_string_def length_contents)

lemma readout_all_as_string_spec:
  assumes "buf_inv b"
  shows "\<exists>b'. readout_all_as_string b = Inr (contents b, b') \<and> buf_inv b' \<and> contents b' = []"
  using readout_as_string_spec [OF assms order_refl]
  by (simp add: readout_all_as_string_def length_contents [OF assms])

lemma as_string_spec:
  assumes "buf_inv b" and "length (contents b) < 2 ^ 31"
  shows "as_string b = Inr (contents b)"
  using assms by (simp add: as_string_def size_to_int_small flip: length_contents)

lemma peek_last_as_string_spec:
  assumes "buf_inv b"
  shows "peek_last_as_string b n =
    (if n \<le> length (contents b) then drop (length (contents b) - n) (contents b) else [])"
proof (cases "n \<le> content_bytes_len b")
  case True
  let ?start = "m_read_idx b + (content_bytes_len b - n)"
  have e: "?start + n = m_write_idx b"
    using True assms by (auto simp: content_bytes_len_def buf_inv_def)
  have "bytes_between b ?start (m_write_idx b) = drop (content_bytes_len b - n) (contents b)"
    using bytes_between_suffix [OF assms, of ?start] by simp
  with True show ?thesis
    unfolding peek_last_as_string_def length_contents [OF assms] Let_def e by simp
next
  case False
  then show ?thesis by (simp add: peek_last_as_string_def length_contents [OF assms])
qed

section \<open>Searching\<close>

lemma find_CRLF_Some:
  assumes "buf_inv b" and "find_CRLF b = Some p"
  shows "m_read_idx b \<le> p \<and> p + 2 \<le> m_write_idx b \<and>
         contents b = take (p - m_read_idx b) (contents b) @ kCRLF @ drop (p + 2 - m_read_idx b) (contents b)"
proof -
  let ?i = "cpp_search kCRLF (contents b)"
  have p: "p = m_read_idx b + ?i" and ne: "p \<noteq> m_write_idx b"
    using assms(2) by (auto simp: find_CRLF_def Let_def split: if_splits)
  have len: "m_read_idx b + length (contents b) = m_write_idx b"
    using assms(1) length_contents [OF assms(1)] by (simp add: content_bytes_len_def buf_inv_def)
  then have lt: "?i < length (contents b)"
    using p ne cpp_search_le [of kCRLF "contents b"] by simp
  have hit: "take 2 (drop ?i (contents b)) = kCRLF"
    using cpp_search_hit [OF lt] by (simp add: kCRLF_def numeral_2_eq_2)
  then have "length (take 2 (drop ?i (contents b))) = 2" by (simp add: kCRLF_def)
  then have two: "?i + 2 \<le> length (contents b)" by simp
  have "drop ?i (contents b) = kCRLF @ drop (?i + 2) (contents b)"
    by (metis hit append_take_drop_id drop_drop add.commute)
  then have "contents b = take ?i (contents b) @ kCRLF @ drop (?i + 2) (contents b)"
    by (metis append_take_drop_id)
  with p two len show ?thesis by simp
qed

lemma find_CRLF_first:
  assumes "find_CRLF b = Some p" and "m_read_idx b \<le> q" and "q < p"
  shows "take 2 (drop (q - m_read_idx b) (contents b)) \<noteq> kCRLF"
  using assms cpp_search_first [of "q - m_read_idx b" kCRLF "contents b"]
  by (auto simp: find_CRLF_def Let_def kCRLF_def numeral_2_eq_2 split: if_splits)

lemma find_CRLF_None_iff:
  assumes "buf_inv b"
  shows "find_CRLF b = None \<longleftrightarrow> \<not> sublist kCRLF (contents b)"
proof
  assume "find_CRLF b = None"
  then have "cpp_search kCRLF (contents b) = length (contents b)"
    using length_contents [OF assms]
    by (auto simp: find_CRLF_def Let_def content_bytes_len_def split: if_splits)
  then show "\<not> sublist kCRLF (contents b)"
    by (auto simp: cpp_search_eq_length_iff kCRLF_def)
next
  assume no: "\<not> sublist kCRLF (contents b)"
  show "find_CRLF b = None"
  proof (cases "find_CRLF b")
    case (Some p)
    then have False
      using find_CRLF_Some [OF assms Some] no by (metis sublist_appendI)
    then show ?thesis ..
  qed
qed

section \<open>Reading and integers\<close>

lemma read_all_from_spec:
  assumes "buf_inv b"
    and "readv (read_iovs b) = Inr d"
  shows "\<exists>b'. read_all_from readv b = Inr (int (length d), None, b') \<and> buf_inv b' \<and>
              contents b' = contents b @ d"
proof (cases "length d \<le> writable_bytes_len b")
  case True
  then show ?thesis
    using fill_and_mark_spec [OF assms(1), of d] assms(2) by (auto simp: read_all_from_def Let_def)
next
  case False
  let ?w = "writable_bytes_len b"
  let ?b1 = "b\<lparr>m_buffer := copy_at (m_buffer b) (m_write_idx b) (take ?w d)\<rparr>"
  let ?b2 = "?b1\<lparr>m_write_idx := length (m_buffer ?b1)\<rparr>"
  have len: "m_write_idx b + ?w = length (m_buffer b)" "length (take ?w d) = ?w"
    using assms(1) False by (auto simp: writable_bytes_len_def buf_inv_def)
  have "\<exists>b'. mark_written ?w ?b1 = Inr b' \<and> buf_inv b' \<and> contents b' = contents b @ take ?w d"
    using fill_and_mark_spec [OF assms(1), of "take ?w d"] len by auto
  moreover have "mark_written ?w ?b1 = Inr ?b2"
    using len by (simp add: mark_written_def writable_bytes_len_def)
  ultimately have b2: "buf_inv ?b2" "contents ?b2 = contents b @ take ?w d"
    by auto
  obtain b3 where "append_bytes (drop ?w d) ?b2 = Inr b3" "buf_inv b3"
      "contents b3 = contents ?b2 @ drop ?w d"
    using append_bytes_spec [OF b2(1)] by blast
  then show ?thesis using False assms(2) b2(2) by (simp add: read_all_from_def Let_def)
qed

lemma peek_bytes_prefix:
  assumes "buf_inv b" and "contents b = d @ rest"
  shows "peek_bytes (length d) b = d" "length d \<le> content_bytes_len b"
  using assms bytes_between_prefix [of b "length d"] length_contents [OF assms(1)]
  by (simp_all add: peek_bytes_def)

lemma word_of_mem_net [simp]:
  "bswap (word_of_mem (rev (mem_of x)) :: 64 word) = x"
  "bswap (word_of_mem (rev (mem_of y)) :: 32 word) = y"
  "bswap (word_of_mem (rev (mem_of z)) :: 16 word) = z"
  by (simp_all flip: bswap_def add: bswap_bswap)

lemma readout_int64_spec:
  assumes "buf_inv b" and "contents b = mem_of (host_to_net64 x) @ rest"
  shows "\<exists>b'. readout_int64_host b = Inr (x, b') \<and> buf_inv b' \<and> contents b' = rest"
  using peek_bytes_prefix [OF assms] retrieve_spec [OF assms(1), of 8] assms(2)
  by (auto simp: readout_int64_host_def peek_int64_host_def retrieve_int64_def endian_defs mem_of_bswap)

lemma readout_int32_spec:
  assumes "buf_inv b" and "contents b = mem_of (host_to_net32 x) @ rest"
  shows "\<exists>b'. readout_int32_host b = Inr (x, b') \<and> buf_inv b' \<and> contents b' = rest"
  using peek_bytes_prefix [OF assms] retrieve_spec [OF assms(1), of 4] assms(2)
  by (auto simp: readout_int32_host_def peek_int32_host_def retrieve_int32_def endian_defs mem_of_bswap)

lemma readout_int16_spec:
  assumes "buf_inv b" and "contents b = mem_of (host_to_net16 x) @ rest"
  shows "\<exists>b'. readout_int16_host b = Inr (x, b') \<and> buf_inv b' \<and> contents b' = rest"
  using peek_bytes_prefix [OF assms] retrieve_spec [OF assms(1), of 2] assms(2)
  by (auto simp: readout_int16_host_def peek_int16_host_def retrieve_int16_def endian_defs mem_of_bswap)

lemma readout_int8_spec:
  assumes "buf_inv b" and "contents b = mem_of x @ rest"
  shows "\<exists>b'. readout_int8_host b = Inr (x, b') \<and> buf_inv b' \<and> contents b' = rest"
  using peek_bytes_prefix [OF assms] retrieve_spec [OF assms(1), of 1] assms(2)
  by (auto simp: readout_int8_host_def peek_int8_host_def retrieve_int8_def word_of_mem_mem_of)

section \<open>The buffer as a byte queue\<close>

interpretation buf: byte_queue buf_inv contents append_bytes retrieve
  using append_bytes_spec retrieve_spec by unfold_locales blast+

text \<open>
  The abstract buffer keeps its bytes and a number of bytes that are certain to be free in front of
  them; an operation the abstract buffer refuses (\<open>None\<close>) is one the caller has no right to make.
\<close>

datatype buf_op =
    Append "char list" | Retrieve nat | Retrieve_all | Unwrite nat | Prepend "char list"
  | Ensure_writable nat | Shrink nat

type_synonym abs_buf = "nat \<times> char list"

fun buf_exec :: "buf_op \<Rightarrow> buffer \<Rightarrow> buffer res" where
  "buf_exec (Append d) b = append_bytes d b"
| "buf_exec (Retrieve n) b = retrieve n b"
| "buf_exec Retrieve_all b = Inr (retrieve_all b)"
| "buf_exec (Unwrite n) b = unwrite n b"
| "buf_exec (Prepend d) b = prepend d b"
| "buf_exec (Ensure_writable n) b = ensure_writable_len n b"
| "buf_exec (Shrink r) b = shrink r b"

fun abs_exec :: "buf_op \<Rightarrow> abs_buf \<Rightarrow> abs_buf option" where
  "abs_exec (Append d) (g, bs) = Some (min g 8, bs @ d)"
| "abs_exec (Retrieve n) (g, bs) =
     (if n < length bs then Some (g + n, drop n bs)
      else if n = length bs then Some (8, []) else None)"
| "abs_exec Retrieve_all (g, bs) = Some (8, [])"
| "abs_exec (Unwrite n) (g, bs) =
     (if n \<le> length bs then Some (g, take (length bs - n) bs) else None)"
| "abs_exec (Prepend d) (g, bs) = (if length d \<le> g then Some (g - length d, d @ bs) else None)"
| "abs_exec (Ensure_writable n) (g, bs) = Some (min g 8, bs)"
| "abs_exec (Shrink r) (g, bs) = (if length bs < 2 ^ 31 then Some (8, bs) else None)"

definition buf_refines :: "buffer \<Rightarrow> abs_buf \<Rightarrow> bool" where
  "buf_refines b a \<longleftrightarrow> buf_inv b \<and> contents b = snd a \<and> fst a \<le> m_read_idx b"

fun buf_run :: "buf_op list \<Rightarrow> buffer \<Rightarrow> buffer res" where
  "buf_run [] b = Inr b"
| "buf_run (op # ops) b = rbind (buf_exec op b) (buf_run ops)"

fun abs_run :: "buf_op list \<Rightarrow> abs_buf \<Rightarrow> abs_buf option" where
  "abs_run [] a = Some a"
| "abs_run (op # ops) a = Option.bind (abs_exec op a) (abs_run ops)"

lemma retrieve_read_idx:
  "retrieve n b = Inr b' \<Longrightarrow>
   m_read_idx b' = (if n < content_bytes_len b then m_read_idx b + n else kCheapPrepend)"
  by (auto simp: retrieve_def massert_def retrieve_all_def split: if_splits)

lemma shrink_read_idx:
  assumes "shrink r b = Inr b'"
  shows "kCheapPrepend \<le> m_read_idx b'"
proof -
  obtain o1 s where o1: "ensure_writable_len (content_bytes_len b + r) (Buffer_init kInitialSize) = Inr o1"
    and b': "append_bytes s o1 = Inr b'"
    using assms by (auto simp: shrink_def swap_def rbind_eq_Inr_iff)
  have "buf_inv o1 \<and> kCheapPrepend \<le> m_read_idx o1"
    using ensure_writable_len_spec [OF Buffer_init_inv, of "content_bytes_len b + r" kInitialSize] o1
    by (auto simp: Buffer_init_def)
  then show ?thesis
    using append_bytes_spec [of o1 s] b' by auto
qed

lemma buf_exec_refines:
  assumes "buf_refines b a" and "abs_exec op a = Some a'"
  shows "\<exists>b'. buf_exec op b = Inr b' \<and> buf_refines b' a'"
proof -
  obtain g where a: "a = (g, contents b)" and inv: "buf_inv b" and g: "g \<le> m_read_idx b"
    using assms(1) by (cases a) (auto simp: buf_refines_def)
  note len = length_contents [OF inv]
  show ?thesis
  proof (cases op)
    case (Append d)
    then show ?thesis
      using append_bytes_spec [OF inv, of d] assms(2) a g
      by (force simp: buf_refines_def kCheapPrepend_def)
  next
    case (Retrieve n)
    then have "n \<le> length (contents b)" using assms(2) a by (auto split: if_splits)
    then show ?thesis
      using retrieve_spec [OF inv, of n] retrieve_read_idx [of n b] assms(2) a g Retrieve len
      by (force simp: buf_refines_def kCheapPrepend_def split: if_splits)
  next
    case Retrieve_all
    then show ?thesis
      using assms(2) a inv by (auto simp: buf_refines_def) (simp add: retrieve_all_def kCheapPrepend_def)
  next
    case (Unwrite n)
    then show ?thesis
      using unwrite_spec [OF inv, of n] assms(2) a g
      by (auto simp: buf_refines_def unwrite_def massert_def split: if_splits)
  next
    case (Prepend d)
    then show ?thesis
      using prepend_spec [OF inv, of d] assms(2) a g
      by (auto simp: buf_refines_def prepend_def massert_def prependable_bytes_len_def Let_def split: if_splits)
  next
    case (Ensure_writable n)
    then show ?thesis
      using ensure_writable_len_spec [OF inv, of n] assms(2) a g
      by (force simp: buf_refines_def kCheapPrepend_def)
  next
    case (Shrink r)
    then show ?thesis
      using shrink_spec [OF inv, of r] shrink_read_idx [of r b] assms(2) a g
      by (auto simp: buf_refines_def kCheapPrepend_def split: if_splits)
  qed
qed

section \<open>Properties\<close>

lemma buf_run_refines:
  "buf_refines b a \<Longrightarrow> abs_run ops a = Some a' \<Longrightarrow> \<exists>b'. buf_run ops b = Inr b' \<and> buf_refines b' a'"
proof (induction ops arbitrary: b a)
  case (Cons op ops)
  then obtain a1 where "abs_exec op a = Some a1" "abs_run ops a1 = Some a'"
    by (auto simp: Option.bind_eq_Some_conv)
  then show ?case
    using buf_exec_refines [OF Cons.prems(1)] Cons.IH by fastforce
qed simp

text \<open>
  C2: The buffer implements its abstract specification. Take any sequence of appends, retrieves,
  unwrites, prepends, reservations and shrinks that the abstract buffer (a byte string with at
  least 8 bytes of room in front of it at the start) allows. Executed on a freshly constructed
  \<^verbatim>\<open>Buffer\<close> of any initial size, no assertion of Buffer.h fails, and the result satisfies the class
  invariant, holds exactly the abstract bytes and has the promised room for a prepend.
\<close>

theorem buffer_implements_bytes:
  assumes "abs_run ops (8, []) = Some (g, bs)"
  shows "\<exists>b. buf_run ops (Buffer_init initialSize) = Inr b \<and> buf_inv b \<and> contents b = bs \<and>
             g \<le> m_read_idx b"
proof -
  have "buf_refines (Buffer_init initialSize) (8, [])"
    by (simp add: buf_refines_def) (simp add: Buffer_init_def kCheapPrepend_def)
  from buf_run_refines [OF this assms] show ?thesis
    by (auto simp: buf_refines_def)
qed

theorem buffer_implements_bytes_witness:
  "\<exists>b. buf_run [Append ''hello'', Retrieve 2, Append ''xy'', Prepend ''ab'', Unwrite 1, Shrink 3]
         (Buffer_init 2) = Inr b \<and> buf_inv b \<and> contents b = ''abllox'' \<and> 8 \<le> m_read_idx b"
  using buffer_implements_bytes
    [of "[Append ''hello'', Retrieve 2, Append ''xy'', Prepend ''ab'', Unwrite 1, Shrink 3]"
        8 "''abllox''" 2]
  by simp

text \<open>
  First in, first out, and nothing lost. Whatever the interleaving of \<^verbatim>\<open>append\<close> and \<^verbatim>\<open>retrieve\<close> on a
  valid buffer (never retrieving more than is readable), the bytes consumed followed by the bytes
  left are the bytes that were there followed by the bytes appended; growing, sliding and resetting
  the indices never lose, duplicate or reorder a byte.
\<close>

theorem buffer_fifo:
  assumes "buf_inv b" and "legal ops (length (contents b))"
  shows "\<exists>out b'. queue_run append_bytes retrieve contents ops b = Inr (out, b') \<and> buf_inv b' \<and>
                  out @ contents b' = contents b @ pushed ops"
  by (rule buf.fifo [OF assms])

theorem buffer_fifo_witness:
  "\<exists>out b'. queue_run append_bytes retrieve contents [Push ''abcd'', Pop 3, Push ''efgh'', Pop 4]
              (Buffer_init 4) = Inr (out, b') \<and> buf_inv b' \<and> out @ contents b' = ''abcdefgh''"
  using buffer_fifo [of "Buffer_init 4" "[Push ''abcd'', Pop 3, Push ''efgh'', Pop 4]"] by simp

text \<open>A sender that writes one integer of each width and the receiver that reads them back.\<close>

definition write_ints :: "64 word \<Rightarrow> 32 word \<Rightarrow> 16 word \<Rightarrow> 8 word \<Rightarrow> buffer \<Rightarrow> buffer res" where
  "write_ints x y z w b =
     rbind (append_int64_net x b) (\<lambda>b1. rbind (append_int32_net y b1) (\<lambda>b2.
     rbind (append_int16_net z b2) (append_int8_net w)))"

definition read_ints :: "buffer \<Rightarrow> ((64 word \<times> 32 word \<times> 16 word \<times> 8 word) \<times> buffer) res" where
  "read_ints b =
     rbind (readout_int64_host b) (\<lambda>(x, b1). rbind (readout_int32_host b1) (\<lambda>(y, b2).
     rbind (readout_int16_host b2) (\<lambda>(z, b3). rbind (readout_int8_host b3) (\<lambda>(w, b4).
     Inr ((x, y, z, w), b4)))))"

lemma write_ints_spec:
  assumes "buf_inv b"
  shows "\<exists>b'. write_ints x y z w b = Inr b' \<and> buf_inv b' \<and>
              contents b' = contents b @ mem_of (host_to_net64 x) @ mem_of (host_to_net32 y) @
                            mem_of (host_to_net16 z) @ mem_of w"
proof -
  obtain b1 where b1: "append_int64_net x b = Inr b1" "buf_inv b1"
      "contents b1 = contents b @ mem_of (host_to_net64 x)"
    using buf.push_ok [OF assms] by (auto simp: append_int64_net_def)
  obtain b2 where b2: "append_int32_net y b1 = Inr b2" "buf_inv b2"
      "contents b2 = contents b1 @ mem_of (host_to_net32 y)"
    using buf.push_ok [OF b1(2)] by (auto simp: append_int32_net_def)
  obtain b3 where b3: "append_int16_net z b2 = Inr b3" "buf_inv b3"
      "contents b3 = contents b2 @ mem_of (host_to_net16 z)"
    using buf.push_ok [OF b2(2)] by (auto simp: append_int16_net_def)
  show ?thesis
    using b1 b2 b3 buf.push_ok [OF b3(2), of "mem_of w"] by (simp add: write_ints_def append_int8_net_def)
qed

lemma read_ints_spec:
  assumes "buf_inv b" and "contents b = mem_of (host_to_net64 x) @ mem_of (host_to_net32 y) @
                                        mem_of (host_to_net16 z) @ mem_of w"
  shows "\<exists>b'. read_ints b = Inr ((x, y, z, w), b') \<and> buf_inv b' \<and> contents b' = []"
proof -
  obtain b1 where b1: "readout_int64_host b = Inr (x, b1)" "buf_inv b1"
      "contents b1 = mem_of (host_to_net32 y) @ mem_of (host_to_net16 z) @ mem_of w"
    using readout_int64_spec [OF assms] by blast
  obtain b2 where b2: "readout_int32_host b1 = Inr (y, b2)" "buf_inv b2"
      "contents b2 = mem_of (host_to_net16 z) @ mem_of w"
    using readout_int32_spec [OF b1(2,3)] by blast
  obtain b3 where b3: "readout_int16_host b2 = Inr (z, b3)" "buf_inv b3" "contents b3 = mem_of w @ []"
    using readout_int16_spec [OF b2(2,3)] by auto
  show ?thesis
    using b1 b2 b3 readout_int8_spec [OF b3(2,3)] by (auto simp: read_ints_def)
qed

text \<open>
  C34: Integers survive the trip through the buffer. On any valid buffer, integers of 8, 4, 2 and 1
  bytes appended in network order come back, after the older bytes are consumed, as the same values
  in the same order through \<^verbatim>\<open>readout_int64/32/16/8_host\<close>, with no assertion failing and nothing left
  over.
\<close>

theorem buffer_int_roundtrip:
  assumes "buf_inv b"
  shows "\<exists>b1 b2 b3. write_ints x y z w b = Inr b1 \<and> retrieve (length (contents b)) b1 = Inr b2 \<and>
                    read_ints b2 = Inr ((x, y, z, w), b3) \<and> buf_inv b3 \<and> contents b3 = []"
proof -
  obtain b1 where b1: "write_ints x y z w b = Inr b1" "buf_inv b1"
      "contents b1 = contents b @ mem_of (host_to_net64 x) @ mem_of (host_to_net32 y) @
                     mem_of (host_to_net16 z) @ mem_of w"
    using write_ints_spec [OF assms] by blast
  obtain b2 where b2: "retrieve (length (contents b)) b1 = Inr b2" "buf_inv b2"
      "contents b2 = mem_of (host_to_net64 x) @ mem_of (host_to_net32 y) @ mem_of (host_to_net16 z) @ mem_of w"
    using buf.pop_ok [OF b1(2), of "length (contents b)"] b1(3) by auto
  show ?thesis
    using b1(1) b2(1) read_ints_spec [OF b2(2,3)] by blast
qed

theorem buffer_int_roundtrip_witness:
  "\<exists>b1 b2 b3. write_ints 1 (- 2) 3 255 (Buffer_init 0) = Inr b1 \<and> retrieve 0 b1 = Inr b2 \<and>
              read_ints b2 = Inr ((1, - 2, 3, 255), b3) \<and> buf_inv b3 \<and> contents b3 = []"
  using buffer_int_roundtrip [of "Buffer_init 0" 1 "- 2" 3 255] by simp

text \<open>
  Reading a descriptor into a buffer loses nothing. If \<^verbatim>\<open>readv\<close> delivers at most as many bytes as its
  vectors hold, \<^verbatim>\<open>read_all_from\<close> on a valid buffer never trips an assertion: on an error it returns -1
  with the errno and leaves the buffer alone, otherwise it returns the number of bytes delivered and
  they are appended in order, including those that went to the 64 KiB stack buffer, and the buffer
  stays valid. When the stack buffer is used at most 128 KiB - 1 bytes are read (Buffer.cc:24).
\<close>

theorem read_all_from_appends:
  assumes "buf_inv b"
    and "\<And>iovs d. readv iovs = Inr d \<Longrightarrow> length d \<le> sum_list iovs"
  shows "case readv (read_iovs b) of
           Inl errno \<Rightarrow> read_all_from readv b = Inr (- 1, Some errno, b)
         | Inr d \<Rightarrow> \<exists>b'. read_all_from readv b = Inr (int (length d), None, b') \<and> buf_inv b' \<and>
                       contents b' = contents b @ d \<and>
                       length d \<le> max (writable_bytes_len b) (128 * 1024 - 1)"
proof (cases "readv (read_iovs b)")
  case (Inl e)
  then show ?thesis by (simp add: read_all_from_def Let_def)
next
  case (Inr d)
  have "length d \<le> max (writable_bytes_len b) (128 * 1024 - 1)"
    using assms(2) [OF Inr] by (auto simp: read_iovs_def extrabuf_size_def Let_def split: if_splits)
  then show ?thesis
    using Inr read_all_from_spec [of b readv d] assms(1) by simp
qed

theorem read_all_from_appends_witness:
  "\<exists>b'. read_all_from (\<lambda>iovs. Inr (take (sum_list iovs) ''GET / HTTP/1.1'')) (Buffer_init 4) = Inr (14, None, b') \<and>
        buf_inv b' \<and> contents b' = ''GET / HTTP/1.1''"
  using read_all_from_appends [of "Buffer_init 4" "\<lambda>iovs. Inr (take (sum_list iovs) ''GET / HTTP/1.1'')"]
  by (auto simp: read_iovs_def Let_def extrabuf_size_def Buffer_init_asserts)

text \<open>
  \<^verbatim>\<open>find_CRLF\<close> finds the first line end. On a valid buffer it returns a position exactly when the
  readable bytes contain a CR LF pair, and then the position is inside the readable bytes, the pair
  stands there, no earlier pair exists, and \<^verbatim>\<open>retrieve_until\<close> just behind the pair succeeds and leaves
  exactly the bytes after the line.
\<close>

theorem find_CRLF_correct:
  assumes "buf_inv b"
  shows "case find_CRLF b of
           None \<Rightarrow> \<not> sublist kCRLF (contents b)
         | Some p \<Rightarrow> \<exists>line rest b'. contents b = line @ kCRLF @ rest \<and> length line = p - m_read_idx b \<and>
                       m_read_idx b \<le> p \<and> \<not> sublist kCRLF (line @ butlast kCRLF) \<and>
                       retrieve_until (p + 2) b = Inr b' \<and> buf_inv b' \<and> contents b' = rest"
proof (cases "find_CRLF b")
  case None
  then show ?thesis using find_CRLF_None_iff [OF assms] by simp
next
  case (Some p)
  let ?i = "p - m_read_idx b"
  note hit = find_CRLF_Some [OF assms Some]
  define line where "line = take ?i (contents b)"
  define rest where "rest = drop (p + 2 - m_read_idx b) (contents b)"
  have split: "contents b = line @ kCRLF @ rest" "m_read_idx b \<le> p"
    using hit by (simp_all add: line_def rest_def)
  have len: "length (contents b) = m_write_idx b - m_read_idx b"
    using length_contents [OF assms] by (simp add: content_bytes_len_def)
  have "length line = ?i"
    using hit len by (simp add: line_def min_def) linarith
  moreover have "\<not> sublist kCRLF (line @ butlast kCRLF)"
  proof
    assume "sublist kCRLF (line @ butlast kCRLF)"
    then obtain u v where uv: "line @ butlast kCRLF = u @ kCRLF @ v" by (auto simp: sublist_def)
    then have "length (line @ butlast kCRLF) = length (u @ kCRLF @ v)" by simp
    then have "m_read_idx b + length u < p" using \<open>length line = ?i\<close> by (simp add: kCRLF_def)
    moreover have "contents b = u @ kCRLF @ v @ [last kCRLF] @ rest"
      using split(1) uv by (simp add: kCRLF_def)
    ultimately show False
      using find_CRLF_first [OF Some, of "m_read_idx b + length u"] by (simp add: kCRLF_def numeral_2_eq_2)
  qed
  moreover obtain b' where "retrieve_until (p + 2) b = Inr b'" "buf_inv b'" "contents b' = rest"
    using retrieve_until_spec [OF assms, of "p + 2"] hit by (auto simp: rest_def)
  ultimately show ?thesis using Some split by auto
qed

theorem find_CRLF_correct_witness:
  "let b = \<lparr>m_buffer = replicate 8 (CHR 0x00) @ ''GET /'' @ kCRLF @ ''Host'', m_read_idx = 8, m_write_idx = 19\<rparr>
   in find_CRLF b = Some 13 \<and>
      (\<exists>line rest b'. contents b = line @ kCRLF @ rest \<and> length line = 5 \<and>
         \<not> sublist kCRLF (line @ butlast kCRLF) \<and>
         retrieve_until 15 b = Inr b' \<and> buf_inv b' \<and> contents b' = rest)"
proof -
  let ?b = "\<lparr>m_buffer = replicate 8 (CHR 0x00) @ ''GET /'' @ kCRLF @ ''Host'', m_read_idx = 8, m_write_idx = 19\<rparr>"
  have "buf_inv ?b" by (simp add: buf_inv_def kCRLF_def kCheapPrepend_def)
  moreover have "find_CRLF ?b = Some 13"
    by (simp add: find_CRLF_def contents_def bytes_between_def kCRLF_def Let_def)
  ultimately show ?thesis
    using find_CRLF_correct [of ?b] by (auto simp: Let_def)
qed

end
