(* ===== verification/Cformat.thy ===== *)
theory Cformat
  imports Flute_Prelude
begin

text \<open>
  What the sources use of \<^verbatim>\<open>snprintf\<close>: the conversions \<^verbatim>\<open>%d\<close>, \<^verbatim>\<open>%4d\<close> and \<^verbatim>\<open>%06d\<close> of the C library, and
  that at most \<^verbatim>\<open>size - 1\<close> characters are kept. The reading of a decimal numeral shows that printing
  loses nothing.
\<close>

definition digit :: "nat \<Rightarrow> char" where
  "digit n = char_of (48 + n)"

fun dec_nat :: "nat \<Rightarrow> string" where
  "dec_nat n = (if n < 10 then [digit n] else dec_nat (n div 10) @ [digit (n mod 10)])"

declare dec_nat.simps [simp del]

definition dec_int :: "int \<Rightarrow> string" where
  "dec_int x = (if x < 0 then CHR ''-'' # dec_nat (nat (- x)) else dec_nat (nat x))"

text \<open>\<^verbatim>\<open>%<w>d\<close> pads with blanks on the left, \<^verbatim>\<open>%0<w>d\<close> with zeros behind the sign.\<close>

definition fmt_d :: "nat \<Rightarrow> int \<Rightarrow> string" where
  "fmt_d w x = replicate (w - length (dec_int x)) (CHR '' '') @ dec_int x"

definition fmt_0d :: "nat \<Rightarrow> int \<Rightarrow> string" where
  "fmt_0d w x =
     (let ds = dec_nat (nat \<bar>x\<bar>); sg = (if x < 0 then [CHR ''-''] else [])
      in sg @ replicate (w - length sg - length ds) (CHR ''0'') @ ds)"

definition snprintf :: "nat \<Rightarrow> string \<Rightarrow> string" where
  "snprintf sz s = take (sz - 1) s"

fun dec_val :: "string \<Rightarrow> nat" where
  "dec_val s = foldl (\<lambda>a c. 10 * a + (of_char c - 48)) 0 s"

declare dec_val.simps [simp del]

section \<open>Lemmas\<close>

lemma of_char_digit [simp]: "n < 10 \<Longrightarrow> of_char (digit n) = (48 + n :: nat)"
  by (simp add: digit_def)

lemma dec_val_snoc: "dec_val (s @ [c]) = 10 * dec_val s + (of_char c - 48)"
  by (simp add: dec_val.simps)

lemma dec_nat_small: "n < 10 \<Longrightarrow> dec_nat n = [digit n]"
  by (simp add: dec_nat.simps)

lemma dec_nat_big: "10 \<le> n \<Longrightarrow> dec_nat n = dec_nat (n div 10) @ [digit (n mod 10)]"
  by (subst dec_nat.simps) simp

lemma dec_val_dec_nat [simp]: "dec_val (dec_nat n) = n"
proof (induction n rule: dec_nat.induct)
  case (1 n)
  show ?case
  proof (cases "n < 10")
    case True
    then show ?thesis by (simp add: dec_nat_small dec_val.simps)
  next
    case False
    then show ?thesis using 1 by (simp add: dec_nat_big dec_val_snoc)
  qed
qed

lemma dec_nat_inj: "dec_nat m = dec_nat n \<Longrightarrow> m = n"
  by (metis dec_val_dec_nat)

lemma dec_nat_Nil [simp]: "dec_nat n \<noteq> []"
  by (subst dec_nat.simps) simp

lemma digit_mem: "d < 10 \<Longrightarrow> digit d \<in> set ''0123456789''"
proof -
  have "\<forall>d \<in> set [0..<10]. digit d \<in> set ''0123456789''" by code_simp
  then show "d < 10 \<Longrightarrow> digit d \<in> set ''0123456789''" by (metis atLeastLessThan_iff set_upt le0)
qed

lemma dec_nat_digits: "c \<in> set (dec_nat n) \<Longrightarrow> c \<in> set ''0123456789''"
proof (induction n rule: dec_nat.induct)
  case (1 n)
  show ?case
  proof (cases "n < 10")
    case True
    then show ?thesis using 1 digit_mem [of n] by (simp add: dec_nat_small)
  next
    case False
    then show ?thesis using 1 digit_mem [of "n mod 10"] by (auto simp: dec_nat_big)
  qed
qed

lemma length_dec_nat: "n < 10 ^ k \<Longrightarrow> 0 < k \<Longrightarrow> length (dec_nat n) \<le> k"
proof (induction n arbitrary: k rule: dec_nat.induct)
  case (1 n)
  show ?case
  proof (cases "n < 10")
    case True
    then show ?thesis using 1 by (simp add: dec_nat_small)
  next
    case False
    then obtain k' where k: "k = Suc k'" "0 < k'"
      using 1(2,3) by (cases k; cases "k - 1") auto
    then have "n div 10 < 10 ^ k'" using 1(2) by auto
    then show ?thesis using 1(1) [OF False, of k'] False k by (simp add: dec_nat_big)
  qed
qed

lemma length_dec_nat_ge: "10 ^ k \<le> n \<Longrightarrow> k < length (dec_nat n)"
proof (induction k arbitrary: n)
  case 0
  then show ?case by (cases "dec_nat n") auto
next
  case (Suc k)
  have "1 \<le> (10 :: nat) ^ k" by simp
  then have "10 \<le> n" using Suc.prems by (simp add: le_trans [rotated])
  moreover have "10 ^ k \<le> n div 10" using Suc.prems by (simp add: less_eq_div_iff_mult_less_eq)
  ultimately show ?case using Suc.IH [of "n div 10"] by (simp add: dec_nat_big)
qed

lemma length_fmt_0d: "0 \<le> x \<Longrightarrow> x < 10 ^ w \<Longrightarrow> 0 < w \<Longrightarrow> length (fmt_0d w x) = w"
  using length_dec_nat [of "nat x" w] by (simp add: fmt_0d_def Let_def nat_less_iff)

lemma dec_val_leading_zeros: "dec_val (replicate k (CHR ''0'') @ s) = dec_val s"
  by (induction k) (auto simp: dec_val.simps of_char_def)

lemma dec_val_fmt_0d [simp]: "0 \<le> x \<Longrightarrow> int (dec_val (fmt_0d w x)) = x"
  by (simp add: fmt_0d_def Let_def dec_val_leading_zeros)

end
