(* ===== verification/Date.thy ===== *)
theory Date
  imports Cformat
begin

text \<open>
  The calendar of Date.cc and Date.h: conversion between a civil date and a Julian day number, in
  C++ \<^verbatim>\<open>int\<close> arithmetic with truncating division (\<open>sdiv\<close>, \<open>smod\<close>). The integers are unbounded here;
  \<open>calendar_no_overflow\<close> shows that in a range far wider than the documented years 1900 to 2500 no
  intermediate value of either conversion leaves 32 bits.
\<close>

record YearMonthDay =
  year :: int
  month :: int
  day :: int

definition get_julian_day_number :: "int \<Rightarrow> int \<Rightarrow> int \<Rightarrow> int" where
  "get_julian_day_number yr mo dy =
     (let a = (14 - mo) sdiv 12;
          y = yr + 4800 - a;
          m = mo + 12 * a - 3
      in dy + (153 * m + 2) sdiv 5 + y * 365 + y sdiv 4 - y sdiv 100 + y sdiv 400 - 32045)"

definition get_year_month_day :: "int \<Rightarrow> YearMonthDay" where
  "get_year_month_day julianDayNumber =
     (let a = julianDayNumber + 32044;
          b = (4 * a + 3) sdiv 146097;
          c = a - (b * 146097) sdiv 4;
          d = (4 * c + 3) sdiv 1461;
          e = c - (1461 * d) sdiv 4;
          m = (5 * e + 2) sdiv 153
      in \<lparr> year = b * 100 + d - 4800 + m sdiv 10,
           month = m + 3 - 12 * (m sdiv 10),
           day = e - (153 * m + 2) sdiv 5 + 1 \<rparr>)"

text \<open>The value of every arithmetic subexpression of the two functions, in the order they are computed.\<close>

definition julian_day_steps :: "int \<Rightarrow> int \<Rightarrow> int \<Rightarrow> int list" where
  "julian_day_steps yr mo dy =
     (let a = (14 - mo) sdiv 12;
          y = yr + 4800 - a;
          m = mo + 12 * a - 3;
          s1 = dy + (153 * m + 2) sdiv 5;
          s2 = s1 + y * 365;
          s3 = s2 + y sdiv 4;
          s4 = s3 - y sdiv 100;
          s5 = s4 + y sdiv 400
      in [14 - mo, a, yr + 4800, y, 12 * a, mo + 12 * a, m, 153 * m, 153 * m + 2, (153 * m + 2) sdiv 5, s1,
          y * 365, s2, y sdiv 4, s3, y sdiv 100, s4, y sdiv 400, s5, s5 - 32045])"

definition year_month_day_steps :: "int \<Rightarrow> int list" where
  "year_month_day_steps julianDayNumber =
     (let a = julianDayNumber + 32044;
          b = (4 * a + 3) sdiv 146097;
          c = a - (b * 146097) sdiv 4;
          d = (4 * c + 3) sdiv 1461;
          e = c - (1461 * d) sdiv 4;
          m = (5 * e + 2) sdiv 153
      in [a, 4 * a, 4 * a + 3, b, b * 146097, (b * 146097) sdiv 4, c, 4 * c, 4 * c + 3, d, 1461 * d,
          (1461 * d) sdiv 4, e, 5 * e, 5 * e + 2, m, 153 * m, 153 * m + 2, (153 * m + 2) sdiv 5,
          e - (153 * m + 2) sdiv 5, e - (153 * m + 2) sdiv 5 + 1, m + 3, m sdiv 10, 12 * (m sdiv 10),
          m + 3 - 12 * (m sdiv 10), b * 100, b * 100 + d, b * 100 + d - 4800, b * 100 + d - 4800 + m sdiv 10])"

definition kDaysPerWeek :: int where "kDaysPerWeek = 7"

definition kJulianDayOf1970_01_01 :: int where
  "kJulianDayOf1970_01_01 = get_julian_day_number 1970 1 1"

text \<open>The class \<^verbatim>\<open>Date\<close> is its Julian day number; \<open>Date_default\<close> is the invalid date.\<close>

record date =
  m_julian_day_number :: int

definition Date_default :: date where "Date_default = \<lparr> m_julian_day_number = 0 \<rparr>"

definition Date_ymd :: "int \<Rightarrow> int \<Rightarrow> int \<Rightarrow> date" where
  "Date_ymd y m d = \<lparr> m_julian_day_number = get_julian_day_number y m d \<rparr>"

definition Date_julian :: "int \<Rightarrow> date" where
  "Date_julian julianDayNum = \<lparr> m_julian_day_number = julianDayNum \<rparr>"

definition date_valid :: "date \<Rightarrow> bool" where
  "date_valid dt \<longleftrightarrow> m_julian_day_number dt > 0"

definition date_swap :: "date \<Rightarrow> date \<Rightarrow> date \<times> date" where
  "date_swap x y = (x\<lparr>m_julian_day_number := m_julian_day_number y\<rparr>,
                    y\<lparr>m_julian_day_number := m_julian_day_number x\<rparr>)"

definition year_month_day :: "date \<Rightarrow> YearMonthDay" where
  "year_month_day dt = get_year_month_day (m_julian_day_number dt)"

definition date_year :: "date \<Rightarrow> int" where "date_year dt = year (year_month_day dt)"
definition date_month :: "date \<Rightarrow> int" where "date_month dt = month (year_month_day dt)"
definition date_day :: "date \<Rightarrow> int" where "date_day dt = day (year_month_day dt)"

definition week_day :: "date \<Rightarrow> int" where
  "week_day dt = (m_julian_day_number dt + 1) smod kDaysPerWeek"

definition toIsoString :: "date \<Rightarrow> string" where
  "toIsoString dt =
     (let ymd = year_month_day dt
      in snprintf 32 (fmt_d 4 (year ymd) @ ''-'' @ fmt_0d 2 (month ymd) @ ''-'' @ fmt_0d 2 (day ymd)))"

definition date_less :: "date \<Rightarrow> date \<Rightarrow> bool" where
  "date_less x y \<longleftrightarrow> m_julian_day_number x < m_julian_day_number y"

definition date_eq :: "date \<Rightarrow> date \<Rightarrow> bool" where
  "date_eq x y \<longleftrightarrow> m_julian_day_number x = m_julian_day_number y"

section \<open>The civil calendar\<close>

text \<open>The specification: leap years, month lengths and the day after a date of the proleptic Gregorian
  calendar.\<close>

definition leap :: "int \<Rightarrow> bool" where
  "leap y \<longleftrightarrow> y mod 4 = 0 \<and> (y mod 100 \<noteq> 0 \<or> y mod 400 = 0)"

definition month_days :: "int \<Rightarrow> int \<Rightarrow> int" where
  "month_days y m = (if m = 2 then if leap y then 29 else 28
                     else if m \<in> {4, 6, 9, 11} then 30 else 31)"

definition civil :: "YearMonthDay \<Rightarrow> bool" where
  "civil d \<longleftrightarrow> 1 \<le> month d \<and> month d \<le> 12 \<and> 1 \<le> day d \<and> day d \<le> month_days (year d) (month d)"

definition next_civil :: "YearMonthDay \<Rightarrow> YearMonthDay" where
  "next_civil d =
     (if day d < month_days (year d) (month d) then d\<lparr>day := day d + 1\<rparr>
      else if month d < 12 then d\<lparr>month := month d + 1, day := 1\<rparr>
      else \<lparr>year = year d + 1, month = 1, day = 1\<rparr>)"

section \<open>The March-based day count\<close>

text \<open>
  Both conversions count years from March: a day is century \<open>b\<close>, year \<open>d\<close> of the century and day \<open>e\<close>
  of the year; day 365 exists only in the years that end with a 29 February.
\<close>

definition march_ok :: "int \<Rightarrow> int \<Rightarrow> int \<Rightarrow> bool" where
  "march_ok b d e \<longleftrightarrow> 0 \<le> b \<and> 0 \<le> d \<and> d < 100 \<and> 0 \<le> e \<and> e \<le> 365 \<and>
     (e = 365 \<longrightarrow> d mod 4 = 3 \<and> (d = 99 \<longrightarrow> b mod 4 = 3))"

definition march_days :: "int \<Rightarrow> int \<Rightarrow> int \<Rightarrow> int" where
  "march_days b d e = e + 365 * d + d div 4 + 36524 * b + b div 4"

definition month_start :: "int \<Rightarrow> int" where
  "month_start m = (153 * m + 2) div 5"

lemma mod4E:
  obtains q r where "(b :: int) = 4 * q + r" and "b div 4 = q" and "b mod 4 = r" and "0 \<le> r" and "r \<le> 3"
proof (rule that)
  show "b = 4 * (b div 4) + b mod 4" "b div 4 = b div 4" "b mod 4 = b mod 4" by simp_all
  show "0 \<le> b mod 4" "b mod 4 \<le> 3" by presburger+
qed

lemma div_bounds: "0 < k \<Longrightarrow> k * (n div k) \<le> n \<and> n < k * (n div k) + (k :: int)"
  using mult_div_mod_eq [of k n] pos_mod_bound [of k n] pos_mod_sign [of k n] by linarith

lemma march_century:
  assumes "march_ok b d e"
  shows "(4 * march_days b d e + 3) div 146097 = b"
proof (rule int_div_eqI)
  obtain p r where d: "d = 4 * p + r" "d div 4 = p" "d mod 4 = r" "0 \<le> r" "r \<le> 3" by (rule mod4E)
  obtain q t where b: "b = 4 * q + t" "b div 4 = q" "b mod 4 = t" "0 \<le> t" "t \<le> 3" by (rule mod4E)
  have e: "e \<le> 364 \<or> e = 365 \<and> r = 3 \<and> d \<le> 98 \<or> e = 365 \<and> d = 99 \<and> t = 3"
    and r: "0 \<le> d" "d \<le> 99" "0 \<le> e"
    using assms d(3) b(3) unfolding march_ok_def by auto
  have days: "4 * march_days b d e = 4 * e + 1461 * d - r + 146097 * b - t"
    unfolding march_days_def b(2) d(2) using b(1) d(1) by simp
  show "146097 * b \<le> 4 * march_days b d e + 3"
  proof -
    have "0 \<le> p" using r(1) d(2) by auto
    then show ?thesis using days r b(5) d(1,4) by simp
  qed
  show "4 * march_days b d e + 3 < 146097 * b + 146097"
  proof (cases "d = 99")
    case True
    then have "r = 3" using d(3) by simp
    with True show ?thesis using days e r b(4) by auto
  next
    case False
    then show ?thesis using days e r b(4) d(4) by auto
  qed
qed

lemma march_year:
  assumes "march_ok b d e"
  shows "(4 * (e + 365 * d + d div 4) + 3) div 1461 = d"
proof (rule int_div_eqI)
  obtain p r where d: "d = 4 * p + r" "d div 4 = p" "d mod 4 = r" "0 \<le> r" "r \<le> 3" by (rule mod4E)
  have e: "e \<le> 364 \<or> e = 365 \<and> r = 3" "0 \<le> e"
    using assms d(3) unfolding march_ok_def by auto
  show "1461 * d \<le> 4 * (e + 365 * d + d div 4) + 3"
    using e d(1,4,5) unfolding d(2) by presburger
  show "4 * (e + 365 * d + d div 4) + 3 < 1461 * d + 1461"
    using e d(1,4,5) unfolding d(2) by presburger
qed

lemma century_days: "(b * 146097) div 4 = 36524 * b + b div (4 :: int)"
proof -
  have "b * 146097 = b + 4 * (36524 * b)" by simp
  then show ?thesis by (simp only: div_mult_self2)
qed

lemma year_days: "(1461 * d) div 4 = 365 * d + d div (4 :: int)"
proof -
  have "1461 * d = d + 4 * (365 * d)" by simp
  then show ?thesis by (simp only: div_mult_self2)
qed

lemma march_days_nonneg: "march_ok b d e \<Longrightarrow> 0 \<le> march_days b d e"
  by (auto simp: march_ok_def march_days_def)

lemma get_year_month_day_march:
  assumes "march_ok b d e" and "m = (5 * e + 2) div 153"
  shows "get_year_month_day (march_days b d e - 32044) =
         \<lparr> year = b * 100 + d - 4800 + m div 10, month = m + 3 - 12 * (m div 10),
           day = e - month_start m + 1 \<rparr>"
proof -
  have nn: "0 \<le> b" "0 \<le> d" "0 \<le> e" "0 \<le> m" "0 \<le> march_days b d e"
    using assms march_days_nonneg by (auto simp: march_ok_def)
  have b: "(4 * march_days b d e + 3) sdiv 146097 = b"
    using march_century [OF assms(1)] nn by (simp add: sdiv_nonneg)
  have c: "march_days b d e - (b * 146097) sdiv 4 = e + 365 * d + d div 4"
    using nn by (simp add: sdiv_nonneg century_days march_days_def)
  have d: "(4 * (e + 365 * d + d div 4) + 3) sdiv 1461 = d"
    using march_year [OF assms(1)] nn by (simp add: sdiv_nonneg)
  have e: "e + 365 * d + d div 4 - (1461 * d) sdiv 4 = e"
    using nn by (simp add: sdiv_nonneg year_days)
  have m: "(5 * e + 2) sdiv 153 = m"
    using nn assms(2) by (simp add: sdiv_nonneg)
  show ?thesis
    unfolding get_year_month_day_def Let_def diff_add_cancel b c d e m
    using nn by (simp add: sdiv_nonneg month_start_def)
qed

lemma get_julian_day_number_march:
  assumes "1 \<le> mo" and "mo \<le> 12" and "a = (if mo \<le> 2 then 1 else 0)"
    and "yr + 4800 - a = 100 * b + d" and "0 \<le> b" and "0 \<le> d" and "d < 100"
  shows "get_julian_day_number yr mo dy = march_days b d (dy - 1 + month_start (mo + 12 * a - 3)) - 32044"
proof -
  have a: "(14 - mo) sdiv 12 = a"
    using assms(1-3) by (auto simp: sdiv_nonneg intro!: int_div_eqI)
  obtain p r where p: "d = 4 * p + r" "d div 4 = p" "0 \<le> r" "r \<le> 3" by (rule mod4E)
  obtain q t where q: "b = 4 * q + t" "b div 4 = q" "0 \<le> t" "t \<le> 3" by (rule mod4E)
  have y: "(100 * b + d) div 4 = 25 * b + d div 4" "(100 * b + d) div 100 = b" "(100 * b + d) div 400 = b div 4"
    using assms(5-7) p q by (auto intro!: int_div_eqI)
  have "yr + 4800 - (14 - mo) sdiv 12 = 100 * b + d" using a assms(4) by simp
  moreover have "0 \<le> mo + 12 * a - 3" using assms(1-3) by auto
  ultimately show ?thesis
    using assms(5,6) a
    by (simp add: get_julian_day_number_def Let_def sdiv_nonneg y march_days_def month_start_def)
qed

lemma march_ok_exists:
  assumes "0 \<le> A"
  obtains b d e where "march_ok b d e" and "A = march_days b d e"
proof -
  define b where "b = (4 * A + 3) div 146097"
  define c where "c = A - (36524 * b + b div 4)"
  define d where "d = (4 * c + 3) div 1461"
  define e where "e = c - (365 * d + d div 4)"
  have b: "0 \<le> b" "146097 * b \<le> 4 * A + 3" "4 * A + 3 < 146097 * b + 146097"
    using assms div_bounds [of 146097 "4 * A + 3"] unfolding b_def by (simp_all add: pos_imp_zdiv_nonneg_iff)
  obtain q t where q: "b = 4 * q + t" "b div 4 = q" "b mod 4 = t" "0 \<le> t" "t \<le> 3" by (rule mod4E)
  have c4: "4 * c = 4 * A - 146097 * b + t"
    unfolding c_def q(2) using q(1) by simp
  then have c: "0 \<le> c" "4 * c \<le> 146093 + t"
    using b q(4,5) by simp_all
  have d: "0 \<le> d" "1461 * d \<le> 4 * c + 3" "4 * c + 3 < 1461 * d + 1461"
    using c div_bounds [of 1461 "4 * c + 3"] unfolding d_def by (simp_all add: pos_imp_zdiv_nonneg_iff)
  obtain p r where p: "d = 4 * p + r" "d div 4 = p" "d mod 4 = r" "0 \<le> r" "r \<le> 3" by (rule mod4E)
  have "d < 100" using c d q(5) by linarith
  moreover have e: "0 \<le> e" "e \<le> 365" "e = 365 \<Longrightarrow> 3 \<le> r" "e = 365 \<Longrightarrow> d = 99 \<Longrightarrow> 3 \<le> t"
  proof -
    have e4: "4 * e = 4 * c - 1461 * d + r"
      unfolding e_def p(2) using p(1) by simp
    show "0 \<le> e" "e \<le> 365" "e = 365 \<Longrightarrow> 3 \<le> r" "e = 365 \<Longrightarrow> d = 99 \<Longrightarrow> 3 \<le> t"
      using e4 c d p(4,5) by simp_all
  qed
  moreover have "e = 365 \<longrightarrow> d mod 4 = 3 \<and> (d = 99 \<longrightarrow> b mod 4 = 3)"
    using e(3,4) p(3,5) q(3,5) by auto
  moreover have "A = march_days b d e"
    by (simp add: e_def c_def march_days_def)
  ultimately show ?thesis
    using that b d by (simp add: march_ok_def)
qed

section \<open>Dates and days\<close>

lemma leap_march:
  assumes "0 \<le> d" and "d < 100"
  shows "leap (100 * b + d - 4799) \<longleftrightarrow> d mod 4 = 3 \<and> (d = 99 \<longrightarrow> b mod 4 = 3)"
proof -
  have "100 * b + d - 4799 = (d + 1) + 4 * (25 * b - 1200)"
    "100 * b + d - 4799 = (d + 1) + 100 * (b - 48)" by simp_all
  then have m: "(100 * b + d - 4799) mod 4 = (d + 1) mod 4" "(100 * b + d - 4799) mod 100 = (d + 1) mod 100"
    by (metis mod_mult_self2)+
  have "(100 * (b - 47)) mod 400 = 100 * ((b - 47) mod 4)"
    using mult_mod_right [of 100 "b - 47" 4] by simp
  then have c: "d = 99 \<Longrightarrow> (100 * b + d - 4799) mod 400 = 100 * ((b + 1) mod 4)"
    using mod_mult_self2 [of "b + 1" 4 "- 12"] by simp
  have four: "(d + 1) mod 4 = 0 \<longleftrightarrow> d mod 4 = 3" "(b + 1) mod 4 = 0 \<longleftrightarrow> b mod 4 = 3"
    by presburger+
  show ?thesis
  proof (cases "d = 99")
    case True
    then show ?thesis using m c four by (simp add: leap_def)
  next
    case False
    then have "(d + 1) mod 100 = d + 1" using assms by simp
    then show ?thesis using m four assms False by (simp add: leap_def)
  qed
qed

lemma month_table:
  assumes "1 \<le> mo" and "mo \<le> 12" and a: "a = (if mo \<le> 2 then 1 else 0)" and m: "m = mo + 12 * a - 3"
  shows "153 * m \<le> 5 * month_start m + 2 \<and> 5 * (month_start m + month_days yr mo) \<le> 153 * m + 155 \<and>
         0 \<le> month_start m \<and> month_start m + month_days yr mo \<le> 366 \<and>
         (month_start m + month_days yr mo = 366 \<longrightarrow> mo = 2 \<and> leap yr)"
proof -
  have "mo = 1 \<or> mo = 2 \<or> mo = 3 \<or> mo = 4 \<or> mo = 5 \<or> mo = 6 \<or> mo = 7 \<or> mo = 8 \<or> mo = 9 \<or>
        mo = 10 \<or> mo = 11 \<or> mo = 12"
    using assms(1,2) by presburger
  then show ?thesis
    unfolding a m by (elim disjE) (simp_all add: month_start_def month_days_def)
qed

lemma march_month:
  assumes "1 \<le> mo" and "mo \<le> 12" and "1 \<le> dy" and "dy \<le> month_days yr mo"
    and a: "a = (if mo \<le> 2 then 1 else 0)" and e: "e = dy - 1 + month_start (mo + 12 * a - 3)"
  shows "(5 * e + 2) div 153 = mo + 12 * a - 3" and "0 \<le> e" and "e \<le> 365"
    and "e = 365 \<Longrightarrow> mo = 2 \<and> leap yr"
proof -
  define m k L where "m = mo + 12 * a - 3" and "k = month_start m" and "L = month_days yr mo"
  have t: "153 * m \<le> 5 * k + 2" "5 * (k + L) \<le> 153 * m + 155" "0 \<le> k" "k + L \<le> 366"
    "k + L = 366 \<longrightarrow> mo = 2 \<and> leap yr"
    using month_table [OF assms(1,2) a m_def, of yr] by (simp_all add: k_def L_def)
  have e': "e = dy - 1 + k" and dy: "1 \<le> dy" "dy \<le> L"
    using assms(3,4) by (simp_all add: e k_def L_def m_def)
  show "(5 * e + 2) div 153 = mo + 12 * a - 3"
    unfolding m_def [symmetric] using t(1,2) dy by (intro int_div_eqI) (simp_all add: e')
  show "0 \<le> e" "e \<le> 365" "e = 365 \<Longrightarrow> mo = 2 \<and> leap yr"
    using t(3-5) dy by (simp_all add: e')
qed

lemma century_split:
  assumes "0 \<le> (y :: int)"
  obtains b d where "y = 100 * b + d" and "0 \<le> b" and "0 \<le> d" and "d < 100"
proof (rule that)
  show "y = 100 * (y div 100) + y mod 100" "0 \<le> y mod 100" "y mod 100 < 100" by simp_all
  show "0 \<le> y div 100" using assms by (simp add: pos_imp_zdiv_nonneg_iff)
qed

lemma julian_of_civil:
  assumes "civil ymd" and "- 4799 \<le> year ymd"
  shows "get_year_month_day (get_julian_day_number (year ymd) (month ymd) (day ymd)) = ymd"
    and "- 32044 \<le> get_julian_day_number (year ymd) (month ymd) (day ymd)"
proof -
  let ?mo = "month ymd" and ?dy = "day ymd"
  define a :: int where "a = (if ?mo \<le> 2 then 1 else 0)"
  have mo: "1 \<le> ?mo" "?mo \<le> 12" and dy: "1 \<le> ?dy" "?dy \<le> month_days (year ymd) ?mo"
    using assms(1) by (auto simp: civil_def)
  have "0 \<le> year ymd + 4800 - a" using assms(2) by (simp add: a_def)
  then obtain b d where y: "year ymd + 4800 - a = 100 * b + d" and bd: "0 \<le> b" "0 \<le> d" "d < 100"
    by (rule century_split)
  define e where "e = ?dy - 1 + month_start (?mo + 12 * a - 3)"
  note e = march_month [OF mo dy a_def e_def]
  have ok: "march_ok b d e"
  proof -
    have "month ymd = 2 \<Longrightarrow> 100 * b + d - 4799 = year ymd"
      using y by (simp add: a_def)
    then have "e = 365 \<Longrightarrow> leap (100 * b + d - 4799)"
      using e(4) by auto
    then show ?thesis
      using e(2,3) bd leap_march [OF bd(2,3)] by (auto simp: march_ok_def)
  qed
  have j: "get_julian_day_number (year ymd) ?mo ?dy = march_days b d e - 32044"
    unfolding e_def by (rule get_julian_day_number_march [OF mo a_def y bd])
  then show "- 32044 \<le> get_julian_day_number (year ymd) ?mo ?dy"
    using march_days_nonneg [OF ok] by simp
  have m10: "(?mo + 12 * a - 3) div 10 = a"
    using mo by (intro int_div_eqI) (auto simp: a_def)
  have "year ymd = b * 100 + d - 4800 + a" using y by simp
  then show "get_year_month_day (get_julian_day_number (year ymd) ?mo ?dy) = ymd"
    unfolding j get_year_month_day_march [OF ok e(1) [symmetric]] m10 by (simp add: e_def)
qed

lemma month_of_day:
  assumes "153 * m \<le> 5 * e + 2" and "5 * e + 2 < 153 * m + 153" and "0 \<le> e" and "e \<le> 365"
    and "e \<le> 364 \<or> leap (y - 4799)" and a: "a = (if 10 \<le> m then 1 else (0 :: int))"
  shows "m div 10 = a \<and> 0 \<le> m \<and> m \<le> 11 \<and> 1 \<le> e - month_start m + 1 \<and>
         e - month_start m + 1 \<le> month_days (y - 4800 + a) (m + 3 - 12 * a)"
proof -
  have "m = 0 \<or> m = 1 \<or> m = 2 \<or> m = 3 \<or> m = 4 \<or> m = 5 \<or> m = 6 \<or> m = 7 \<or> m = 8 \<or> m = 9 \<or> m = 10 \<or> m = 11"
  proof -
    have "0 \<le> m" "m \<le> 11" using assms(1-4) by linarith+
    then show ?thesis by presburger
  qed
  then show ?thesis
    unfolding a using assms(1-5) by (elim disjE) (simp_all add: month_start_def month_days_def)
qed

lemma civil_of_julian:
  assumes "- 32044 \<le> j"
  shows "civil (get_year_month_day j)"
    and "get_julian_day_number (year (get_year_month_day j)) (month (get_year_month_day j))
           (day (get_year_month_day j)) = j"
    and "- 31738 \<le> j \<Longrightarrow> - 4799 \<le> year (get_year_month_day j)"
proof -
  have "0 \<le> j + 32044" using assms by simp
  then obtain b d e where ok: "march_ok b d e" and j: "j = march_days b d e - 32044"
    by (rule march_ok_exists) auto
  have bd: "0 \<le> b" "0 \<le> d" "d < 100" "0 \<le> e" "e \<le> 365" and e365: "e \<le> 364 \<or> leap (100 * b + d - 4799)"
    using ok leap_march by (auto simp: march_ok_def)
  define m where "m = (5 * e + 2) div 153"
  have mb: "153 * m \<le> 5 * e + 2" "5 * e + 2 < 153 * m + 153"
    using div_bounds [of 153 "5 * e + 2"] by (simp_all add: m_def)
  define a :: int where "a = (if 10 \<le> m then 1 else 0)"
  have m: "m div 10 = a" "0 \<le> m" "m \<le> 11"
    "1 \<le> e - month_start m + 1" "e - month_start m + 1 \<le> month_days (100 * b + d - 4800 + a) (m + 3 - 12 * a)"
    using month_of_day [OF mb bd(4,5) e365 a_def] by simp_all
  have g: "get_year_month_day j =
      \<lparr> year = b * 100 + d - 4800 + a, month = m + 3 - 12 * a, day = e - month_start m + 1 \<rparr>"
    using get_year_month_day_march [OF ok m_def] m(1) by (simp add: j)
  show "civil (get_year_month_day j)"
    unfolding g civil_def using m(2-5) by (simp add: a_def mult.commute)
  show "- 4799 \<le> year (get_year_month_day j)" if "- 31738 \<le> j"
  proof (cases "b = 0 \<and> d = 0")
    case True
    then have "306 \<le> e" using that by (simp add: j march_days_def)
    then have "10 \<le> m" by (simp add: m_def)
    then show ?thesis using True by (simp add: g a_def)
  next
    case False
    then show ?thesis unfolding g using bd by (auto simp: a_def)
  qed
  show "get_julian_day_number (year (get_year_month_day j)) (month (get_year_month_day j))
          (day (get_year_month_day j)) = j"
    unfolding g using get_julian_day_number_march [of "m + 3 - 12 * a" a "b * 100 + d - 4800 + a" b d "e - month_start m + 1"]
      bd m(2,3) by (simp add: a_def j)
qed

definition year_start :: "int \<Rightarrow> int" where
  "year_start y = 365 * y + y div 4 - y div 100 + y div 400"

lemma int_div_succ:
  assumes "0 < (k :: int)"
  shows "(y + 1) div k = y div k + (if (y + 1) mod k = 0 then 1 else 0)"
proof -
  define q r where "q = y div k" and "r = y mod k"
  have y: "y = k * q + r" "0 \<le> r" "r < k"
    using assms by (simp_all add: q_def r_def)
  show ?thesis
  proof (cases "r = k - 1")
    case True
    then have e: "y + 1 = k * (q + 1)" using y(1) by (simp add: algebra_simps)
    then have "(y + 1) mod k = 0" by simp
    moreover have "(y + 1) div k = q + 1" using e assms by simp
    ultimately show ?thesis by (simp add: q_def)
  next
    case False
    then have r: "0 < r + 1" "r + 1 < k" using y by auto
    have e: "y + 1 = k * q + (r + 1)" using y(1) by simp
    have "(y + 1) div k = q" "(y + 1) mod k = r + 1"
      using r int_div_pos_eq [OF e] int_mod_pos_eq [OF e] by simp_all
    then show ?thesis using r by (simp add: q_def)
  qed
qed

lemma leap_count:
  assumes "b4 = a4 + (if p4 then 1 else 0)" and "b100 = a100 + (if p100 then 1 else 0)"
    and "b400 = a400 + (if p400 then 1 else 0)" and "p400 \<Longrightarrow> p100" and "p100 \<Longrightarrow> p4"
  shows "365 * (y + 1) + b4 - b100 + b400 =
         365 * y + a4 - a100 + a400 + (if p4 \<and> (\<not> p100 \<or> p400) then 366 else 365 :: int)"
  using assms by (cases p4; cases p100; cases p400) simp_all

lemma year_start_succ: "year_start (y + 1) = year_start y + (if leap (y + 1) then 366 else 365)"
  unfolding year_start_def leap_def
proof (rule leap_count)
  show "(y + 1) div 4 = y div 4 + (if (y + 1) mod 4 = 0 then 1 else 0)"
    "(y + 1) div 100 = y div 100 + (if (y + 1) mod 100 = 0 then 1 else 0)"
    "(y + 1) div 400 = y div 400 + (if (y + 1) mod 400 = 0 then 1 else 0)"
    by (rule int_div_succ, simp)+
  show "(y + 1) mod 100 = 0" if "(y + 1) mod 400 = 0"
    using that dvd_trans [of 100 400 "y + 1"] unfolding mod_eq_0_iff_dvd by simp
  show "(y + 1) mod 4 = 0" if "(y + 1) mod 100 = 0"
    using that dvd_trans [of 4 100 "y + 1"] unfolding mod_eq_0_iff_dvd by simp
qed

lemma get_julian_day_number_eq:
  assumes "1 \<le> mo" and "mo \<le> 12" and "a = (if mo \<le> 2 then 1 else 0)" and "0 \<le> yr + 4800 - a"
  shows "get_julian_day_number yr mo dy =
         dy + month_start (mo + 12 * a - 3) + year_start (yr + 4800 - a) - 32045"
proof -
  have a: "(14 - mo) sdiv 12 = a"
    using assms(1-3) by (auto simp: sdiv_nonneg intro!: int_div_eqI)
  moreover have "0 \<le> mo + 12 * a - 3" using assms(1-3) by auto
  ultimately show ?thesis
    using assms(4) by (simp add: get_julian_day_number_def Let_def sdiv_nonneg year_start_def month_start_def)
qed

lemma leap_shift: "leap (y + 4800) = leap y"
  using mod_mult_self2 [of y 4 1200] mod_mult_self2 [of y 100 48] mod_mult_self2 [of y 400 12]
  unfolding leap_def by simp

lemma get_julian_day_number_next:
  assumes "civil ymd" and "- 4799 \<le> year ymd"
  shows "get_julian_day_number (year (next_civil ymd)) (month (next_civil ymd)) (day (next_civil ymd)) =
         get_julian_day_number (year ymd) (month ymd) (day ymd) + 1"
proof -
  have mo: "1 \<le> month ymd" "month ymd \<le> 12" and dy: "day ymd \<le> month_days (year ymd) (month ymd)"
    using assms(1) by (auto simp: civil_def)
  have mo': "month ymd \<in> {1, 2, 3, 4, 5, 6, 7, 8, 9, 10, 11, 12}"
    using mo unfolding insert_iff empty_iff by presburger
  have feb: "year_start (year ymd + 4800) = year_start (year ymd + 4799) + (if leap (year ymd) then 366 else 365)"
    using year_start_succ [of "year ymd + 4799"] leap_shift [of "year ymd"] by (simp add: add.commute)
  note eq = get_julian_day_number_eq [OF _ _ refl]
  consider (day) "day ymd < month_days (year ymd) (month ymd)"
    | (month) "day ymd = month_days (year ymd) (month ymd)" "month ymd < 12"
    | (year) "day ymd = 31" "month ymd = 12"
    using dy mo by (cases "month ymd < 12") (force simp: month_days_def)+
  then show ?thesis
  proof cases
    case day
    then show ?thesis using mo assms(2) by (simp add: next_civil_def eq)
  next
    case month
    then show ?thesis
      using mo' feb assms(2)
      by (auto simp: next_civil_def eq month_days_def month_start_def add.commute)
  next
    case year
    then show ?thesis
      using assms(2) by (simp add: next_civil_def eq month_start_def month_days_def add.commute)
  qed
qed

lemma civil_next: "civil ymd \<Longrightarrow> civil (next_civil ymd)"
  by (auto simp: civil_def next_civil_def month_days_def split: if_splits)

section \<open>Properties\<close>

text \<open>
  C33: The two calendar conversions are inverse to each other. Every civil date of the proleptic
  Gregorian calendar (months of the right length, leap years included) from the year -4799 on comes
  back from its Julian day number, and every day number from -32044 on is that of a civil date.
\<close>

theorem julian_civil_roundtrip:
  assumes "civil ymd" and "- 4799 \<le> year ymd" and "- 32044 \<le> j"
  shows "get_year_month_day (get_julian_day_number (year ymd) (month ymd) (day ymd)) = ymd \<and>
         civil (get_year_month_day j) \<and>
         get_julian_day_number (year (get_year_month_day j)) (month (get_year_month_day j))
           (day (get_year_month_day j)) = j"
  using julian_of_civil(1) [OF assms(1,2)] civil_of_julian(1,2) [OF assms(3)] by simp_all

theorem julian_civil_roundtrip_witness:
  "get_year_month_day (get_julian_day_number 2024 2 29) = \<lparr>year = 2024, month = 2, day = 29\<rparr> \<and>
   civil (get_year_month_day 2460370)"
  using julian_civil_roundtrip [of "\<lparr>year = 2024, month = 2, day = 29\<rparr>" 2460370]
  by (simp add: civil_def month_days_def leap_def)

text \<open>
  The calendar is the right one and not only an invertible one. Day 2440588 is Thursday
  1970-01-01, and from any valid day number to the next the civil date advances to the following
  calendar day and the weekday to the following weekday, so every date and weekday \<^verbatim>\<open>Date\<close> reports is
  the true one.
\<close>

theorem calendar_advances:
  assumes "0 \<le> j"
  shows "get_year_month_day (j + 1) = next_civil (get_year_month_day j) \<and>
         week_day (Date_julian (j + 1)) = (week_day (Date_julian j) + 1) mod kDaysPerWeek \<and>
         kJulianDayOf1970_01_01 = 2440588 \<and>
         week_day (Date_ymd 1970 1 1) = 4"
proof -
  have j: "- 32044 \<le> j" "- 31738 \<le> j" using assms by simp_all
  let ?d = "get_year_month_day j"
  have "get_julian_day_number (year (next_civil ?d)) (month (next_civil ?d)) (day (next_civil ?d)) = j + 1"
    using get_julian_day_number_next [OF civil_of_julian(1) [OF j(1)] civil_of_julian(3) [OF j]]
      civil_of_julian(2) [OF j(1)] by simp
  moreover have "- 4799 \<le> year (next_civil ?d)"
    using civil_of_julian(3) [OF j] by (simp add: next_civil_def)
  ultimately have "get_year_month_day (j + 1) = next_civil ?d"
    using julian_of_civil(1) [OF civil_next [OF civil_of_julian(1) [OF j(1)]]] by metis
  moreover have "week_day (Date_julian (j + 1)) = (week_day (Date_julian j) + 1) mod kDaysPerWeek"
    using assms by (simp add: week_day_def Date_julian_def kDaysPerWeek_def smod_nonneg mod_simps add.commute)
  moreover have "get_julian_day_number 1970 1 1 = 2440588"
    by (simp add: get_julian_day_number_def)
  ultimately show ?thesis
    by (simp add: week_day_def Date_ymd_def kDaysPerWeek_def kJulianDayOf1970_01_01_def)
qed

theorem calendar_advances_witness:
  "get_year_month_day 2460370 = next_civil (get_year_month_day 2460369)"
  using calendar_advances [of 2460369] by simp

lemma julian_day_steps_fit:
  assumes "- 4799 \<le> yr" and "yr \<le> 1000000" and "1 \<le> mo" and "mo \<le> 12" and "1 \<le> dy" and "dy \<le> 31"
  shows "list_all fits_int32 (julian_day_steps yr mo dy)"
proof -
  define a :: int where "a = (if mo \<le> 2 then 1 else 0)"
  have a: "(14 - mo) sdiv 12 = a" "0 \<le> a" "a \<le> 1"
    using assms(3,4) by (auto simp: a_def sdiv_nonneg intro!: int_div_eqI)
  define y where "y = yr + 4800 - a"
  define m where "m = mo + 12 * a - 3"
  have y: "0 \<le> y" "y \<le> 1004800" and m: "0 \<le> m" "m \<le> 11"
    using assms by (auto simp: y_def m_def a_def)
  define k q4 q100 q400 where "k = (153 * m + 2) div 5" and "q4 = y div 4" and "q100 = y div 100" and "q400 = y div 400"
  have k: "0 \<le> k" "k \<le> 340" using m by (auto simp: k_def)
  have q: "0 \<le> q4" "q4 \<le> y" "0 \<le> q100" "q100 \<le> y" "0 \<le> q400" "q400 \<le> y"
    using y div_bounds [of 4 y] div_bounds [of 100 y] div_bounds [of 400 y]
    unfolding q4_def q100_def q400_def by (simp_all add: pos_imp_zdiv_nonneg_iff)
  have s: "(153 * m + 2) sdiv 5 = k" "y sdiv 4 = q4" "y sdiv 100 = q100" "y sdiv 400 = q400"
    using y m by (simp_all add: sdiv_nonneg k_def q4_def q100_def q400_def)
  show ?thesis
    unfolding julian_day_steps_def Let_def a(1) y_def [symmetric] m_def [symmetric] s
    using assms a(2,3) y m k q by (simp add: fits_int32_def)
qed

lemma year_month_day_steps_fit:
  assumes "- 32044 \<le> j" and "j \<le> 400000000"
  shows "list_all fits_int32 (year_month_day_steps j)"
proof -
  have "0 \<le> j + 32044" using assms by simp
  then obtain b d e where ok: "march_ok b d e" and j: "j + 32044 = march_days b d e"
    by (rule march_ok_exists)
  define q4 qb A where "q4 = d div 4" and "qb = b div 4" and "A = march_days b d e"
  have r: "0 \<le> b" "0 \<le> d" "d < 100" "0 \<le> e" "e \<le> 365" using ok by (auto simp: march_ok_def)
  have q4: "0 \<le> q4" "q4 \<le> 25" and bq: "0 \<le> qb"
    using r by (auto simp: q4_def qb_def pos_imp_zdiv_nonneg_iff)
  have A: "A = e + 365 * d + q4 + (36524 * b + qb)" "A \<le> 400032044" "0 \<le> A"
    using j assms(2) march_days_nonneg [OF ok] by (simp_all add: A_def march_days_def q4_def qb_def)
  have b: "36524 * b + qb \<le> 400032044" "b \<le> 16000" using A r q4 bq by simp_all
  define m where "m = (5 * e + 2) div 153"
  have m: "0 \<le> m" "m \<le> 11" using r by (auto simp: m_def)
  define k m10 where "k = (153 * m + 2) div 5" and "m10 = m div 10"
  have k: "0 \<le> k" "k \<le> 340" "0 \<le> m10" "m10 \<le> 1" using m by (auto simp: k_def m10_def)
  have s1: "(4 * A + 3) sdiv 146097 = b"
    using march_century [OF ok] A(3) unfolding A_def by (simp add: sdiv_nonneg)
  have s2: "(b * 146097) sdiv 4 = 36524 * b + qb"
    using r by (simp add: sdiv_nonneg century_days qb_def)
  have s3: "A - (36524 * b + qb) = e + 365 * d + q4" using A(1) by simp
  have s4: "(4 * (e + 365 * d + q4) + 3) sdiv 1461 = d"
    using march_year [OF ok] r q4 unfolding q4_def by (simp add: sdiv_nonneg)
  have s5: "(1461 * d) sdiv 4 = 365 * d + q4"
    using r by (simp add: sdiv_nonneg year_days q4_def)
  have s6: "e + 365 * d + q4 - (365 * d + q4) = e" by simp
  have s7: "(5 * e + 2) sdiv 153 = m" "(153 * m + 2) sdiv 5 = k" "m sdiv 10 = m10"
    using r m by (simp_all add: sdiv_nonneg m_def k_def m10_def)
  show ?thesis
    unfolding year_month_day_steps_def Let_def j A_def [symmetric] s1 s2 s3 s4 s5 s6 s7
    using A r b bq q4 m k by (simp add: fits_int32_def)
qed

text \<open>
  C37: No signed overflow. For every date from the year -4799 to the year 1000000, and every day number
  from -32044 to 400000000 (beyond the year one million), each arithmetic subexpression of
  \<^verbatim>\<open>get_julian_day_number\<close> and \<^verbatim>\<open>get_year_month_day\<close> stays within a 32-bit \<^verbatim>\<open>int\<close>, so the unbounded
  integers of the model compute what the C++ code computes.
\<close>

theorem calendar_no_overflow:
  assumes "- 4799 \<le> yr" and "yr \<le> 1000000" and "1 \<le> mo" and "mo \<le> 12" and "1 \<le> dy" and "dy \<le> 31"
    and "- 32044 \<le> j" and "j \<le> 400000000"
  shows "list_all fits_int32 (julian_day_steps yr mo dy) \<and>
         last (julian_day_steps yr mo dy) = get_julian_day_number yr mo dy \<and>
         list_all fits_int32 (year_month_day_steps j) \<and>
         last (year_month_day_steps j) = year (get_year_month_day j)"
  using julian_day_steps_fit [OF assms(1-6)] year_month_day_steps_fit [OF assms(7,8)]
  by (simp add: julian_day_steps_def get_julian_day_number_def year_month_day_steps_def
        get_year_month_day_def Let_def)

theorem calendar_no_overflow_witness:
  "list_all fits_int32 (julian_day_steps 2500 12 31) \<and> list_all fits_int32 (year_month_day_steps 2634532)"
  using calendar_no_overflow [of 2500 12 31 2634532] by simp

end
