(* ===== verification/Timezone.thy ===== *)
theory Timezone
  imports Date Endian
begin

text \<open>
  Timezone.cc and Timezone.h: the transition table of a zone and the search in it, reading a zone
  file, and the conversions between seconds since the epoch, local time and UTC. \<^verbatim>\<open>gmtime_r\<close> and
  \<^verbatim>\<open>timegm\<close> belong to the C library of the platform and are arguments. Reading or indexing outside a
  vector is the value \<open>Undefined\<close>; the exceptions that \<^verbatim>\<open>read_timezone_file\<close> catches are \<open>Throw\<close>.
\<close>

record Transition =
  gmttime :: int
  localtime :: int
  localtime_idx :: int

record Localtime =
  gmt_offset :: int
  is_dst :: bool
  arrb_idx :: int

record TimeData =
  transitions :: "Transition list"
  localtimes :: "Localtime list"
  tz_abbreviation :: string

definition TimeData_init :: TimeData where
  "TimeData_init = \<lparr> transitions = [], localtimes = [], tz_abbreviation = [] \<rparr>"

text \<open>The C \<^verbatim>\<open>struct tm\<close>; \<^verbatim>\<open>tm_zone\<close> is the string it points to.\<close>

record tm =
  tm_sec :: int
  tm_min :: int
  tm_hour :: int
  tm_mday :: int
  tm_mon :: int
  tm_year :: int
  tm_wday :: int
  tm_yday :: int
  tm_isdst :: int
  tm_gmtoff :: int
  tm_zone :: string

definition tm_zero :: tm where
  "tm_zero = \<lparr> tm_sec = 0, tm_min = 0, tm_hour = 0, tm_mday = 0, tm_mon = 0, tm_year = 0, tm_wday = 0,
               tm_yday = 0, tm_isdst = 0, tm_gmtoff = 0, tm_zone = [] \<rparr>"

section \<open>The transition table\<close>

text \<open>\<^verbatim>\<open>struct Comp\<close>: the ordering by GMT or by local time.\<close>

definition Comp_less :: "bool \<Rightarrow> Transition \<Rightarrow> Transition \<Rightarrow> bool" where
  "Comp_less compare_gmt lhs rhs =
     (if compare_gmt then gmttime lhs < gmttime rhs else localtime lhs < localtime rhs)"

definition Comp_equal :: "bool \<Rightarrow> Transition \<Rightarrow> Transition \<Rightarrow> bool" where
  "Comp_equal compare_gmt lhs rhs =
     (if compare_gmt then gmttime lhs = gmttime rhs else localtime lhs = localtime rhs)"

text \<open>\<^verbatim>\<open>std::lower_bound\<close> halves the range; \<open>p i\<close> says that element \<open>i\<close> is less than the value.\<close>

function lower_bound :: "(nat \<Rightarrow> bool) \<Rightarrow> nat \<Rightarrow> nat \<Rightarrow> nat" where
  "lower_bound p first len =
     (if len = 0 then first
      else let half = len div 2
           in if p (first + half) then lower_bound p (first + half + 1) (len - half - 1)
              else lower_bound p first half)"
  by pat_completeness auto
termination
  by (relation "measure (\<lambda>(p, first, len). len)") auto

declare lower_bound.simps [simp del]

text \<open>\<^verbatim>\<open>v[i]\<close> and \<^verbatim>\<open>v.front()\<close> of a vector: outside the vector the behaviour is undefined.\<close>

definition vec_at :: "'a list \<Rightarrow> int \<Rightarrow> 'a res" where
  "vec_at xs i = mdefined (0 \<le> i \<and> nat i < length xs) ''vector index'' (Inr (xs ! nat i))"

definition find_local_time :: "TimeData \<Rightarrow> Transition \<Rightarrow> bool \<Rightarrow> Localtime res" where
  "find_local_time data sentry cmp =
     (let ts = transitions data
      in if ts = [] \<or> Comp_less cmp sentry (hd ts)
         then vec_at (localtimes data) 0
         else let transI = lower_bound (\<lambda>i. Comp_less cmp (ts ! i) sentry) 0 (length ts)
              in if transI \<noteq> length ts
                 then if Comp_equal cmp sentry (ts ! transI)
                      then vec_at (localtimes data) (localtime_idx (ts ! transI))
                      else massert (transI \<noteq> 0) ''transI != data.transitions.begin()''
                             (vec_at (localtimes data) (localtime_idx (ts ! (transI - 1))))
                 else vec_at (localtimes data) (localtime_idx (last ts)))"

section \<open>Reading a zone file\<close>

text \<open>The file is the list of bytes left to read.\<close>

definition read_bytes :: "int \<Rightarrow> char list \<Rightarrow> (char list \<times> char list) res" where
  "read_bytes n bs =
     mdefined (0 \<le> n) ''char buf[n] with n < 0''
     (if length (take (nat n) bs) \<noteq> nat n then Inl (Throw ''no enough data'')
      else Inr (take (nat n) bs, drop (nat n) bs))"

definition read_int32 :: "char list \<Rightarrow> (int \<times> char list) res" where
  "read_int32 bs =
     (if length (take 4 bs) \<noteq> 4 then Inl (Throw ''bad int32_t data'')
      else Inr (sint (net_to_host32 (word_of_mem (take 4 bs))), drop 4 bs))"

definition read_uint8 :: "char list \<Rightarrow> (int \<times> char list) res" where
  "read_uint8 bs =
     (if length (take 1 bs) \<noteq> 1 then Inl (Throw ''bad uint8_t data'')
      else Inr (uint (word_of_mem (take 1 bs) :: 8 word), drop 1 bs))"

fun read_list :: "(char list \<Rightarrow> ('a \<times> char list) res) \<Rightarrow> nat \<Rightarrow> char list \<Rightarrow> ('a list \<times> char list) res" where
  "read_list rd 0 bs = Inr ([], bs)"
| "read_list rd (Suc n) bs =
     rbind (rd bs) (\<lambda>(x, bs1). rbind (read_list rd n bs1) (\<lambda>(xs, bs2). Inr (x # xs, bs2)))"

definition read_localtime :: "char list \<Rightarrow> (Localtime \<times> char list) res" where
  "read_localtime bs =
     rbind (read_int32 bs) (\<lambda>(gmtoff, bs1).
     rbind (read_uint8 bs1) (\<lambda>(isdst, bs2).
     rbind (read_uint8 bs2) (\<lambda>(abbrind, bs3).
     Inr (\<lparr> gmt_offset = gmtoff, is_dst = isdst \<noteq> 0, arrb_idx = abbrind \<rparr>, bs3))))"

text \<open>The third loop stores each local time type before it reads the next one.\<close>

fun read_localtimes :: "nat \<Rightarrow> char list \<Rightarrow> Localtime list \<Rightarrow> Localtime list \<times> char list res" where
  "read_localtimes 0 bs acc = (acc, Inr bs)"
| "read_localtimes (Suc n) bs acc =
     (case read_localtime bs of
        Inl e \<Rightarrow> (acc, Inl e)
      | Inr (lt, bs1) \<Rightarrow> read_localtimes n bs1 (acc @ [lt]))"

fun make_transitions :: "Localtime list \<Rightarrow> (int \<times> int) list \<Rightarrow> Transition list res" where
  "make_transitions lts [] = Inr []"
| "make_transitions lts ((t, local_idx) # rest) =
     rbind (vec_at lts local_idx) (\<lambda>lt.
     rbind (make_transitions lts rest) (\<lambda>trs.
     Inr (\<lparr> gmttime = t, localtime = t + gmt_offset lt, localtime_idx = local_idx \<rparr> # trs)))"

definition read_tz_header :: "char list \<Rightarrow> (int \<times> int \<times> int \<times> char list) res" where
  "read_tz_header bs =
     rbind (read_bytes 4 bs) (\<lambda>(head, bs).
     if head \<noteq> ''TZif'' then Inl (Throw ''bad head'') else
     rbind (read_bytes 1 bs) (\<lambda>(version, bs).
     rbind (read_bytes 15 bs) (\<lambda>(reserved, bs).
     rbind (read_int32 bs) (\<lambda>(isgmtcnt, bs).
     rbind (read_int32 bs) (\<lambda>(isstdcnt, bs).
     rbind (read_int32 bs) (\<lambda>(leapcnt, bs).
     rbind (read_int32 bs) (\<lambda>(timecnt, bs).
     rbind (read_int32 bs) (\<lambda>(typecnt, bs).
     rbind (read_int32 bs) (\<lambda>(charcnt, bs).
     Inr (timecnt, typecnt, charcnt, bs))))))))))"

definition read_tz_times :: "int \<Rightarrow> char list \<Rightarrow> ((int \<times> int) list \<times> char list) res" where
  "read_tz_times timecnt bs =
     (if timecnt < 0 then Inl (Throw ''vector::reserve'') else
      rbind (read_list read_int32 (nat timecnt) bs) (\<lambda>(trans, bs).
      rbind (read_list read_uint8 (nat timecnt) bs) (\<lambda>(localtimes, bs).
      Inr (zip trans localtimes, bs))))"

definition read_tz_body :: "char list \<Rightarrow> TimeData \<Rightarrow> TimeData \<times> unit res" where
  "read_tz_body bs data =
     (case rbind (read_tz_header bs) (\<lambda>(timecnt, typecnt, charcnt, bs).
             rbind (read_tz_times timecnt bs) (\<lambda>(tts, bs). Inr (typecnt, charcnt, tts, bs))) of
        Inl e \<Rightarrow> (data, Inl e)
      | Inr (typecnt, charcnt, tts, bs) \<Rightarrow>
          (case read_localtimes (nat typecnt) bs (localtimes data) of (lts, r) \<Rightarrow>
             let data = data\<lparr>localtimes := lts\<rparr>
             in case r of
                  Inl e \<Rightarrow> (data, Inl e)
                | Inr bs \<Rightarrow>
                    (case make_transitions lts tts of
                       Inl e \<Rightarrow> (data, Inl e)
                     | Inr trs \<Rightarrow>
                         let data = data\<lparr>transitions := transitions data @ trs\<rparr>
                         in case read_bytes charcnt bs of
                              Inl e \<Rightarrow> (data, Inl e)
                            | Inr (ab, bs) \<Rightarrow> (data\<lparr>tz_abbreviation := ab\<rparr>, Inr ()))))"

text \<open>
  \<open>None\<close> is a file that cannot be opened. The result is the return value, the data and the message
  of a caught \<^verbatim>\<open>logic_error\<close>.
\<close>

definition read_timezone_file :: "char list option \<Rightarrow> TimeData \<Rightarrow> (bool \<times> TimeData \<times> string option) res" where
  "read_timezone_file zonefile data =
     (case zonefile of
        None \<Rightarrow> Inr (True, data, None)
      | Some bs \<Rightarrow>
          (case read_tz_body bs data of
             (data', Inl (Throw what)) \<Rightarrow> Inr (True, data', Some what)
           | (data', Inl e) \<Rightarrow> Inl e
           | (data', Inr _) \<Rightarrow> Inr (True, data', None)))"

section \<open>The class Timezone\<close>

text \<open>A \<^verbatim>\<open>Timezone\<close> is its \<^verbatim>\<open>m_data\<close>: \<open>None\<close> is the null pointer.\<close>

definition Timezone_file :: "char list option \<Rightarrow> TimeData option res" where
  "Timezone_file zonefile =
     rbind (read_timezone_file zonefile TimeData_init) (\<lambda>(ok, data, msg). Inr (if ok then Some data else None))"

definition Timezone_fixed :: "int \<Rightarrow> string \<Rightarrow> TimeData option" where
  "Timezone_fixed eastOfUtc name =
     Some (TimeData_init\<lparr> localtimes := [\<lparr> gmt_offset = eastOfUtc, is_dst = False, arrb_idx = 0 \<rparr>],
                          tz_abbreviation := name \<rparr>)"

definition timezone_valid :: "TimeData option \<Rightarrow> bool" where
  "timezone_valid tz \<longleftrightarrow> tz \<noteq> None"

definition c_string_at :: "string \<Rightarrow> int \<Rightarrow> string res" where
  "c_string_at s i =
     mdefined (0 \<le> i \<and> nat i \<le> length s) ''string index''
       (Inr (takeWhile (\<lambda>c. c \<noteq> CHR 0x00) (drop (nat i) s)))"

definition to_local_time :: "(int \<Rightarrow> tm) \<Rightarrow> TimeData option \<Rightarrow> int \<Rightarrow> tm res" where
  "to_local_time gmtime_r tz seconds =
     (case tz of
        None \<Rightarrow> Inl (AssertFailed ''m_data != NULL'')
      | Some data \<Rightarrow>
          rbind (find_local_time data \<lparr> gmttime = seconds, localtime = 0, localtime_idx = 0 \<rparr> True) (\<lambda>local.
          rbind (c_string_at (tz_abbreviation data) (arrb_idx local)) (\<lambda>zone.
          Inr ((gmtime_r (seconds + gmt_offset local))\<lparr> tm_isdst := (if is_dst local then 1 else 0),
                 tm_gmtoff := gmt_offset local, tm_zone := zone \<rparr>))))"

definition from_local_time :: "(int \<Rightarrow> tm) \<Rightarrow> (tm \<Rightarrow> int) \<Rightarrow> TimeData option \<Rightarrow> tm \<Rightarrow> int res" where
  "from_local_time gmtime_r timegm tz localTm =
     (case tz of
        None \<Rightarrow> Inl (AssertFailed ''m_data != NULL'')
      | Some data \<Rightarrow>
          let seconds = timegm localTm
          in rbind (find_local_time data \<lparr> gmttime = 0, localtime = seconds, localtime_idx = 0 \<rparr> False) (\<lambda>local.
             if tm_isdst localTm \<noteq> 0
             then rbind (to_local_time gmtime_r tz (seconds - gmt_offset local)) (\<lambda>tryTm.
                  let seconds = (if tm_isdst tryTm = 0 \<and> tm_hour tryTm = tm_hour localTm \<and>
                                    tm_min tryTm = tm_min localTm
                                 then seconds - 3600 else seconds)
                  in Inr (seconds - gmt_offset local))
             else Inr (seconds - gmt_offset local)))"

section \<open>UTC\<close>

definition kSecondsPerDay :: int where "kSecondsPerDay = 24 * 60 * 60"

definition fill_hms :: "int \<Rightarrow> tm \<Rightarrow> tm" where
  "fill_hms seconds utc =
     (let minutes = seconds div 60
      in utc\<lparr> tm_sec := seconds mod 60, tm_min := minutes mod 60, tm_hour := minutes div 60 \<rparr>)"

definition to_utc_time :: "int \<Rightarrow> bool \<Rightarrow> tm" where
  "to_utc_time secondsSinceEpoch yday =
     (let utc = tm_zero\<lparr>tm_zone := ''GMT''\<rparr>;
          seconds = cast_int32 (secondsSinceEpoch smod kSecondsPerDay);
          days = cast_int32 (secondsSinceEpoch sdiv kSecondsPerDay);
          (seconds, days) = (if seconds < 0 then (seconds + kSecondsPerDay, days - 1) else (seconds, days));
          utc = fill_hms seconds utc;
          dt = Date_julian (days + kJulianDayOf1970_01_01);
          ymd = year_month_day dt;
          utc = utc\<lparr> tm_year := year ymd - 1900, tm_mon := month ymd - 1, tm_mday := day ymd,
                      tm_wday := week_day dt \<rparr>
      in if yday
         then utc\<lparr> tm_yday := m_julian_day_number dt - m_julian_day_number (Date_ymd (year ymd) 1 1) \<rparr>
         else utc)"

definition from_utc_time_fields :: "int \<Rightarrow> int \<Rightarrow> int \<Rightarrow> int \<Rightarrow> int \<Rightarrow> int \<Rightarrow> int" where
  "from_utc_time_fields yr mo dy hour minute seconds =
     (let dt = Date_ymd yr mo dy;
          secondsInDay = hour * 3600 + minute * 60 + seconds;
          days = m_julian_day_number dt - kJulianDayOf1970_01_01
      in days * kSecondsPerDay + secondsInDay)"

definition from_utc_time :: "tm \<Rightarrow> int" where
  "from_utc_time utc =
     from_utc_time_fields (tm_year utc + 1900) (tm_mon utc + 1) (tm_mday utc) (tm_hour utc) (tm_min utc) (tm_sec utc)"

section \<open>Search in the table\<close>

lemma lower_bound_correct:
  assumes "\<And>i j. first \<le> i \<Longrightarrow> i \<le> j \<Longrightarrow> j < first + len \<Longrightarrow> p j \<Longrightarrow> p i"
  shows "first \<le> lower_bound p first len \<and> lower_bound p first len \<le> first + len \<and>
         (\<forall>i. first \<le> i \<longrightarrow> i < lower_bound p first len \<longrightarrow> p i) \<and>
         (\<forall>i. lower_bound p first len \<le> i \<longrightarrow> i < first + len \<longrightarrow> \<not> p i)"
  using assms
proof (induction p first len rule: lower_bound.induct)
  case (1 p first len)
  let ?r = "lower_bound p first len"
  show ?case
  proof (cases "len = 0")
    case True
    then show ?thesis by (simp add: lower_bound.simps [of p first 0])
  next
    case False
    define half where "half = len div 2"
    have half: "half < len" using False by (simp add: half_def)
    show ?thesis
    proof (cases "p (first + half)")
      case True
      then have r: "?r = lower_bound p (first + half + 1) (len - half - 1)"
        using False by (subst lower_bound.simps) (simp add: half_def Let_def)
      have low: "p i" if "first \<le> i" "i \<le> first + half" for i
        using 1(3) [of i "first + half"] True half that by simp
      have top: "first + half + 1 + (len - half - 1) = first + len" using half by simp
      have ih: "first + half + 1 \<le> ?r \<and> ?r \<le> first + len \<and>
          (\<forall>i. first + half + 1 \<le> i \<longrightarrow> i < ?r \<longrightarrow> p i) \<and> (\<forall>i. ?r \<le> i \<longrightarrow> i < first + len \<longrightarrow> \<not> p i)"
        using 1(1) [OF False half_def True] 1(3) unfolding top r by simp
      show ?thesis
      proof (intro conjI allI impI)
        fix i assume "first \<le> i" "i < ?r"
        then show "p i" using low ih by (cases "i \<le> first + half") auto
      qed (use ih in auto)
    next
      case npf: False
      then have r: "?r = lower_bound p first half"
        using False by (subst lower_bound.simps) (simp add: half_def Let_def)
      have high: "\<not> p i" if "first + half \<le> i" "i < first + len" for i
        using 1(3) [of "first + half" i] npf that by auto
      have ih: "first \<le> ?r \<and> ?r \<le> first + half \<and>
          (\<forall>i. first \<le> i \<longrightarrow> i < ?r \<longrightarrow> p i) \<and> (\<forall>i. ?r \<le> i \<longrightarrow> i < first + half \<longrightarrow> \<not> p i)"
        using 1(2) [OF False half_def npf] 1(3) half unfolding r by simp
      show ?thesis
      proof (intro conjI allI impI)
        fix i assume "?r \<le> i" "i < first + len"
        then show "\<not> p i" using high ih by (cases "i < first + half") auto
      qed (use ih half in auto)
    qed
  qed
qed

text \<open>A zone the search can work on: strictly ascending transitions and indices inside the table.\<close>

definition tz_ok :: "bool \<Rightarrow> TimeData \<Rightarrow> bool" where
  "tz_ok by_gmt data \<longleftrightarrow>
     sorted_wrt (Comp_less by_gmt) (transitions data) \<and> localtimes data \<noteq> [] \<and>
     list_all (\<lambda>t. 0 \<le> localtime_idx t \<and> nat (localtime_idx t) < length (localtimes data)) (transitions data)"

text \<open>The rule of the zone: the type of the last transition at or before the instant, the first type
  before every transition.\<close>

definition local_time_at :: "TimeData \<Rightarrow> Transition \<Rightarrow> bool \<Rightarrow> Localtime" where
  "local_time_at data sentry by_gmt =
     (let past = filter (\<lambda>t. \<not> Comp_less by_gmt sentry t) (transitions data)
      in if past = [] then hd (localtimes data)
         else localtimes data ! nat (localtime_idx (last past)))"

lemma filter_prefix:
  assumes "k \<le> length ts" and "\<And>i. i < k \<Longrightarrow> P (ts ! i)" and "\<And>i. k \<le> i \<Longrightarrow> i < length ts \<Longrightarrow> \<not> P (ts ! i)"
  shows "filter P ts = take k ts"
proof -
  have "filter P (take k ts @ drop k ts) = take k ts"
  proof -
    have "filter P (take k ts) = take k ts" using assms(1,2) by (auto simp: filter_id_conv in_set_conv_nth)
    moreover have "filter P (drop k ts) = []"
      using assms(1,3) by (auto simp: filter_empty_conv in_set_conv_nth)
    ultimately show ?thesis by (simp only: filter_append append_Nil2)
  qed
  then show ?thesis by simp
qed

lemma vec_at_ok: "0 \<le> i \<Longrightarrow> nat i < length xs \<Longrightarrow> vec_at xs i = Inr (xs ! nat i)"
  by (simp add: vec_at_def)

lemma Comp_less_trans: "Comp_less g x y \<Longrightarrow> Comp_less g y z \<Longrightarrow> Comp_less g x z"
  by (auto simp: Comp_less_def split: if_splits)

lemma Comp_trichotomy: "\<not> Comp_less g y x \<longleftrightarrow> Comp_less g x y \<or> Comp_equal g y x"
  unfolding Comp_less_def Comp_equal_def by (cases g; simp; linarith)

lemma Comp_equal_sym: "Comp_equal g x y = Comp_equal g y x"
  by (auto simp: Comp_equal_def)

lemma Comp_cong: "Comp_equal g x y \<Longrightarrow> Comp_less g y z = Comp_less g x z"
  by (simp add: Comp_less_def Comp_equal_def split: if_splits)

lemma Comp_asym: "Comp_less g x y \<Longrightarrow> \<not> Comp_less g y x"
  by (simp add: Comp_less_def split: if_splits)

lemma Comp_equal_irrefl: "Comp_equal g x y \<Longrightarrow> \<not> Comp_less g x y"
  by (simp add: Comp_less_def Comp_equal_def split: if_splits)

lemma find_local_time_spec:
  assumes "tz_ok g data"
  shows "find_local_time data sentry g = Inr (local_time_at data sentry g)"
proof -
  let ?ts = "transitions data"
  let ?past = "filter (\<lambda>t. \<not> Comp_less g sentry t) ?ts"
  have sorted: "Comp_less g (?ts ! i) (?ts ! j)" if "i < j" "j < length ?ts" for i j
    using assms that by (simp add: tz_ok_def sorted_wrt_iff_nth_less)
  have at: "vec_at (localtimes data) (localtime_idx (?ts ! i)) = Inr (localtimes data ! nat (localtime_idx (?ts ! i)))"
    if "i < length ?ts" for i
    using assms that by (simp add: tz_ok_def list_all_length vec_at_ok)
  have front: "vec_at (localtimes data) 0 = Inr (hd (localtimes data))"
    using assms by (simp add: tz_ok_def vec_at_def hd_conv_nth)
  show ?thesis
  proof (cases "?ts = [] \<or> Comp_less g sentry (hd ?ts)")
    case True
    have "?past = []"
    proof (cases "?ts = []")
      case False
      then have "Comp_less g sentry (?ts ! i)" if "i < length ?ts" for i
        using True sorted [of 0 i] that Comp_less_trans [of g sentry "?ts ! 0" "?ts ! i"]
        by (cases i) (simp_all add: hd_conv_nth)
      then show ?thesis by (auto simp: filter_empty_conv in_set_conv_nth)
    qed simp
    then show ?thesis using True front by (auto simp: find_local_time_def local_time_at_def Let_def)
  next
    case False
    define r where "r = lower_bound (\<lambda>i. Comp_less g (?ts ! i) sentry) 0 (length ?ts)"
    have r: "r \<le> length ?ts" "\<And>i. i < r \<Longrightarrow> Comp_less g (?ts ! i) sentry"
      "\<And>i. r \<le> i \<Longrightarrow> i < length ?ts \<Longrightarrow> \<not> Comp_less g (?ts ! i) sentry"
    proof -
      have "Comp_less g (?ts ! i) sentry" if "i \<le> j" "j < length ?ts" "Comp_less g (?ts ! j) sentry" for i j
        using that sorted [of i j] Comp_less_trans [of g "?ts ! i" "?ts ! j" sentry] by (cases "i = j") simp_all
      then have "0 \<le> r \<and> r \<le> 0 + length ?ts \<and> (\<forall>i. 0 \<le> i \<longrightarrow> i < r \<longrightarrow> Comp_less g (?ts ! i) sentry) \<and>
          (\<forall>i. r \<le> i \<longrightarrow> i < 0 + length ?ts \<longrightarrow> \<not> Comp_less g (?ts ! i) sentry)"
        unfolding r_def by (intro lower_bound_correct) simp
      then show "r \<le> length ?ts" "\<And>i. i < r \<Longrightarrow> Comp_less g (?ts ! i) sentry"
        "\<And>i. r \<le> i \<Longrightarrow> i < length ?ts \<Longrightarrow> \<not> Comp_less g (?ts ! i) sentry"
        by simp_all
    qed
    define k where "k = (if r < length ?ts \<and> Comp_equal g sentry (?ts ! r) then r + 1 else r)"
    have above: "Comp_less g sentry (?ts ! i)" if "k \<le> i" "i < length ?ts" for i
    proof (cases "r < length ?ts \<and> Comp_equal g sentry (?ts ! r)")
      case True
      then show ?thesis
        using that sorted [of r i] Comp_cong [of g sentry "?ts ! r" "?ts ! i"] by (simp add: k_def)
    next
      case neq: False
      then have "k = r" unfolding k_def by (rule if_not_P)
      then have ri: "r \<le> i" using that by simp
      then have "Comp_less g sentry (?ts ! r)"
        using neq r(3) [of r] that Comp_trichotomy [of g "?ts ! r" sentry] Comp_equal_sym [of g sentry "?ts ! r"]
        by simp
      then show ?thesis
        using sorted [of r i] ri that Comp_less_trans [of g sentry "?ts ! r" "?ts ! i"] by (cases "r = i") simp_all
    qed
    have past: "?past = take k ?ts"
    proof (rule filter_prefix)
      show "k \<le> length ?ts" using r(1) by (simp add: k_def)
      show "\<not> Comp_less g sentry (?ts ! i)" if "i < k" for i
      proof (cases "i < r")
        case True
        then show ?thesis using r(2) Comp_asym by blast
      next
        case False
        then have "i = r" "Comp_equal g sentry (?ts ! r)" using that by (auto simp: k_def split: if_splits)
        then show ?thesis using Comp_equal_irrefl by blast
      qed
    qed (use above in auto)
    have "k \<le> length ?ts" using r(1) by (simp add: k_def)
    moreover have "k \<noteq> 0"
    proof
      assume "k = 0"
      then have "Comp_less g sentry (hd ?ts)" using above [of 0] False by (simp add: hd_conv_nth)
      then show False using False by simp
    qed
    ultimately have k0: "k \<noteq> 0" "k \<le> length ?ts" by simp_all
    then have "local_time_at data sentry g = localtimes data ! nat (localtime_idx (?ts ! (k - 1)))"
      using False by (simp add: local_time_at_def past last_conv_nth min_absorb2)
    moreover have "find_local_time data sentry g = vec_at (localtimes data) (localtime_idx (?ts ! (k - 1)))"
      using False k0 by (auto simp: find_local_time_def Let_def k_def last_conv_nth simp flip: r_def)
    ultimately show ?thesis using at [of "k - 1"] k0 by simp
  qed
qed

section \<open>Writing a zone file\<close>

text \<open>The layout of a version 1 zone file, as a reference for the reader.\<close>

definition put_int32 :: "int \<Rightarrow> char list" where
  "put_int32 x = mem_of (host_to_net32 (word_of_int x))"

definition put_uint8 :: "int \<Rightarrow> char list" where
  "put_uint8 x = mem_of (word_of_int x :: 8 word)"

definition put_localtime :: "Localtime \<Rightarrow> char list" where
  "put_localtime lt = put_int32 (gmt_offset lt) @ put_uint8 (if is_dst lt then 1 else 0) @ put_uint8 (arrb_idx lt)"

definition write_timezone_file :: "TimeData \<Rightarrow> char list" where
  "write_timezone_file d =
     ''TZif'' @ replicate 16 (CHR 0x00) @ put_int32 0 @ put_int32 0 @ put_int32 0 @
     put_int32 (int (length (transitions d))) @ put_int32 (int (length (localtimes d))) @
     put_int32 (int (length (tz_abbreviation d))) @
     concat (map (put_int32 \<circ> gmttime) (transitions d)) @
     concat (map (put_uint8 \<circ> localtime_idx) (transitions d)) @
     concat (map put_localtime (localtimes d)) @ tz_abbreviation d"

text \<open>The data a zone file can hold.\<close>

definition is_uint8 :: "int \<Rightarrow> bool" where "is_uint8 x \<longleftrightarrow> 0 \<le> x \<and> x < 256"

definition tz_storable :: "TimeData \<Rightarrow> bool" where
  "tz_storable d \<longleftrightarrow>
     int (length (transitions d)) < 2 ^ 31 \<and> int (length (localtimes d)) < 2 ^ 31 \<and>
     int (length (tz_abbreviation d)) < 2 ^ 31 \<and>
     list_all (\<lambda>lt. fits_int32 (gmt_offset lt) \<and> is_uint8 (arrb_idx lt)) (localtimes d) \<and>
     list_all (\<lambda>t. fits_int32 (gmttime t) \<and> is_uint8 (localtime_idx t) \<and>
                   nat (localtime_idx t) < length (localtimes d) \<and>
                   localtime t = gmttime t + gmt_offset (localtimes d ! nat (localtime_idx t))) (transitions d)"

lemma read_int32_put: "fits_int32 x \<Longrightarrow> read_int32 (put_int32 x @ bs) = Inr (x, bs)"
  by (simp add: read_int32_def put_int32_def endian_defs word_of_mem_mem_of bswap_bswap fits_int32_def
        sint_sbintrunc' signed_take_bit_int_eq_self)

lemma read_uint8_put: "is_uint8 x \<Longrightarrow> read_uint8 (put_uint8 x @ bs) = Inr (x, bs)"
  by (simp add: read_uint8_def put_uint8_def word_of_mem_mem_of is_uint8_def uint_word_of_int)

lemma read_bytes_append: "read_bytes (int (length xs)) (xs @ bs) = Inr (xs, bs)"
  by (simp add: read_bytes_def)

lemma read_list_put:
  assumes "\<And>x bs. P x \<Longrightarrow> rd (put x @ bs) = Inr (f x, bs)" and "list_all P xs"
  shows "read_list rd (length xs) (concat (map put xs) @ bs) = Inr (map f xs, bs)"
  using assms(2) by (induction xs) (simp_all add: assms(1))

lemma read_localtime_put:
  "fits_int32 (gmt_offset lt) \<Longrightarrow> is_uint8 (arrb_idx lt) \<Longrightarrow> read_localtime (put_localtime lt @ bs) = Inr (lt, bs)"
  by (simp add: read_localtime_def put_localtime_def read_int32_put read_uint8_put is_uint8_def)

lemma read_localtimes_put:
  assumes "list_all (\<lambda>lt. fits_int32 (gmt_offset lt) \<and> is_uint8 (arrb_idx lt)) lts"
  shows "read_localtimes (length lts) (concat (map put_localtime lts) @ bs) acc = (acc @ lts, Inr bs)"
  using assms by (induction lts arbitrary: acc) (simp_all add: read_localtime_put)

lemma make_transitions_ok:
  assumes "list_all (\<lambda>t. 0 \<le> localtime_idx t \<and> nat (localtime_idx t) < length lts \<and>
                   localtime t = gmttime t + gmt_offset (lts ! nat (localtime_idx t))) ts"
  shows "make_transitions lts (zip (map gmttime ts) (map localtime_idx ts)) = Inr ts"
  using assms by (induction ts) (auto simp: vec_at_def)

lemma fits_count: "int n < 2 ^ 31 \<Longrightarrow> fits_int32 (int n)"
  by (simp add: fits_int32_def)

lemma read_tz_header_put:
  assumes "fits_int32 a" and "fits_int32 b" and "fits_int32 c"
  shows "read_tz_header (''TZif'' @ replicate 16 (CHR 0x00) @ put_int32 0 @ put_int32 0 @ put_int32 0 @
           put_int32 a @ put_int32 b @ put_int32 c @ bs) = Inr (a, b, c, bs)"
proof -
  have rep: "replicate 16 (CHR 0x00) @ xs = [CHR 0x00] @ replicate 15 (CHR 0x00) @ xs" for xs
    by (simp add: numeral_eq_Suc)
  have head: "read_bytes 4 (''TZif'' @ xs) = Inr (''TZif'', xs)"
    and version: "read_bytes 1 ([CHR 0x00] @ xs) = Inr ([CHR 0x00], xs)"
    and reserved: "read_bytes 15 (replicate 15 (CHR 0x00) @ xs) = Inr (replicate 15 (CHR 0x00), xs)" for xs
    using read_bytes_append [of "''TZif''" xs] read_bytes_append [of "[CHR 0x00]" xs]
      read_bytes_append [of "replicate 15 (CHR 0x00)" xs] by simp_all
  have zero: "fits_int32 0" by (simp add: fits_int32_def)
  show ?thesis
    unfolding read_tz_header_def rep head
    by (simp only: rbind_Inr prod.case version reserved read_int32_put [OF zero] assms read_int32_put
          if_False not_True_eq_False simp_thms)
qed

text \<open>
  C32: A zone file is read back exactly. Whatever transitions, local time types and abbreviations a
  version 1 zone file can hold, \<^verbatim>\<open>read_timezone_file\<close> on the file that stores them returns true without
  an exception and without an out-of-range access and fills an empty \<^verbatim>\<open>TimeData\<close> with exactly these
  transitions (local times computed from the offsets), types and abbreviations.
\<close>

theorem read_timezone_file_roundtrip:
  assumes "tz_storable d"
  shows "read_timezone_file (Some (write_timezone_file d)) TimeData_init = Inr (True, d, None)"
proof -
  let ?ts = "transitions d" and ?lts = "localtimes d"
  have lts: "list_all (\<lambda>lt. fits_int32 (gmt_offset lt) \<and> is_uint8 (arrb_idx lt)) ?lts"
    and g: "list_all (\<lambda>t. fits_int32 (gmttime t)) ?ts" and i: "list_all (\<lambda>t. is_uint8 (localtime_idx t)) ?ts"
    and mk: "make_transitions ?lts (zip (map gmttime ?ts) (map localtime_idx ?ts)) = Inr ?ts"
    using assms make_transitions_ok [of ?lts ?ts] by (auto simp: tz_storable_def list_all_iff is_uint8_def)
  note counts = assms [unfolded tz_storable_def]
  have trans: "read_list read_int32 (length ?ts) (concat (map (put_int32 \<circ> gmttime) ?ts) @ bs) =
      Inr (map gmttime ?ts, bs)" for bs
    by (rule read_list_put [OF _ g]) (simp add: read_int32_put)
  have idxs: "read_list read_uint8 (length ?ts) (concat (map (put_uint8 \<circ> localtime_idx) ?ts) @ bs) =
      Inr (map localtime_idx ?ts, bs)" for bs
    by (rule read_list_put [OF _ i]) (simp add: read_uint8_put)
  have ab: "read_bytes (int (length (tz_abbreviation d))) (tz_abbreviation d) = Inr (tz_abbreviation d, [])"
    using read_bytes_append [of "tz_abbreviation d" "[]"] by simp
  have "read_tz_header (write_timezone_file d) =
      Inr (int (length ?ts), int (length ?lts), int (length (tz_abbreviation d)),
           concat (map (put_int32 \<circ> gmttime) ?ts) @ concat (map (put_uint8 \<circ> localtime_idx) ?ts) @
           concat (map put_localtime ?lts) @ tz_abbreviation d)"
    unfolding write_timezone_file_def using counts by (intro read_tz_header_put fits_count) blast+
  then have body: "read_tz_body (write_timezone_file d) TimeData_init = (d, Inr ())"
    by (simp add: read_tz_body_def read_tz_times_def trans idxs read_localtimes_put [OF lts] mk ab
        TimeData_init_def Let_def)
  show ?thesis by (simp add: read_timezone_file_def body)
qed

theorem read_timezone_file_roundtrip_witness:
  "let d = \<lparr> transitions = [\<lparr>gmttime = 100, localtime = 3700, localtime_idx = 1\<rparr>],
             localtimes = [\<lparr>gmt_offset = 0, is_dst = False, arrb_idx = 0\<rparr>, \<lparr>gmt_offset = 3600, is_dst = True, arrb_idx = 4\<rparr>],
             tz_abbreviation = ''GMT'' \<rparr>
   in read_timezone_file (Some (write_timezone_file d)) TimeData_init = Inr (True, d, None)"
  unfolding Let_def
  by (rule read_timezone_file_roundtrip) (simp add: tz_storable_def fits_int32_def is_uint8_def)

section \<open>UTC\<close>

lemma floor_day:
  assumes "0 < (k :: int)"
  shows "(if s smod k < 0 then (s smod k + k, s sdiv k - 1) else (s smod k, s sdiv k)) = (s mod k, s div k)"
proof -
  define q r where "q = s sdiv k" and "r = s smod k"
  have s: "s = k * q + r" using sdiv_mult_smod_eq [of s k] by (simp add: q_def r_def mult.commute)
  have r: "\<bar>r\<bar> < k"
    using assms by (cases "s = 0") (auto simp: r_def signed_modulo_int_def abs_mult)
  show ?thesis
  proof (cases "r < 0")
    case True
    then have e: "s = k * (q - 1) + (r + k)" using s by (simp add: algebra_simps)
    have "s div k = q - 1" "s mod k = r + k"
      using True r int_div_pos_eq [OF e] int_mod_pos_eq [OF e] by simp_all
    then show ?thesis using True by (simp add: q_def r_def)
  next
    case False
    then have "s div k = q" "s mod k = r"
      using r int_div_pos_eq [OF s] int_mod_pos_eq [OF s] by simp_all
    then show ?thesis using False by (simp add: q_def r_def)
  qed
qed

definition utc_range :: "int \<Rightarrow> bool" where
  "utc_range s \<longleftrightarrow> - 213635404800 \<le> s \<and> s \<le> 31000000000000"

lemma utc_range_days: "utc_range s \<Longrightarrow> - 2472632 \<le> s div kSecondsPerDay \<and> s div kSecondsPerDay \<le> 358796297"
  using div_bounds [of 86400 s] by (simp add: utc_range_def kSecondsPerDay_def)

lemma utc_range_casts:
  assumes "utc_range s"
  shows "cast_int32 (s smod kSecondsPerDay) = s smod kSecondsPerDay"
    and "cast_int32 (s sdiv kSecondsPerDay) = s sdiv kSecondsPerDay"
proof -
  define m d where "m = s mod kSecondsPerDay" and "d = s div kSecondsPerDay"
  have f: "(if s smod kSecondsPerDay < 0 then (s smod kSecondsPerDay + kSecondsPerDay, s sdiv kSecondsPerDay - 1)
      else (s smod kSecondsPerDay, s sdiv kSecondsPerDay)) = (m, d)"
    unfolding m_def d_def by (rule floor_day) (simp add: kSecondsPerDay_def)
  have "0 \<le> m" "m < 86400" "- 2472632 \<le> d" "d \<le> 358796297"
    using utc_range_days [OF assms] by (simp_all add: m_def d_def kSecondsPerDay_def)
  then have "fits_int32 (s smod kSecondsPerDay)" "fits_int32 (s sdiv kSecondsPerDay)"
    using f by (auto simp: fits_int32_def kSecondsPerDay_def split: if_splits)
  then show "cast_int32 (s smod kSecondsPerDay) = s smod kSecondsPerDay"
    "cast_int32 (s sdiv kSecondsPerDay) = s sdiv kSecondsPerDay"
    by (simp_all add: cast_int32_fits)
qed

lemma to_utc_time_fields:
  assumes "utc_range s"
  shows "tm_sec (to_utc_time s yd) = (s mod kSecondsPerDay) mod 60"
    and "tm_min (to_utc_time s yd) = (s mod kSecondsPerDay) div 60 mod 60"
    and "tm_hour (to_utc_time s yd) = (s mod kSecondsPerDay) div 60 div 60"
    and "\<lparr>year = tm_year (to_utc_time s yd) + 1900, month = tm_mon (to_utc_time s yd) + 1, day = tm_mday (to_utc_time s yd)\<rparr> =
         get_year_month_day (s div kSecondsPerDay + kJulianDayOf1970_01_01)"
    and "tm_wday (to_utc_time s yd) = week_day (Date_julian (s div kSecondsPerDay + kJulianDayOf1970_01_01))"
proof -
  have "0 < kSecondsPerDay" by (simp add: kSecondsPerDay_def)
  note f = utc_range_casts [OF assms] floor_day [OF this, of s]
  show "tm_sec (to_utc_time s yd) = (s mod kSecondsPerDay) mod 60"
    "tm_min (to_utc_time s yd) = (s mod kSecondsPerDay) div 60 mod 60"
    "tm_hour (to_utc_time s yd) = (s mod kSecondsPerDay) div 60 div 60"
    "\<lparr>year = tm_year (to_utc_time s yd) + 1900, month = tm_mon (to_utc_time s yd) + 1, day = tm_mday (to_utc_time s yd)\<rparr> =
         get_year_month_day (s div kSecondsPerDay + kJulianDayOf1970_01_01)"
    "tm_wday (to_utc_time s yd) = week_day (Date_julian (s div kSecondsPerDay + kJulianDayOf1970_01_01))"
    unfolding to_utc_time_def Let_def f by (simp_all add: fill_hms_def Let_def year_month_day_def Date_julian_def)
qed

lemma hms_sum: "(r div 60 div 60) * 3600 + (r div 60 mod 60) * 60 + r mod 60 = (r :: int)"
proof -
  have "r div 60 div 60 * 60 + r div 60 mod 60 = r div 60" "r div 60 * 60 + r mod 60 = r" by simp_all
  then show ?thesis by linarith
qed

lemma from_to_utc:
  assumes "utc_range s"
  shows "from_utc_time (to_utc_time s yd) = s"
proof -
  let ?t = "to_utc_time s yd" and ?j = "s div kSecondsPerDay + kJulianDayOf1970_01_01"
  have k: "kJulianDayOf1970_01_01 = 2440588" by (simp add: kJulianDayOf1970_01_01_def get_julian_day_number_def)
  have "- 32044 \<le> ?j" using utc_range_days [OF assms] by (simp add: k)
  from civil_of_julian(2) [OF this]
  have "get_julian_day_number (tm_year ?t + 1900) (tm_mon ?t + 1) (tm_mday ?t) = ?j"
    unfolding to_utc_time_fields(4) [OF assms, symmetric, of yd] by simp
  moreover have "tm_hour ?t * 3600 + tm_min ?t * 60 + tm_sec ?t = s mod kSecondsPerDay"
    unfolding to_utc_time_fields(1-3) [OF assms] by (rule hms_sum)
  ultimately show ?thesis
    by (simp add: from_utc_time_def from_utc_time_fields_def Let_def Date_ymd_def)
qed

text \<open>
  C31: UTC conversion. For every instant from the year -4800 to the year 980000, far beyond the years
  1900 to 2500 of the documentation, \<^verbatim>\<open>to_utc_time\<close> yields a valid civil date, an hour below 24 and a minute and second
  below 60, and \<^verbatim>\<open>from_utc_time\<close> turns it back into the same number of seconds; instants before 1970,
  where C++ division truncates the wrong way, are included.
\<close>

theorem utc_roundtrip:
  assumes "utc_range s"
  shows "from_utc_time (to_utc_time s yd) = s \<and>
         0 \<le> tm_sec (to_utc_time s yd) \<and> tm_sec (to_utc_time s yd) < 60 \<and>
         0 \<le> tm_min (to_utc_time s yd) \<and> tm_min (to_utc_time s yd) < 60 \<and>
         0 \<le> tm_hour (to_utc_time s yd) \<and> tm_hour (to_utc_time s yd) < 24 \<and>
         civil \<lparr>year = tm_year (to_utc_time s yd) + 1900, month = tm_mon (to_utc_time s yd) + 1,
                day = tm_mday (to_utc_time s yd)\<rparr>"
proof -
  have k: "kJulianDayOf1970_01_01 = 2440588" by (simp add: kJulianDayOf1970_01_01_def get_julian_day_number_def)
  have "- 32044 \<le> s div kSecondsPerDay + kJulianDayOf1970_01_01"
    using utc_range_days [OF assms] by (simp add: k)
  note civil = civil_of_julian(1) [OF this]
  have m: "0 \<le> s mod kSecondsPerDay" "s mod kSecondsPerDay < 86400" by (simp_all add: kSecondsPerDay_def)
  define r where "r = s mod kSecondsPerDay"
  have "0 \<le> r div 60 div 60" "r div 60 div 60 < 24"
    using m by (simp_all add: r_def [symmetric] pos_imp_zdiv_nonneg_iff div_less_iff_less_mult)
  then show ?thesis
    using from_to_utc [OF assms] civil unfolding to_utc_time_fields [OF assms] r_def by simp
qed

theorem utc_roundtrip_witness:
  "from_utc_time (to_utc_time (- 1) False) = - 1 \<and> tm_hour (to_utc_time (- 1) False) < 24"
  using utc_roundtrip [of "- 1" False] by (simp add: utc_range_def)

section \<open>Local time\<close>

text \<open>
  C30: The search in the transition table is right. For a zone whose transitions are strictly ascending
  (by GMT or by local time, whichever the comparison uses) and whose indices are inside the table,
  \<^verbatim>\<open>find_local_time\<close> fails no assertion, makes no out-of-range access and returns the local time type
  of the last transition at or before the instant, or the first type when there is none.
\<close>

theorem find_local_time_correct:
  assumes "tz_ok by_gmt data"
  shows "find_local_time data sentry by_gmt = Inr (local_time_at data sentry by_gmt)"
  by (rule find_local_time_spec [OF assms])

theorem find_local_time_correct_witness:
  "find_local_time \<lparr> transitions = [\<lparr>gmttime = 10, localtime = 20, localtime_idx = 1\<rparr>, \<lparr>gmttime = 30, localtime = 30, localtime_idx = 0\<rparr>],
       localtimes = [\<lparr>gmt_offset = 0, is_dst = False, arrb_idx = 0\<rparr>, \<lparr>gmt_offset = 10, is_dst = True, arrb_idx = 0\<rparr>],
       tz_abbreviation = [] \<rparr> \<lparr>gmttime = 29, localtime = 0, localtime_idx = 0\<rparr> True =
   Inr \<lparr>gmt_offset = 10, is_dst = True, arrb_idx = 0\<rparr>"
  by (subst find_local_time_correct) (simp_all add: tz_ok_def local_time_at_def Comp_less_def)

text \<open>The broken-down time without the zone.\<close>

definition tm_clock :: "tm \<Rightarrow> int \<times> int \<times> int \<times> int \<times> int \<times> int" where
  "tm_clock t = (tm_sec t, tm_min t, tm_hour t, tm_mday t, tm_mon t, tm_year t)"

lemma fixed_zone_lookup:
  "find_local_time (the (Timezone_fixed off name)) sentry g =
   Inr \<lparr> gmt_offset = off, is_dst = False, arrb_idx = 0 \<rparr>"
  by (simp add: find_local_time_def Timezone_fixed_def TimeData_init_def vec_at_def)

text \<open>
  Local time in a fixed zone. If \<^verbatim>\<open>timegm\<close> inverts \<^verbatim>\<open>gmtime_r\<close> on the broken-down time (as the C
  library documents) in the range of instants considered, then for a zone made from an offset and a
  name \<^verbatim>\<open>to_local_time\<close> succeeds, reports the offset and the name, and \<^verbatim>\<open>from_local_time\<close> recovers the
  instant from it.
\<close>

theorem fixed_zone_roundtrip:
  assumes "\<And>t tm. utc_range t \<Longrightarrow> tm_clock tm = tm_clock (gmtime_r t) \<Longrightarrow> timegm tm = t"
    and "utc_range (s + off)" and "CHR 0x00 \<notin> set name"
  shows "\<exists>lt. to_local_time gmtime_r (Timezone_fixed off name) s = Inr lt \<and>
              tm_gmtoff lt = off \<and> tm_zone lt = name \<and> tm_isdst lt = 0 \<and>
              from_local_time gmtime_r timegm (Timezone_fixed off name) lt = Inr s"
proof -
  let ?lt = "(gmtime_r (s + off))\<lparr> tm_isdst := 0, tm_gmtoff := off, tm_zone := name \<rparr>"
  have fixed: "Timezone_fixed off name = Some (the (Timezone_fixed off name))"
    "tz_abbreviation (the (Timezone_fixed off name)) = name"
    by (simp_all add: Timezone_fixed_def TimeData_init_def)
  have "takeWhile (\<lambda>c. c \<noteq> CHR 0x00) name = name" using assms(3) by auto
  then have "to_local_time gmtime_r (Timezone_fixed off name) s = Inr ?lt"
    by (subst fixed(1)) (simp add: to_local_time_def fixed_zone_lookup c_string_at_def fixed(2))
  moreover have "timegm ?lt = s + off"
    by (rule assms(1) [OF assms(2)]) (simp add: tm_clock_def)
  then have "from_local_time gmtime_r timegm (Timezone_fixed off name) ?lt = Inr s"
    by (subst fixed(1)) (simp add: from_local_time_def fixed_zone_lookup Let_def)
  ultimately show ?thesis by auto
qed

theorem fixed_zone_roundtrip_witness:
  "\<exists>lt. to_local_time (\<lambda>t. to_utc_time t True) (Timezone_fixed 28800 ''CST'') 0 = Inr lt \<and>
        tm_gmtoff lt = 28800 \<and> tm_zone lt = ''CST'' \<and> tm_isdst lt = 0 \<and>
        from_local_time (\<lambda>t. to_utc_time t True) from_utc_time (Timezone_fixed 28800 ''CST'') lt = Inr 0"
proof (rule fixed_zone_roundtrip)
  fix t tm assume "utc_range t" and eq: "tm_clock tm = tm_clock (to_utc_time t True)"
  have "from_utc_time tm = from_utc_time (to_utc_time t True)"
    using eq by (simp add: from_utc_time_def tm_clock_def)
  then show "from_utc_time tm = t" using from_to_utc [OF \<open>utc_range t\<close>] by simp
qed (simp_all add: utc_range_def)

text \<open>
  A \<^verbatim>\<open>Timezone\<close> built from a file is never invalid. \<^verbatim>\<open>read_timezone_file\<close> returns true on every path,
  so even a file that does not exist or does not start with the magic bytes gives a \<^verbatim>\<open>Timezone\<close> whose
  \<^verbatim>\<open>valid()\<close> is true; it has no local time types, and asking it for a local time reads the front of an
  empty vector.
\<close>

theorem bad_zone_file_still_valid:
  assumes "take 4 bs \<noteq> ''TZif''"
  shows "Timezone_file None = Inr (Some TimeData_init) \<and>
         Timezone_file (Some bs) = Inr (Some TimeData_init) \<and>
         timezone_valid (Some TimeData_init) \<and>
         to_local_time gmtime_r (Some TimeData_init) t = Inl (Undefined ''vector index'')"
proof -
  have "\<exists>what. read_tz_header bs = Inl (Throw what)"
    using assms by (cases "4 \<le> length bs") (auto simp: read_tz_header_def read_bytes_def)
  then have "\<exists>what. read_tz_body bs TimeData_init = (TimeData_init, Inl (Throw what))"
    by (auto simp: read_tz_body_def)
  then have "Timezone_file (Some bs) = Inr (Some TimeData_init)"
    by (auto simp: Timezone_file_def read_timezone_file_def)
  then show ?thesis
    by (simp add: Timezone_file_def read_timezone_file_def timezone_valid_def to_local_time_def
        find_local_time_def TimeData_init_def vec_at_def mdefined_def)
qed

theorem bad_zone_file_still_valid_witness:
  "Timezone_file (Some ''GIF89a'') = Inr (Some TimeData_init) \<and>
   to_local_time (\<lambda>t. to_utc_time t True) (Some TimeData_init) 0 = Inl (Undefined ''vector index'')"
  using bad_zone_file_still_valid [of "''GIF89a''" "\<lambda>t. to_utc_time t True" 0] by simp

end
