(* ===== verification/Digital.thy ===== *)
theory Digital
  imports Cformat
begin

text \<open>
  Digital.h: the conversions of integers to text that the log stream uses. Both are a \<^verbatim>\<open>do ... while\<close>
  loop that stores digits from the least significant one on and a reversal; the text they leave in the
  buffer (without the terminating NUL, which takes one byte more) is the result. They are shown equal
  to the decimal numeral and to the shortest hexadecimal numeral.
\<close>

definition digits :: string where "digits = ''9876543210123456789''"

definition digits_hex :: string where "digits_hex = ''0123456789ABCDEF''"

text \<open>\<^verbatim>\<open>zero[lsd]\<close>, where \<^verbatim>\<open>zero\<close> points to the tenth character: a negative remainder counts down.\<close>

definition zero_at :: "int \<Rightarrow> char" where
  "zero_at lsd = digits ! nat (9 + lsd)"

lemma sdiv_abs: "\<bar>(i :: int) sdiv 10\<bar> = \<bar>i\<bar> div 10"
  by (cases "i = 0") (auto simp: signed_divide_int_def abs_mult sgn_if)

lemma sdiv10_smaller: "(i :: int) sdiv 10 \<noteq> 0 \<Longrightarrow> \<bar>i sdiv 10\<bar> < \<bar>i\<bar>"
  unfolding sdiv_abs by (cases "i = 0") (auto simp: int_div_less_self)

function integer_digits :: "int \<Rightarrow> string" where
  "integer_digits i =
     (let lsd = i smod 10; i' = i sdiv 10
      in zero_at lsd # (if i' \<noteq> 0 then integer_digits i' else []))"
  by pat_completeness auto
termination
  by (relation "measure (\<lambda>i. nat \<bar>i\<bar>)") (auto simp: sdiv10_smaller)

declare integer_digits.simps [simp del]

definition integer_to_string :: "int \<Rightarrow> string" where
  "integer_to_string v = rev (integer_digits v @ (if v < 0 then ''-'' else []))"

fun hex_digits :: "nat \<Rightarrow> string" where
  "hex_digits i =
     (let lsd = i mod 16; i' = i div 16
      in digits_hex ! lsd # (if i' \<noteq> 0 then hex_digits i' else []))"

declare hex_digits.simps [simp del]

definition hex_to_string :: "64 word \<Rightarrow> string" where
  "hex_to_string v = rev (hex_digits (unat v))"

section \<open>Decimal\<close>

lemma zero_at_digit: "\<bar>lsd\<bar> < 10 \<Longrightarrow> zero_at lsd = digit (nat \<bar>lsd\<bar>)"
proof -
  have "\<forall>n \<in> set [0..<10]. digits ! (9 + n) = digit n \<and> digits ! (9 - n) = digit n"
    by code_simp
  then have d: "n < 10 \<Longrightarrow> digits ! (9 + n) = digit n \<and> digits ! (9 - n) = digit n" for n :: nat
    by simp
  assume "\<bar>lsd\<bar> < 10"
  then show ?thesis
  proof (cases "0 \<le> lsd")
    case True
    then show ?thesis
      using d [of "nat lsd"] \<open>\<bar>lsd\<bar> < 10\<close> by (simp add: zero_at_def nat_add_distrib)
  next
    case False
    then have "nat (9 + lsd) = 9 - nat (- lsd)" by simp
    then show ?thesis
      using d [of "nat (- lsd)"] \<open>\<bar>lsd\<bar> < 10\<close> False by (simp add: zero_at_def)
  qed
qed

lemma smod_abs: "\<bar>(i :: int) smod 10\<bar> = \<bar>i\<bar> mod 10"
  by (cases "i = 0") (auto simp: signed_modulo_int_def abs_mult sgn_if)

lemma integer_digits_eq: "rev (integer_digits i) = dec_nat (nat \<bar>i\<bar>)"
proof (induction i rule: integer_digits.induct)
  case (1 i)
  have lsd: "zero_at (i smod 10) = digit (nat \<bar>i\<bar> mod 10)"
    using zero_at_digit [of "i smod 10"] smod_abs [of i] by (simp add: nat_mod_distrib)
  have q: "nat \<bar>i sdiv 10\<bar> = nat \<bar>i\<bar> div 10"
    using sdiv_abs [of i] by (simp add: nat_div_distrib)
  show ?case
  proof (cases "i sdiv 10 = 0")
    case True
    then have "nat \<bar>i\<bar> < 10" using q by (simp add: div_eq_0_iff)
    then show ?thesis
      using True lsd by (subst integer_digits.simps) (simp add: Let_def dec_nat_small)
  next
    case False
    then have "nat \<bar>i\<bar> div 10 \<noteq> 0" using q by linarith
    then have "10 \<le> nat \<bar>i\<bar>" by (simp add: div_eq_0_iff)
    then have "dec_nat (nat \<bar>i\<bar>) = rev (integer_digits (i sdiv 10)) @ [zero_at (i smod 10)]"
      using 1 [OF refl refl False] q lsd by (simp only: dec_nat_big)
    then show ?thesis
      using False by (subst integer_digits.simps) (simp add: Let_def)
  qed
qed

lemma integer_to_string_dec: "integer_to_string v = dec_int v"
  using integer_digits_eq [of v] by (simp add: integer_to_string_def dec_int_def)

lemma length_integer_to_string:
  assumes "- (2 ^ 63) \<le> v" and "v < 2 ^ 64"
  shows "length (integer_to_string v) \<le> 20"
proof -
  have "nat \<bar>v\<bar> < 10 ^ 20" using assms by simp
  moreover have "v < 0 \<Longrightarrow> nat (- v) < 10 ^ 19" using assms by simp
  ultimately show ?thesis
    using length_dec_nat [of "nat \<bar>v\<bar>" 20] length_dec_nat [of "nat (- v)" 19]
    by (auto simp: integer_to_string_dec dec_int_def)
qed

section \<open>Hexadecimal\<close>

definition hex_digit_val :: "char \<Rightarrow> nat" where
  "hex_digit_val c = (if c \<in> set ''0123456789'' then of_char c - 48 else of_char c - 55)"

definition hex_val :: "string \<Rightarrow> nat" where
  "hex_val s = foldl (\<lambda>a c. 16 * a + hex_digit_val c) 0 s"

lemma hex_digit_val_nth: "n < 16 \<Longrightarrow> hex_digit_val (digits_hex ! n) = n"
proof -
  have "\<forall>n \<in> set [0..<16]. hex_digit_val (digits_hex ! n) = n" by code_simp
  then show "n < 16 \<Longrightarrow> hex_digit_val (digits_hex ! n) = n" by simp
qed

lemma hex_val_hex_digits: "hex_val (rev (hex_digits n)) = n"
proof (induction n rule: hex_digits.induct)
  case (1 n)
  show ?case
    using 1 hex_digit_val_nth [of "n mod 16"]
    by (cases "n div 16 = 0") (auto simp: hex_digits.simps [of n] hex_val_def Let_def)
qed

lemma length_hex_digits: "n < 16 ^ k \<Longrightarrow> 0 < k \<Longrightarrow> length (hex_digits n) \<le> k"
proof (induction n arbitrary: k rule: hex_digits.induct)
  case (1 n)
  show ?case
  proof (cases "n div 16 = 0")
    case True
    then show ?thesis using 1 by (simp add: hex_digits.simps [of n] Let_def)
  next
    case False
    then obtain k' where k: "k = Suc k'" "0 < k'"
      using 1(2,3) by (cases k; cases "k - 1") auto
    then have "n div 16 < 16 ^ k'" using 1(2) by auto
    then show ?thesis using 1(1) [OF refl refl False, of k'] False k by (simp add: hex_digits.simps [of n] Let_def)
  qed
qed

lemma length_hex_to_string: "length (hex_to_string v) \<le> 16"
proof -
  have "unat v < 16 ^ 16" using unsigned_less [of v, where 'a = nat] by simp
  then show ?thesis using length_hex_digits [of "unat v" 16] by (simp add: hex_to_string_def)
qed

section \<open>Properties\<close>

text \<open>
  Integer formatting is correct for every integer type. For any value of up to 64 bits, signed (the
  most negative one included, whose absolute value does not fit) or unsigned, \<^verbatim>\<open>integer_to_string\<close>
  produces the usual decimal numeral in at most 20 characters; \<^verbatim>\<open>hex_to_string\<close> produces at most 16
  hexadecimal digits that denote the value. The loops terminate.
\<close>

theorem integer_to_string_correct:
  assumes "- (2 ^ 63) \<le> v" and "v < 2 ^ 64"
  shows "integer_to_string v = dec_int v \<and> length (integer_to_string v) \<le> 20 \<and>
         hex_val (hex_to_string p) = unat p \<and> length (hex_to_string p) \<le> 16"
  using integer_to_string_dec length_integer_to_string [OF assms] length_hex_to_string
  by (simp add: hex_to_string_def hex_val_hex_digits)

theorem integer_to_string_correct_witness:
  "integer_to_string (- (2 ^ 63)) = dec_int (- (2 ^ 63)) \<and> length (integer_to_string (- (2 ^ 63))) \<le> 20 \<and>
   hex_val (hex_to_string 0xBEEF) = unat (0xBEEF :: 64 word)"
  using integer_to_string_correct [of "- (2 ^ 63)" "0xBEEF"] by force

end
