(* ===== verification/Timestamp.thy ===== *)
theory Timestamp
  imports Timezone
begin

text \<open>
  Timestamp.h and Timestamp.cc: microseconds since the epoch, an \<^verbatim>\<open>int64_t\<close> (an \<open>int\<close> here: the values
  stay within 292000 years of the epoch). The conversion of a \<^verbatim>\<open>double\<close> number of seconds to
  microseconds, \<^verbatim>\<open>static_cast<int64_t>(seconds * kMicroSecondsPerSecond)\<close>, is the argument \<open>to_micros\<close> of
  \<open>add_second\<close>: floating point is not modelled.
\<close>

type_synonym timestamp = int

definition kMicroSecondsPerSecond :: int where "kMicroSecondsPerSecond = 1000 * 1000"

definition ts_valid :: "timestamp \<Rightarrow> bool" where
  "ts_valid t \<longleftrightarrow> t > 0"

definition ts_invalid :: timestamp where "ts_invalid = 0"

definition seconds_since_epoch :: "timestamp \<Rightarrow> int" where
  "seconds_since_epoch t = t sdiv kMicroSecondsPerSecond"

definition from_unix_time :: "int \<Rightarrow> int \<Rightarrow> timestamp" where
  "from_unix_time t microseconds = t * kMicroSecondsPerSecond + microseconds"

definition ts_now :: "int \<Rightarrow> int \<Rightarrow> timestamp" where
  "ts_now tv_sec tv_usec = tv_sec * kMicroSecondsPerSecond + tv_usec"

definition add_second :: "('d \<Rightarrow> int) \<Rightarrow> timestamp \<Rightarrow> 'd \<Rightarrow> timestamp" where
  "add_second to_micros t seconds = t + to_micros seconds"

definition ts_to_string :: "timestamp \<Rightarrow> string" where
  "ts_to_string t =
     (let seconds = t sdiv kMicroSecondsPerSecond;
          microseconds = t smod kMicroSecondsPerSecond
      in snprintf 31 (dec_int seconds @ ''.'' @ fmt_0d 6 microseconds))"

text \<open>The format \<^verbatim>\<open>%4d%02d%02d %02d:%02d:%02d\<close>, which LogLine.cc uses as well.\<close>

definition fmt_tm :: "tm \<Rightarrow> string" where
  "fmt_tm tm = fmt_d 4 (tm_year tm + 1900) @ fmt_0d 2 (tm_mon tm + 1) @ fmt_0d 2 (tm_mday tm) @ '' '' @
               fmt_0d 2 (tm_hour tm) @ '':'' @ fmt_0d 2 (tm_min tm) @ '':'' @ fmt_0d 2 (tm_sec tm)"

definition ts_to_formatted_string :: "(int \<Rightarrow> tm) \<Rightarrow> bool \<Rightarrow> timestamp \<Rightarrow> string" where
  "ts_to_formatted_string gmtime_r show_micro_seconds t =
     (let seconds = t sdiv kMicroSecondsPerSecond;
          tm_time = gmtime_r seconds
      in if show_micro_seconds
         then snprintf 64 (fmt_tm tm_time @ ''.'' @ fmt_0d 6 (cast_int32 (t smod kMicroSecondsPerSecond)))
         else snprintf 64 (fmt_tm tm_time))"

lemma from_unix_time_seconds:
  "0 \<le> t \<Longrightarrow> 0 \<le> us \<Longrightarrow> us < kMicroSecondsPerSecond \<Longrightarrow> seconds_since_epoch (from_unix_time t us) = t"
  by (simp add: seconds_since_epoch_def from_unix_time_def kMicroSecondsPerSecond_def sdiv_nonneg)

text \<open>A broken-down time with a four-digit year.\<close>

definition tm_plain :: "tm \<Rightarrow> bool" where
  "tm_plain t \<longleftrightarrow> - 900 \<le> tm_year t \<and> tm_year t < 8100 \<and> 0 \<le> tm_mon t \<and> tm_mon t < 12 \<and>
     1 \<le> tm_mday t \<and> tm_mday t \<le> 31 \<and> 0 \<le> tm_hour t \<and> tm_hour t < 24 \<and>
     0 \<le> tm_min t \<and> tm_min t < 60 \<and> 0 \<le> tm_sec t \<and> tm_sec t \<le> 60"

lemma length_fmt_tm: "tm_plain t \<Longrightarrow> length (fmt_tm t) = 17"
proof -
  assume t: "tm_plain t"
  let ?y = "tm_year t + 1900"
  have "1000 \<le> nat ?y" "nat ?y < 10000" using t by (auto simp: tm_plain_def)
  then have "length (dec_nat (nat ?y)) = 4"
    using length_dec_nat [of "nat ?y" 4] length_dec_nat_ge [of 3 "nat ?y"] by simp
  then have "length (fmt_d 4 ?y) = 4" using t by (simp add: fmt_d_def dec_int_def tm_plain_def)
  then show ?thesis using t by (simp add: fmt_tm_def length_fmt_0d tm_plain_def)
qed

end
