(* ===== verification/Logging.thy ===== *)
theory Logging
  imports Digital Timestamp
begin

text \<open>
  The front end of logging: the fixed-size character buffer (FixedBuffer.h), the formatting stream
  (LogStream.h, LogStream.cc) and a log line (LogLine.h, LogLine.cc). A store outside the character
  array is \<open>Undefined\<close>; pointers into the array are offsets. The line is what \<^verbatim>\<open>g_output\<close> receives.
\<close>

section \<open>FixedBuffer\<close>

record fixed_buffer =
  m_data :: "char list"
  m_cur :: nat

definition FixedBuffer_init :: "nat \<Rightarrow> fixed_buffer" where
  "FixedBuffer_init BUF_SIZE = \<lparr> m_data = replicate BUF_SIZE (CHR 0x00), m_cur = 0 \<rparr>"

definition fb_avail :: "fixed_buffer \<Rightarrow> int" where
  "fb_avail b = int (length (m_data b)) - int (m_cur b)"

definition fb_length :: "fixed_buffer \<Rightarrow> nat" where
  "fb_length b = m_cur b"

text \<open>A store of \<open>d\<close> at the current position.\<close>

definition fb_store :: "char list \<Rightarrow> fixed_buffer \<Rightarrow> fixed_buffer res" where
  "fb_store d b =
     mdefined (m_cur b + length d \<le> length (m_data b)) ''store behind m_data''
       (Inr (b\<lparr>m_data := copy_at (m_data b) (m_cur b) d\<rparr>))"

definition cur_add :: "nat \<Rightarrow> fixed_buffer \<Rightarrow> fixed_buffer" where
  "cur_add len b = b\<lparr>m_cur := m_cur b + len\<rparr>"

definition fb_append :: "char list \<Rightarrow> fixed_buffer \<Rightarrow> fixed_buffer res" where
  "fb_append buf b =
     (if fb_avail b > int (length buf)
      then rbind (fb_store buf b) (\<lambda>b. Inr (cur_add (length buf) b))
      else Inr b)"

definition reset_cur :: "fixed_buffer \<Rightarrow> fixed_buffer" where
  "reset_cur b = b\<lparr>m_cur := 0\<rparr>"

definition reset_buffer :: "fixed_buffer \<Rightarrow> fixed_buffer" where
  "reset_buffer b = b\<lparr>m_data := replicate (length (m_data b)) (CHR 0x00)\<rparr>"

definition fb_reset :: "fixed_buffer \<Rightarrow> fixed_buffer" where
  "fb_reset b = reset_buffer (reset_cur b)"

definition fb_to_string :: "fixed_buffer \<Rightarrow> string" where
  "fb_to_string b = take (fb_length b) (m_data b)"

section \<open>LogStream\<close>

definition kLogBufferSize :: nat where "kLogBufferSize = 1000"
definition kMaxNumericCharNum :: int where "kMaxNumericCharNum = 32"

text \<open>
  The operands of \<^verbatim>\<open><<\<close>. Every integer type is shown as its value; a C string may be null; a
  \<^verbatim>\<open>double\<close> is the text that \<^verbatim>\<open>snprintf\<close> makes of it with \<^verbatim>\<open>%.12g\<close>.
\<close>

datatype log_item =
    LBool bool | LPtr "64 word" | LInt int | LDouble string | LChar char | LCStr "string option" | LStr string

definition log_integer :: "int \<Rightarrow> fixed_buffer \<Rightarrow> fixed_buffer res" where
  "log_integer v b =
     (if fb_avail b \<ge> kMaxNumericCharNum
      then let txt = integer_to_string v
           in rbind (fb_store (txt @ [CHR 0x00]) b) (\<lambda>b. Inr (cur_add (length txt) b))
      else Inr b)"

definition log_pointer :: "64 word \<Rightarrow> fixed_buffer \<Rightarrow> fixed_buffer res" where
  "log_pointer v b =
     (if fb_avail b \<ge> kMaxNumericCharNum
      then let txt = hex_to_string v
           in rbind (fb_store (''0x'' @ txt @ [CHR 0x00]) b) (\<lambda>b. Inr (cur_add (length txt + 2) b))
      else Inr b)"

definition log_double :: "string \<Rightarrow> fixed_buffer \<Rightarrow> fixed_buffer res" where
  "log_double txt b =
     (if fb_avail b \<ge> kMaxNumericCharNum
      then rbind (fb_store (snprintf (nat kMaxNumericCharNum) txt @ [CHR 0x00]) b) (\<lambda>b. Inr (cur_add (length txt) b))
      else Inr b)"

fun log_put :: "log_item \<Rightarrow> fixed_buffer \<Rightarrow> fixed_buffer res" where
  "log_put (LBool v) b = fb_append (if v then ''1'' else ''0'') b"
| "log_put (LPtr p) b = log_pointer p b"
| "log_put (LInt v) b = log_integer v b"
| "log_put (LDouble txt) b = log_double txt b"
| "log_put (LChar c) b = fb_append [c] b"
| "log_put (LCStr None) b = fb_append ''(null)'' b"
| "log_put (LCStr (Some s)) b = fb_append s b"
| "log_put (LStr s) b = fb_append s b"

fun log_puts :: "log_item list \<Rightarrow> fixed_buffer \<Rightarrow> fixed_buffer res" where
  "log_puts [] b = Inr b"
| "log_puts (x # xs) b = rbind (log_put x b) (log_puts xs)"

section \<open>LogLine\<close>

text \<open>\<^verbatim>\<open>BaseName\<close>: the part of a path behind the last slash.\<close>

definition BaseName :: "string \<Rightarrow> string" where
  "BaseName filename = rev (takeWhile (\<lambda>c. c \<noteq> CHR ''/'') (rev filename))"

datatype LogLevel = TRACE | DEBUG | INFO | WARN | ERROR | FATAL

text \<open>The thread-local cache of the formatted second.\<close>

record log_cache =
  t_time :: string
  t_last_second :: int

text \<open>\<^verbatim>\<open>FormattedString\<close>: its 32 characters and the length \<^verbatim>\<open>snprintf\<close> returned.\<close>

definition FormattedString :: "string \<Rightarrow> (string \<times> nat) res" where
  "FormattedString txt =
     massert (length txt \<le> 32) ''m_len_0 <= sizeof(m_chars)''
       (Inr (let s = snprintf 32 txt in s @ replicate (32 - length s) (CHR 0x00), length txt))"

definition log_time ::
    "(int \<Rightarrow> tm) \<Rightarrow> TimeData option \<Rightarrow> timestamp \<Rightarrow> log_cache \<Rightarrow> fixed_buffer \<Rightarrow> (log_cache \<times> fixed_buffer) res" where
  "log_time gmtime_r tz now cache b =
     (let seconds = now sdiv kMicroSecondsPerSecond;
          microseconds = cast_int32 (now smod kMicroSecondsPerSecond)
      in rbind (if seconds \<noteq> t_last_second cache
                then rbind (if timezone_valid tz then to_local_time gmtime_r tz seconds else Inr (gmtime_r seconds))
                       (\<lambda>tm_time. massert (length (fmt_tm tm_time) = 17) ''len == 17''
                          (Inr \<lparr> t_time = snprintf 64 (fmt_tm tm_time), t_last_second = seconds \<rparr>))
                else Inr cache)
         (\<lambda>cache.
            let (fmt, len) = (if timezone_valid tz then (''.'' @ fmt_0d 6 microseconds @ '' '', 8)
                              else (''.'' @ fmt_0d 6 microseconds @ ''Z '', 9))
            in rbind (FormattedString fmt) (\<lambda>(chars, n).
               massert (n = len) ''us.length_0() == len''
               (rbind (log_put (LStr (take 17 (t_time cache))) b) (\<lambda>b.
                rbind (log_put (LStr (take len chars)) b) (\<lambda>b. Inr (cache, b)))))))"

text \<open>
  Construction (type, time), the user's items and destruction (errno, source position, output). The
  result is the cache, the text given to \<^verbatim>\<open>g_output\<close> and whether the process aborts.
\<close>

definition log_line ::
    "(int \<Rightarrow> tm) \<Rightarrow> (int \<Rightarrow> string) \<Rightarrow> TimeData option \<Rightarrow> timestamp \<Rightarrow> int \<Rightarrow> log_cache \<Rightarrow>
     LogLevel \<Rightarrow> string option \<Rightarrow> string \<Rightarrow> int \<Rightarrow> log_item list \<Rightarrow> (log_cache \<times> string \<times> bool) res" where
  "log_line gmtime_r strerror tz now errno cache level type_name src line items =
     rbind (case type_name of None \<Rightarrow> Inr (FixedBuffer_init kLogBufferSize)
            | Some n \<Rightarrow> log_put (LCStr (Some n)) (FixedBuffer_init kLogBufferSize)) (\<lambda>b.
     rbind (log_time gmtime_r tz now cache b) (\<lambda>(cache, b).
     rbind (log_puts items b) (\<lambda>b.
     rbind (if errno \<noteq> 0
            then log_puts [LCStr (Some '' [ERRNO:''), LInt errno, LCStr (Some '']''), LCStr (Some (strerror errno)),
                           LCStr (Some '' '')] b
            else Inr b) (\<lambda>b.
     rbind (log_puts [LCStr (Some '' - ''), LStr (BaseName src), LChar (CHR '':''), LInt line, LChar (CHR 0x0A)] b) (\<lambda>b.
     Inr (cache, fb_to_string b, level = FATAL))))))"

section \<open>The stream never leaves its buffer\<close>

definition fb_inv :: "nat \<Rightarrow> fixed_buffer \<Rightarrow> bool" where
  "fb_inv n b \<longleftrightarrow> length (m_data b) = n \<and> m_cur b < n"

text \<open>The abstract stream: the text of an item is appended when it fits with one byte to spare, numbers
  only when 32 bytes are left; otherwise the item is dropped.\<close>

fun item_text :: "log_item \<Rightarrow> string" where
  "item_text (LBool v) = (if v then ''1'' else ''0'')"
| "item_text (LPtr p) = ''0x'' @ hex_to_string p"
| "item_text (LInt v) = dec_int v"
| "item_text (LDouble txt) = txt"
| "item_text (LChar c) = [c]"
| "item_text (LCStr None) = ''(null)''"
| "item_text (LCStr (Some s)) = s"
| "item_text (LStr s) = s"

fun item_room :: "log_item \<Rightarrow> nat" where
  "item_room (LPtr p) = 32"
| "item_room (LInt v) = 32"
| "item_room (LDouble txt) = 32"
| "item_room x = length (item_text x) + 1"

fun item_ok :: "log_item \<Rightarrow> bool" where
  "item_ok (LInt v) = (- (2 ^ 63) \<le> v \<and> v < 2 ^ 64)"
| "item_ok (LDouble txt) = (length txt < 32)"
| "item_ok x = True"

fun abs_puts :: "nat \<Rightarrow> log_item list \<Rightarrow> string \<Rightarrow> string" where
  "abs_puts n [] s = s"
| "abs_puts n (x # xs) s =
     abs_puts n xs (if length s + item_room x \<le> n then s @ item_text x else s)"

lemma fb_store_ok:
  assumes "fb_inv n b" and "m_cur b + length d \<le> n"
  shows "fb_store d b = Inr (b\<lparr>m_data := copy_at (m_data b) (m_cur b) d\<rparr>)"
  using assms by (simp add: fb_store_def fb_inv_def)

lemma fb_store_add:
  assumes "fb_inv n b" and "m_cur b + length d < n" and "length z \<le> 1"
  shows "\<exists>b'. rbind (fb_store (d @ z) b) (\<lambda>b. Inr (cur_add (length d) b)) = Inr b' \<and> fb_inv n b' \<and>
              fb_to_string b' = fb_to_string b @ d"
proof -
  let ?xs = "copy_at (m_data b) (m_cur b) (d @ z)"
  have l: "length (m_data b) = n" "m_cur b < n" using assms(1) by (simp_all add: fb_inv_def)
  have "fb_store (d @ z) b = Inr (b\<lparr>m_data := ?xs\<rparr>)"
    using assms by (intro fb_store_ok) auto
  moreover have "take (m_cur b + length d) ?xs = take (m_cur b) (m_data b) @ d"
    using l assms(2) by (simp add: copy_at_def)
  moreover have "length ?xs = n" using l assms(2,3) by simp
  ultimately show ?thesis
    using l assms(2) by (simp add: cur_add_def fb_inv_def fb_to_string_def fb_length_def)
qed

lemma length_fb_to_string: "fb_inv n b \<Longrightarrow> length (fb_to_string b) = m_cur b"
  by (simp add: fb_inv_def fb_to_string_def fb_length_def)

lemma fb_append_ok:
  assumes "fb_inv n b"
  shows "\<exists>b'. fb_append d b = Inr b' \<and> fb_inv n b' \<and>
     fb_to_string b' = (if length (fb_to_string b) + (length d + 1) \<le> n then fb_to_string b @ d else fb_to_string b)"
  using fb_store_add [OF assms, of d "[]"] assms
  by (auto simp: fb_append_def fb_avail_def length_fb_to_string [OF assms]) (auto simp: fb_inv_def)

lemma log_put_ok:
  assumes "fb_inv n b" and "item_ok x"
  shows "\<exists>b'. log_put x b = Inr b' \<and> fb_inv n b' \<and>
     fb_to_string b' = (if length (fb_to_string b) + item_room x \<le> n then fb_to_string b @ item_text x else fb_to_string b)"
proof -
  note len = length_fb_to_string [OF assms(1)]
  have avail: "(fb_avail b \<ge> kMaxNumericCharNum) = (m_cur b + 32 \<le> n)"
    using assms(1) by (auto simp: fb_avail_def kMaxNumericCharNum_def fb_inv_def)
  have plain: ?thesis if "log_put x b = fb_append (item_text x) b" "item_room x = length (item_text x) + 1"
    using fb_append_ok [OF assms(1), of "item_text x"] unfolding that .
  show ?thesis
  proof (cases x)
    case (LInt v)
    have l: "length (dec_int v) \<le> 20"
      using length_integer_to_string [of v] assms(2) LInt by (simp add: integer_to_string_dec)
    show ?thesis
      using fb_store_add [OF assms(1), of "dec_int v" "[CHR 0x00]"] l len avail assms(1) LInt
      by (auto simp: log_integer_def integer_to_string_dec Let_def)
  next
    case (LPtr p)
    show ?thesis
      using fb_store_add [OF assms(1), of "''0x'' @ hex_to_string p" "[CHR 0x00]"] length_hex_to_string [of p]
        len avail assms(1) LPtr
      by (auto simp: log_pointer_def Let_def)
  next
    case (LDouble tx)
    show ?thesis
      using fb_store_add [OF assms(1), of tx "[CHR 0x00]"] len avail assms LDouble
      by (auto simp: log_double_def snprintf_def kMaxNumericCharNum_def)
  next
    case (LCStr s)
    then show ?thesis by (intro plain; cases s) simp_all
  next
    case (LBool v)
    then show ?thesis by (intro plain) simp_all
  next
    case (LChar c)
    then show ?thesis by (intro plain) simp_all
  next
    case (LStr s)
    then show ?thesis by (intro plain) simp_all
  qed
qed

lemma log_puts_ok:
  "fb_inv n b \<Longrightarrow> list_all item_ok xs \<Longrightarrow>
   \<exists>b'. log_puts xs b = Inr b' \<and> fb_inv n b' \<and> fb_to_string b' = abs_puts n xs (fb_to_string b)"
proof (induction xs arbitrary: b)
  case (Cons x xs)
  then obtain b1 where "log_put x b = Inr b1" "fb_inv n b1"
    "fb_to_string b1 = (if length (fb_to_string b) + item_room x \<le> n then fb_to_string b @ item_text x else fb_to_string b)"
    using log_put_ok [of n b x] by auto
  then show ?case using Cons.IH [of b1] Cons.prems(2) by (auto split: if_splits)
qed simp

text \<open>
  C35: The log stream never writes outside its buffer. For any sequence of items (booleans, pointers,
  integers of up to 64 bits, doubles, characters, C strings including a null pointer, strings) streamed
  into a \<^verbatim>\<open>FixedBuffer\<close> of any positive size, no store leaves the character array, and the text is the
  concatenation of the items' texts, where an item that does not fit (a number: when fewer than 32
  bytes are left) is dropped as a whole.
\<close>

theorem log_stream_safe:
  assumes "0 < n" and "list_all item_ok xs"
  shows "\<exists>b. log_puts xs (FixedBuffer_init n) = Inr b \<and> length (m_data b) = n \<and> m_cur b < n \<and>
             fb_to_string b = abs_puts n xs []"
proof -
  have "fb_inv n (FixedBuffer_init n)" "fb_to_string (FixedBuffer_init n) = []"
    using assms(1) by (simp_all add: fb_inv_def FixedBuffer_init_def fb_to_string_def fb_length_def)
  then show ?thesis using log_puts_ok [of n "FixedBuffer_init n" xs] assms(2) by (auto simp: fb_inv_def)
qed

theorem log_stream_safe_witness:
  "\<exists>b. log_puts [LStr ''n='', LInt (- 7), LChar (CHR '' ''), LCStr None, LPtr 255, LBool True] (FixedBuffer_init 1000) = Inr b \<and>
       m_cur b < 1000"
  using log_stream_safe [of 1000 "[LStr ''n='', LInt (- 7), LChar (CHR '' ''), LCStr None, LPtr 255, LBool True]"]
  by auto

section \<open>A whole line\<close>

definition zone_tm :: "(int \<Rightarrow> tm) \<Rightarrow> int \<Rightarrow> string \<Rightarrow> int \<Rightarrow> tm" where
  "zone_tm gmtime_r off name s = (gmtime_r (s + off))\<lparr> tm_isdst := 0, tm_gmtoff := off, tm_zone := name \<rparr>"

lemma to_local_time_fixed:
  "CHR 0x00 \<notin> set name \<Longrightarrow> to_local_time gmtime_r (Timezone_fixed off name) s = Inr (zone_tm gmtime_r off name s)"
proof -
  assume "CHR 0x00 \<notin> set name"
  then have "takeWhile (\<lambda>c. c \<noteq> CHR 0x00) name = name" by auto
  then show ?thesis
    using fixed_zone_lookup [of off name]
    by (simp add: to_local_time_def Timezone_fixed_def TimeData_init_def c_string_at_def zone_tm_def)
qed

text \<open>The cache holds the formatted local time of its second.\<close>

definition cache_ok :: "(int \<Rightarrow> tm) \<Rightarrow> int \<Rightarrow> string \<Rightarrow> log_cache \<Rightarrow> bool" where
  "cache_ok gmtime_r off name c \<longleftrightarrow> t_time c = fmt_tm (zone_tm gmtime_r off name (t_last_second c))"

definition time_items :: "(int \<Rightarrow> tm) \<Rightarrow> int \<Rightarrow> string \<Rightarrow> timestamp \<Rightarrow> log_item list" where
  "time_items gmtime_r off name now =
     [LStr (fmt_tm (zone_tm gmtime_r off name (now div 1000000))),
      LStr (''.'' @ fmt_0d 6 (now mod 1000000) @ '' '')]"

definition line_items :: "(int \<Rightarrow> string) \<Rightarrow> int \<Rightarrow> string \<Rightarrow> int \<Rightarrow> log_item list \<Rightarrow> log_item list" where
  "line_items strerror errno src line items =
     items @ (if errno \<noteq> 0 then [LCStr (Some '' [ERRNO:''), LInt errno, LCStr (Some '']''),
                                 LCStr (Some (strerror errno)), LCStr (Some '' '')] else []) @
     [LCStr (Some '' - ''), LStr (BaseName src), LChar (CHR '':''), LInt line, LChar (CHR 0x0A)]"

lemma abs_puts_append: "abs_puts n (xs @ ys) s = abs_puts n ys (abs_puts n xs s)"
  by (induction xs arbitrary: s) auto

lemma log_time_ok:
  assumes "fb_inv n b" and "cache_ok gmtime_r off name c" and "\<And>s. tm_plain (gmtime_r s)"
    and "CHR 0x00 \<notin> set name" and "0 \<le> now"
  shows "\<exists>c' b'. log_time gmtime_r (Timezone_fixed off name) now c b = Inr (c', b') \<and>
           cache_ok gmtime_r off name c' \<and> fb_inv n b' \<and>
           fb_to_string b' = abs_puts n (time_items gmtime_r off name now) (fb_to_string b)"
proof -
  let ?s = "now div 1000000" and ?u = "now mod 1000000"
  define tt where "tt = fmt_tm (zone_tm gmtime_r off name ?s)"
  define us where "us = ''.'' @ fmt_0d 6 ?u @ '' ''"
  have "?u < 1000000" by simp
  then have "?u < 2147483648" by linarith
  then have "fits_int32 ?u" by (intro fits_int32_small) simp_all
  then have sd: "now sdiv kMicroSecondsPerSecond = ?s" "cast_int32 (now smod kMicroSecondsPerSecond) = ?u"
    using assms(5) by (simp_all add: kMicroSecondsPerSecond_def sdiv_nonneg smod_nonneg cast_int32_fits)
  have "tm_plain (zone_tm gmtime_r off name s)" for s
    using assms(3) [of "s + off"] by (simp add: tm_plain_def zone_tm_def)
  then have l17: "length (fmt_tm (zone_tm gmtime_r off name s)) = 17" for s by (rule length_fmt_tm)
  have lus: "length us = 8" using length_fmt_0d [of ?u 6] by (simp add: us_def)
  obtain b1 where b1: "log_put (LStr tt) b = Inr b1" "fb_inv n b1"
      "fb_to_string b1 = abs_puts n [LStr tt] (fb_to_string b)"
    using log_put_ok [OF assms(1), of "LStr tt"] by auto
  obtain b2 where b2: "log_put (LStr us) b1 = Inr b2" "fb_inv n b2"
      "fb_to_string b2 = abs_puts n [LStr us] (fb_to_string b1)"
    using log_put_ok [OF b1(2), of "LStr us"] by auto
  have valid: "timezone_valid (Timezone_fixed off name)"
    by (simp add: timezone_valid_def Timezone_fixed_def)
  have cache: "(if ?s \<noteq> t_last_second c
        then rbind (if timezone_valid (Timezone_fixed off name) then to_local_time gmtime_r (Timezone_fixed off name) ?s
                    else Inr (gmtime_r ?s))
               (\<lambda>tm_time. massert (length (fmt_tm tm_time) = 17) ''len == 17''
                  (Inr \<lparr> t_time = snprintf 64 (fmt_tm tm_time), t_last_second = ?s \<rparr>))
        else Inr c) = Inr \<lparr> t_time = tt, t_last_second = ?s \<rparr>"
    using assms(2) l17 by (auto simp: cache_ok_def tt_def valid to_local_time_fixed [OF assms(4)] snprintf_def)
  have fs: "FormattedString (CHR ''.'' # fmt_0d 6 ?u @ '' '') = Inr (us @ replicate 24 (CHR 0x00), 8)"
    using lus by (simp add: FormattedString_def snprintf_def us_def)
  have "log_time gmtime_r (Timezone_fixed off name) now c b = Inr (\<lparr> t_time = tt, t_last_second = ?s \<rparr>, b2)"
    unfolding log_time_def Let_def sd cache
    using b1(1) b2(1) lus l17 by (simp add: valid fs tt_def)
  then show ?thesis
    using b1 b2 by (simp add: cache_ok_def tt_def us_def time_items_def)
qed

lemma FixedBuffer_init_ok: "0 < n \<Longrightarrow> fb_inv n (FixedBuffer_init n) \<and> fb_to_string (FixedBuffer_init n) = []"
  by (simp add: fb_inv_def FixedBuffer_init_def fb_to_string_def fb_length_def)

lemma log_puts_Nil [simp]: "log_puts [] = Inr"
  by (simp add: fun_eq_iff)

lemma log_puts_append: "log_puts (xs @ ys) = (\<lambda>b. rbind (log_puts xs b) (log_puts ys))"
proof (induction xs)
  case (Cons x xs)
  show ?case by (rule ext) (simp only: append_Cons log_puts.simps rbind_assoc Cons.IH)
qed simp

text \<open>A line always fits the buffer it is formatted in.\<close>

lemma log_line_ok:
  assumes "cache_ok gmtime_r off name c" and "\<And>s. tm_plain (gmtime_r s)"
    and "CHR 0x00 \<notin> set name" and "0 \<le> now"
    and "list_all item_ok items" and "fits_int32 errno" and "fits_int32 line"
  shows "\<exists>c' out. log_line gmtime_r strerror (Timezone_fixed off name) now errno c level type_name src line items =
             Inr (c', out, level = FATAL) \<and> cache_ok gmtime_r off name c' \<and>
           out = abs_puts 1000 ((case type_name of None \<Rightarrow> [] | Some t \<Rightarrow> [LCStr (Some t)]) @
                   time_items gmtime_r off name now @ line_items strerror errno src line items) [] \<and> length out < kLogBufferSize"
proof -
  let ?ty = "case type_name of None \<Rightarrow> [] | Some t \<Rightarrow> [LCStr (Some t)]"
  let ?b = "FixedBuffer_init kLogBufferSize"
  have init: "fb_inv 1000 ?b" "fb_to_string ?b = []"
    using FixedBuffer_init_ok [of 1000] by (simp_all add: kLogBufferSize_def)
  have "list_all item_ok ?ty" by (simp split: option.split)
  then obtain b1 where b1: "log_puts ?ty ?b = Inr b1" "fb_inv 1000 b1" "fb_to_string b1 = abs_puts 1000 ?ty []"
    using log_puts_ok [OF init(1), of ?ty] init(2) by auto
  obtain c' b2 where b2: "log_time gmtime_r (Timezone_fixed off name) now c b1 = Inr (c', b2)"
      "cache_ok gmtime_r off name c'" "fb_inv 1000 b2"
      "fb_to_string b2 = abs_puts 1000 (time_items gmtime_r off name now) (fb_to_string b1)"
    using log_time_ok [OF b1(2) assms(1-4)] by blast
  have "list_all item_ok (line_items strerror errno src line items)"
    using assms(5-7) by (simp add: line_items_def fits_int32_def)
  then obtain b3 where b3: "log_puts (line_items strerror errno src line items) b2 = Inr b3" "fb_inv 1000 b3"
      "fb_to_string b3 = abs_puts 1000 (line_items strerror errno src line items) (fb_to_string b2)"
    using log_puts_ok [OF b2(3)] by blast
  have ty: "(case type_name of None \<Rightarrow> Inr ?b | Some n \<Rightarrow> log_put (LCStr (Some n)) ?b) = log_puts ?ty ?b"
    by (simp split: option.split)
  have "log_line gmtime_r strerror (Timezone_fixed off name) now errno c level type_name src line items =
      rbind (log_puts (line_items strerror errno src line items) b2) (\<lambda>b. Inr (c', fb_to_string b, level = FATAL))"
    unfolding log_line_def ty b1(1) rbind_Inr b2(1) prod.case line_items_def log_puts_append
    by (simp add: rbind_assoc del: log_puts.simps)
  moreover have "length (fb_to_string b3) < kLogBufferSize"
    using length_fb_to_string [OF b3(2)] b3(2) by (simp add: fb_inv_def kLogBufferSize_def)
  ultimately show ?thesis
    using b1(3) b2 b3 by (simp add: abs_puts_append)
qed



end
