(* ===== verification/StringPiece.thy ===== *)
theory StringPiece
  imports Flute_Prelude "HOL-Library.Char_ord" "HOL-Library.List_Lexorder"
begin

text \<open>
  StringPiece.h: a pointer and a length, here the bytes they delimit. The comparison operators go
  through \<^verbatim>\<open>memcmp\<close> on the common prefix and then compare the lengths; they are shown to be the
  lexicographic order of unsigned bytes. Prefix and suffix removal outside the piece is \<open>Undefined\<close>.
\<close>

type_synonym string_piece = "char list"

text \<open>\<^verbatim>\<open>memcmp\<close> compares \<open>n\<close> bytes of both arrays as unsigned characters.\<close>

fun memcmp :: "char list \<Rightarrow> char list \<Rightarrow> nat \<Rightarrow> int" where
  "memcmp (x # xs) (y # ys) (Suc n) =
     (if x = y then memcmp xs ys n else if of_char x < (of_char y :: nat) then - 1 else 1)"
| "memcmp xs ys n = 0"

definition sp_eq :: "string_piece \<Rightarrow> string_piece \<Rightarrow> bool" where
  "sp_eq p x \<longleftrightarrow> length p = length x \<and> memcmp p x (length p) = 0"

definition sp_ne :: "string_piece \<Rightarrow> string_piece \<Rightarrow> bool" where
  "sp_ne p x \<longleftrightarrow> \<not> sp_eq p x"

definition sp_memcmp :: "string_piece \<Rightarrow> string_piece \<Rightarrow> int" where
  "sp_memcmp p x = memcmp p x (if length p < length x then length p else length x)"

definition sp_less :: "string_piece \<Rightarrow> string_piece \<Rightarrow> bool" where
  "sp_less p x \<longleftrightarrow> sp_memcmp p x < 0 \<or> (sp_memcmp p x = 0 \<and> length p < length x)"

definition sp_le :: "string_piece \<Rightarrow> string_piece \<Rightarrow> bool" where
  "sp_le p x \<longleftrightarrow> sp_memcmp p x < 0 \<or> (sp_memcmp p x = 0 \<and> length p \<le> length x)"

definition sp_ge :: "string_piece \<Rightarrow> string_piece \<Rightarrow> bool" where
  "sp_ge p x \<longleftrightarrow> sp_memcmp p x > 0 \<or> (sp_memcmp p x = 0 \<and> length p \<ge> length x)"

definition sp_gt :: "string_piece \<Rightarrow> string_piece \<Rightarrow> bool" where
  "sp_gt p x \<longleftrightarrow> sp_memcmp p x > 0 \<or> (sp_memcmp p x = 0 \<and> length p > length x)"

definition sp_compare :: "string_piece \<Rightarrow> string_piece \<Rightarrow> int" where
  "sp_compare p x =
     (let r = sp_memcmp p x
      in if r = 0 then if length p < length x then - 1 else if length p > length x then 1 else r else r)"

definition starts_with :: "string_piece \<Rightarrow> string_piece \<Rightarrow> bool" where
  "starts_with p x \<longleftrightarrow> length p \<ge> length x \<and> memcmp p x (length x) = 0"

definition remove_prefix :: "nat \<Rightarrow> string_piece \<Rightarrow> string_piece res" where
  "remove_prefix n p = mdefined (n \<le> length p) ''prefix longer than the piece'' (Inr (drop n p))"

definition remove_suffix :: "nat \<Rightarrow> string_piece \<Rightarrow> string_piece res" where
  "remove_suffix n p = mdefined (n \<le> length p) ''suffix longer than the piece'' (Inr (take (length p - n) p))"

lemma memcmp_eq_iff: "n \<le> length xs \<Longrightarrow> n \<le> length ys \<Longrightarrow> memcmp xs ys n = 0 \<longleftrightarrow> take n xs = take n ys"
  by (induction xs ys n rule: memcmp.induct) auto

lemma char_less_iff: "(x :: char) < y \<longleftrightarrow> of_char x < (of_char y :: nat)"
  by (simp add: less_char_def)

lemma sp_memcmp_Nil [simp]: "sp_memcmp [] x = 0" "sp_memcmp p [] = 0"
  by (cases x; simp add: sp_memcmp_def) (cases p; simp add: sp_memcmp_def)

lemma sp_memcmp_Cons:
  "sp_memcmp (a # p) (b # x) = (if a = b then sp_memcmp p x else if a < b then - 1 else 1)"
  by (simp add: sp_memcmp_def char_less_iff)

lemma sp_memcmp_sign:
  "(sp_memcmp p x < 0 \<or> sp_memcmp p x = 0 \<and> length p < length x \<longleftrightarrow> p < x) \<and>
   (sp_memcmp p x > 0 \<or> sp_memcmp p x = 0 \<and> length p > length x \<longleftrightarrow> x < p)"
proof (induction p arbitrary: x)
  case Nil
  then show ?case by (cases x) simp_all
next
  case (Cons a p)
  show ?case
  proof (cases x)
    case (Cons b x')
    then show ?thesis
      using Cons.IH [of x'] by (auto simp: sp_memcmp_Cons)
  qed simp
qed

text \<open>
  Comparing string pieces is comparing byte strings. \<^verbatim>\<open>==\<close> and \<^verbatim>\<open>!=\<close> are equality, the four
  ordering operators are the lexicographic order of unsigned bytes (a proper prefix is smaller), the
  sign of \<^verbatim>\<open>compare\<close> agrees with them, and \<^verbatim>\<open>starts_with\<close> is the prefix relation.
\<close>

theorem string_piece_order:
  "(sp_eq p x \<longleftrightarrow> p = x) \<and> (sp_ne p x \<longleftrightarrow> p \<noteq> x) \<and> (sp_less p x \<longleftrightarrow> p < x) \<and> (sp_le p x \<longleftrightarrow> p \<le> x) \<and>
   (sp_ge p x \<longleftrightarrow> p \<ge> x) \<and> (sp_gt p x \<longleftrightarrow> p > x) \<and> sgn (sp_compare p x) = (if p < x then - 1 else if p = x then 0 else 1) \<and>
   (starts_with p x \<longleftrightarrow> prefix x p)"
proof -
  have eq: "sp_eq p x \<longleftrightarrow> p = x"
    using memcmp_eq_iff [of "length p" p x] by (auto simp: sp_eq_def)
  have z: "sp_memcmp p x = 0 \<and> length p = length x \<longleftrightarrow> p = x"
    using eq by (auto simp: sp_eq_def sp_memcmp_def)
  note s = sp_memcmp_sign [of p x]
  have le: "sp_le p x \<longleftrightarrow> p \<le> x" "sp_ge p x \<longleftrightarrow> p \<ge> x"
    using s z by (auto simp: sp_le_def sp_ge_def le_less)
  have pre: "starts_with p x \<longleftrightarrow> prefix x p"
    using memcmp_eq_iff [of "length x" p x] by (auto simp: starts_with_def prefix_def) (metis append_take_drop_id)
  have "sgn (sp_compare p x) = (if p < x then - 1 else if p = x then 0 else 1)"
    using s z by (auto simp: sp_compare_def Let_def sgn_if)
  with eq s le pre show ?thesis
    by (simp add: sp_ne_def sp_less_def sp_gt_def)
qed

end
