(* ===== verification/Channel.thy ===== *)
theory Channel
  imports Cformat
begin

unbundle bit_operations_syntax

text \<open>
  Channel.h and Channel.cc: the interest set of a file descriptor and the dispatch of the events a
  poller reports. A channel is a record; pointers to channels are natural numbers and the channels live
  in a heap. The callbacks are code of the clients: dispatch yields the list of callbacks it invokes, in
  order. The event sets are C++ \<^verbatim>\<open>int\<close>s, 32-bit words here.
\<close>

section \<open>Events\<close>

definition POLLIN :: "32 word" where "POLLIN = 0x001"
definition POLLPRI :: "32 word" where "POLLPRI = 0x002"
definition POLLOUT :: "32 word" where "POLLOUT = 0x004"
definition POLLERR :: "32 word" where "POLLERR = 0x008"
definition POLLHUP :: "32 word" where "POLLHUP = 0x010"
definition POLLNVAL :: "32 word" where "POLLNVAL = 0x020"
definition POLLRDHUP :: "32 word" where "POLLRDHUP = 0x2000"

definition kNoneEvent :: "32 word" where "kNoneEvent = 0"
definition kReadEvent :: "32 word" where "kReadEvent = POLLIN OR POLLPRI"
definition kWriteEvent :: "32 word" where "kWriteEvent = POLLOUT"

lemmas event_defs = POLLIN_def POLLPRI_def POLLOUT_def POLLERR_def POLLHUP_def POLLNVAL_def POLLRDHUP_def
  kNoneEvent_def kReadEvent_def kWriteEvent_def

section \<open>Channels\<close>

record channel =
  m_fd :: int
  m_concerned_events :: "32 word"
  m_recv_events :: "32 word"
  m_idx :: int
  m_loghup_enabled :: bool
  m_tied :: bool
  m_is_handing_event :: bool
  m_is_in_reactor :: bool
  m_read_callback :: bool   \<comment> \<open>whether a read callback is set; likewise below\<close>
  m_write_callback :: bool
  m_close_callback :: bool
  m_error_callback :: bool

type_synonym chan = nat
type_synonym heap = "chan \<Rightarrow> channel"

definition Channel_init :: "int \<Rightarrow> channel" where
  "Channel_init fd =
     \<lparr> m_fd = fd, m_concerned_events = 0, m_recv_events = 0, m_idx = - 1, m_loghup_enabled = True, m_tied = False,
       m_is_handing_event = False, m_is_in_reactor = False, m_read_callback = False, m_write_callback = False,
       m_close_callback = False, m_error_callback = False \<rparr>"

definition is_none_event :: "channel \<Rightarrow> bool" where
  "is_none_event ch \<longleftrightarrow> m_concerned_events ch = kNoneEvent"

definition is_writing :: "channel \<Rightarrow> bool" where
  "is_writing ch \<longleftrightarrow> m_concerned_events ch AND kWriteEvent \<noteq> 0"

definition is_reading :: "channel \<Rightarrow> bool" where
  "is_reading ch \<longleftrightarrow> m_concerned_events ch AND kReadEvent \<noteq> 0"

text \<open>What each request makes of the interest set; the update of the reactor follows.\<close>

datatype interest = Wang_to_read | End_reading | Want_to_write | End_writing | End_all

fun new_events :: "interest \<Rightarrow> 32 word \<Rightarrow> 32 word" where
  "new_events Wang_to_read ev = ev OR kReadEvent"
| "new_events End_reading ev = ev AND NOT kReadEvent"
| "new_events Want_to_write ev = ev OR kWriteEvent"
| "new_events End_writing ev = ev AND NOT kWriteEvent"
| "new_events End_all ev = kNoneEvent"

definition chan_set_events :: "32 word \<Rightarrow> channel \<Rightarrow> channel" where
  "chan_set_events ev ch = ch\<lparr> m_concerned_events := ev, m_is_in_reactor := True \<rparr>"

definition channel_request :: "interest \<Rightarrow> channel \<Rightarrow> channel" where
  "channel_request r ch = chan_set_events (new_events r (m_concerned_events ch)) ch"

definition tie :: "channel \<Rightarrow> channel" where
  "tie ch = ch\<lparr>m_tied := True\<rparr>"

definition disable_loghup :: "channel \<Rightarrow> channel" where
  "disable_loghup ch = ch\<lparr>m_loghup_enabled := False\<rparr>"

definition set_revents :: "32 word \<Rightarrow> channel \<Rightarrow> channel" where
  "set_revents revt ch = ch\<lparr>m_recv_events := revt\<rparr>"

section \<open>Dispatch\<close>

datatype callback = CloseCb | ErrorCb | ReadCb int | WriteCb

definition handle_event_with_guard :: "int \<Rightarrow> channel \<Rightarrow> callback list" where
  "handle_event_with_guard recv_time ch =
     (let rv = m_recv_events ch
      in (if rv AND POLLHUP \<noteq> 0 \<and> rv AND POLLIN = 0 \<and> m_close_callback ch then [CloseCb] else []) @
         (if rv AND (POLLERR OR POLLNVAL) \<noteq> 0 \<and> m_error_callback ch then [ErrorCb] else []) @
         (if rv AND (POLLIN OR POLLPRI OR POLLRDHUP) \<noteq> 0 \<and> m_read_callback ch then [ReadCb recv_time] else []) @
         (if rv AND POLLOUT \<noteq> 0 \<and> m_write_callback ch then [WriteCb] else []))"

text \<open>\<open>alive\<close> is the outcome of locking the weak pointer of a tied channel.\<close>

definition handle_event :: "bool \<Rightarrow> int \<Rightarrow> channel \<Rightarrow> callback list" where
  "handle_event alive recv_time ch =
     (if m_tied ch then if alive then handle_event_with_guard recv_time ch else []
      else handle_event_with_guard recv_time ch)"

definition events_to_string :: "int \<Rightarrow> 32 word \<Rightarrow> string" where
  "events_to_string fd ev =
     dec_int fd @ '': '' @
     (if ev AND POLLIN \<noteq> 0 then ''IN '' else []) @ (if ev AND POLLPRI \<noteq> 0 then ''PRI '' else []) @
     (if ev AND POLLOUT \<noteq> 0 then ''OUT '' else []) @ (if ev AND POLLHUP \<noteq> 0 then ''HUP '' else []) @
     (if ev AND POLLRDHUP \<noteq> 0 then ''RDHUP '' else []) @ (if ev AND POLLERR \<noteq> 0 then ''ERR '' else []) @
     (if ev AND POLLNVAL \<noteq> 0 then ''NVAL '' else [])"

text \<open>The destructor: \<open>registered\<close> is the answer of \<^verbatim>\<open>has_channel\<close>, asked in the reactor's thread only.\<close>

definition Channel_destroy :: "bool \<Rightarrow> bool \<Rightarrow> channel \<Rightarrow> unit res" where
  "Channel_destroy in_reactor_thread registered ch =
     massert (\<not> m_is_handing_event ch) ''!m_is_handing_event''
    (massert (\<not> m_is_in_reactor ch) ''!m_is_in_reactor''
    (if in_reactor_thread then massert (\<not> registered) ''!m_reactor->has_channel(this)'' (Inr ()) else Inr ()))"

section \<open>Lemmas\<close>

lemma and_not_and: "(x AND NOT y) AND y = (0 :: 32 word)"
  by (rule bit_word_eqI) (auto simp: bit_simps)

lemma new_events_read: "new_events Wang_to_read ev AND kReadEvent \<noteq> 0" "new_events End_reading ev AND kReadEvent = 0"
proof -
  have "bit (new_events Wang_to_read ev AND kReadEvent) 0"
    by (simp add: kReadEvent_def POLLIN_def POLLPRI_def bit_simps)
  then show "new_events Wang_to_read ev AND kReadEvent \<noteq> 0" by (metis bit_0_eq bot_apply bot_bool_def)
  show "new_events End_reading ev AND kReadEvent = 0"
    by (simp add: and_not_and)
qed

lemma new_events_write:
  "new_events Want_to_write ev AND kWriteEvent \<noteq> 0" "new_events End_writing ev AND kWriteEvent = 0"
proof -
  have "bit (new_events Want_to_write ev AND kWriteEvent) 2"
    by (simp add: kWriteEvent_def POLLOUT_def bit_simps)
  then show "new_events Want_to_write ev AND kWriteEvent \<noteq> 0" by (metis bit_0_eq bot_apply bot_bool_def)
  show "new_events End_writing ev AND kWriteEvent = 0"
    by (simp add: and_not_and)
qed

end
