(* ===== verification/Poller_Spec.thy ===== *)
theory Poller_Spec
  imports Channel
begin

text \<open>
  The contract a reactor and its channels rely on (Poller.h): updating a channel makes the poller watch
  it with the events asked for, removing a channel that asks for no events makes the poller forget it,
  and neither trips an assertion when it is called by the rules. The rules are those every channel of
  the library follows: a channel that is not watched yet asks for some event, its descriptor is not
  negative and not watched through another channel, and a channel is removed only after \<^verbatim>\<open>end_all\<close>.
\<close>

datatype chan_op = Update chan "32 word" | Remove chan

text \<open>A poller is reusable when a channel that was removed can be added again. \<open>old\<close> collects the
  channels that were added or removed before.\<close>

fun chan_ops_legal :: "bool \<Rightarrow> (chan \<Rightarrow> int) \<Rightarrow> chan_op list \<Rightarrow> chan set \<Rightarrow> (chan \<rightharpoonup> 32 word) \<Rightarrow> bool" where
  "chan_ops_legal reusable fd [] old w = True"
| "chan_ops_legal reusable fd (Update c ev # ops) old w =
     (0 \<le> fd c \<and> (c \<in> dom w \<or> ev \<noteq> 0 \<and> (reusable \<or> c \<notin> old) \<and> (\<forall>c' \<in> dom w. fd c' \<noteq> fd c)) \<and>
      chan_ops_legal reusable fd ops (insert c old) (w(c \<mapsto> ev)))"
| "chan_ops_legal reusable fd (Remove c # ops) old w =
     (w c = Some 0 \<and> chan_ops_legal reusable fd ops (insert c old) (w(c := None)))"

fun chan_ops_watched :: "chan_op list \<Rightarrow> (chan \<rightharpoonup> 32 word) \<Rightarrow> (chan \<rightharpoonup> 32 word)" where
  "chan_ops_watched [] w = w"
| "chan_ops_watched (Update c ev # ops) w = chan_ops_watched ops (w(c \<mapsto> ev))"
| "chan_ops_watched (Remove c # ops) w = chan_ops_watched ops (w(c := None))"

fun chan_ops_run ::
    "(chan \<Rightarrow> 32 word \<Rightarrow> 's \<Rightarrow> 's res) \<Rightarrow> (chan \<Rightarrow> 's \<Rightarrow> 's res) \<Rightarrow> chan_op list \<Rightarrow> 's \<Rightarrow> 's res" where
  "chan_ops_run update remove [] s = Inr s"
| "chan_ops_run update remove (Update c ev # ops) s = rbind (update c ev s) (chan_ops_run update remove ops)"
| "chan_ops_run update remove (Remove c # ops) s = rbind (remove c s) (chan_ops_run update remove ops)"

locale poller =
  fixes invar :: "'s \<Rightarrow> bool"
    and fd_of :: "'s \<Rightarrow> chan \<Rightarrow> int"
    and watched :: "'s \<Rightarrow> (chan \<rightharpoonup> 32 word)"
    and fresh :: "'s \<Rightarrow> chan \<Rightarrow> bool"
    and reusable :: bool
    and update :: "chan \<Rightarrow> 32 word \<Rightarrow> 's \<Rightarrow> 's res"
    and remove :: "chan \<Rightarrow> 's \<Rightarrow> 's res"
  assumes update_ok:
      "invar s \<Longrightarrow> 0 \<le> fd_of s c \<Longrightarrow>
       c \<in> dom (watched s) \<or> ev \<noteq> 0 \<and> fresh s c \<and> (\<forall>c' \<in> dom (watched s). fd_of s c' \<noteq> fd_of s c) \<Longrightarrow>
       \<exists>s'. update c ev s = Inr s' \<and> invar s' \<and> fd_of s' = fd_of s \<and> watched s' = (watched s)(c \<mapsto> ev) \<and>
            (\<forall>c'. c' \<noteq> c \<longrightarrow> fresh s c' \<longrightarrow> fresh s' c')"
    and remove_ok:
      "invar s \<Longrightarrow> watched s c = Some 0 \<Longrightarrow>
       \<exists>s'. remove c s = Inr s' \<and> invar s' \<and> fd_of s' = fd_of s \<and> watched s' = (watched s)(c := None) \<and>
            (\<forall>c'. c' \<noteq> c \<longrightarrow> fresh s c' \<longrightarrow> fresh s' c')"
    and reusable_fresh: "invar s \<Longrightarrow> reusable \<Longrightarrow> c \<notin> dom (watched s) \<Longrightarrow> fresh s c"
begin

text \<open>Channel operations called by the rules never fail, in any order and number, and the poller watches
  exactly what was asked for.\<close>

theorem ops_run:
  "invar s \<Longrightarrow> (\<And>c. c \<notin> old \<Longrightarrow> fresh s c) \<Longrightarrow> chan_ops_legal reusable (fd_of s) ops old (watched s) \<Longrightarrow>
   \<exists>s'. chan_ops_run update remove ops s = Inr s' \<and> invar s' \<and> fd_of s' = fd_of s \<and>
        watched s' = chan_ops_watched ops (watched s)"
proof (induction ops arbitrary: s old)
  case (Cons op ops)
  show ?case
  proof (cases op)
    case (Update c ev)
    then have "c \<in> dom (watched s) \<or> ev \<noteq> 0 \<and> fresh s c \<and> (\<forall>c' \<in> dom (watched s). fd_of s c' \<noteq> fd_of s c)"
      using Cons.prems reusable_fresh [of s c] by auto
    then obtain s1 where "update c ev s = Inr s1" "invar s1" "fd_of s1 = fd_of s" "watched s1 = (watched s)(c \<mapsto> ev)"
        "\<forall>c'. c' \<noteq> c \<longrightarrow> fresh s c' \<longrightarrow> fresh s1 c'"
      using update_ok [of s c ev] Cons.prems(1,3) Update by auto
    then show ?thesis using Cons.IH [of s1 "insert c old"] Cons.prems Update by (simp del: fun_upd_apply)
  next
    case (Remove c)
    then obtain s1 where "remove c s = Inr s1" "invar s1" "fd_of s1 = fd_of s" "watched s1 = (watched s)(c := None)"
        "\<forall>c'. c' \<noteq> c \<longrightarrow> fresh s c' \<longrightarrow> fresh s1 c'"
      using remove_ok [of s c] Cons.prems by auto
    then show ?thesis using Cons.IH [of s1 "insert c old"] Cons.prems Remove by (simp del: fun_upd_apply)
  qed
qed simp

text \<open>The life of a channel: watched, changed any number of times, ended, forgotten.\<close>

lemma lifecycle:
  assumes "invar s" and "0 \<le> fd_of s c" and "fresh s c" and "c \<notin> dom (watched s)"
    and "\<forall>c' \<in> dom (watched s). fd_of s c' \<noteq> fd_of s c" and "ev \<noteq> 0"
  shows "\<exists>s'. chan_ops_run update remove (Update c ev # map (Update c) evs @ [Update c 0, Remove c]) s = Inr s' \<and>
              invar s' \<and> watched s' = watched s"
proof -
  have legal: "chan_ops_legal reusable (fd_of s) (map (Update c) evs @ [Update c 0, Remove c]) old (w(c \<mapsto> e))" for w e old
    using assms(2) by (induction evs arbitrary: e old) auto
  have "chan_ops_watched (map (Update c) evs @ [Update c 0, Remove c]) (w(c \<mapsto> e)) = w(c := None)" for w e
    by (induction evs arbitrary: e) auto
  then have "chan_ops_watched (Update c ev # map (Update c) evs @ [Update c 0, Remove c]) (watched s) = watched s"
    using assms(4) by (simp add: domIff fun_upd_idem)
  then show ?thesis
    using ops_run [OF assms(1), of "{c'. \<not> fresh s c'}" "Update c ev # map (Update c) evs @ [Update c 0, Remove c]"]
      assms legal by auto
qed

end

end
