(* ===== verification/EPollPoller.thy ===== *)
theory EPollPoller
  imports Poller_Spec
begin

text \<open>
  EPollPoller.cc: the poller on top of \<^verbatim>\<open>epoll(4)\<close>. The state has the poller's map from descriptors to
  channels, the size of its event list and, beside them, the interest list the kernel holds for the
  epoll descriptor. Whether \<^verbatim>\<open>epoll_ctl\<close> succeeds is the argument \<open>sys\<close>, given the operation, the
  descriptor and whether the descriptor is in the interest list; \<open>epoll_accepts\<close> states the documented
  behaviour the code relies on. What \<^verbatim>\<open>epoll_wait\<close> returns is an argument of \<open>ep_poll\<close>.
\<close>

definition kNew :: int where "kNew = - 1"
definition kAdded :: int where "kAdded = 1"
definition kDeleted :: int where "kDeleted = 2"
definition kInitEventListSize :: nat where "kInitEventListSize = 16"

lemmas index_defs = kNew_def kAdded_def kDeleted_def

datatype epoll_op = EPOLL_CTL_ADD | EPOLL_CTL_DEL | EPOLL_CTL_MOD

record epoll_poller =
  ep_map :: "int \<rightharpoonup> chan"
  ep_interest :: "int \<rightharpoonup> 32 word \<times> chan"
  ep_events_size :: nat

type_synonym ep_state = "heap \<times> epoll_poller"

definition EPollPoller_init :: "bool \<Rightarrow> epoll_poller res" where
  "EPollPoller_init create_ok =
     (if create_ok then Inr \<lparr> ep_map = Map.empty, ep_interest = Map.empty, ep_events_size = kInitEventListSize \<rparr>
      else mfatal ''EPollPoller::EPollPoller'')"

fun epoll_interest :: "epoll_op \<Rightarrow> int \<Rightarrow> 32 word \<times> chan \<Rightarrow> (int \<rightharpoonup> 32 word \<times> chan) \<Rightarrow> (int \<rightharpoonup> 32 word \<times> chan)" where
  "epoll_interest EPOLL_CTL_ADD fd ev k = k(fd \<mapsto> ev)"
| "epoll_interest EPOLL_CTL_MOD fd ev k = k(fd \<mapsto> ev)"
| "epoll_interest EPOLL_CTL_DEL fd ev k = k(fd := None)"

definition ep_update :: "(epoll_op \<Rightarrow> int \<Rightarrow> bool \<Rightarrow> bool) \<Rightarrow> epoll_op \<Rightarrow> chan \<Rightarrow> ep_state \<Rightarrow> ep_state res" where
  "ep_update sys operation c s =
     (case s of (h, p) \<Rightarrow>
        let fd = m_fd (h c); event = (m_concerned_events (h c), c)
        in if sys operation fd (fd \<in> dom (ep_interest p))
           then Inr (h, p\<lparr>ep_interest := epoll_interest operation fd event (ep_interest p)\<rparr>)
           else if operation = EPOLL_CTL_DEL then Inr (h, p) else mfatal ''epoll_ctl'')"

definition ep_update_channel :: "bool \<Rightarrow> (epoll_op \<Rightarrow> int \<Rightarrow> bool \<Rightarrow> bool) \<Rightarrow> chan \<Rightarrow> ep_state \<Rightarrow> ep_state res" where
  "ep_update_channel in_thread sys c s =
     (case s of (h, p) \<Rightarrow>
        if \<not> in_thread then mfatal ''abort_not_in_reactor_thread''
        else let index = m_idx (h c); fd = m_fd (h c)
        in if index = kNew \<or> index = kDeleted
           then rbind (if index = kNew
                       then massert (ep_map p fd = None) ''find(fd) == end()'' (Inr (p\<lparr>ep_map := (ep_map p)(fd \<mapsto> c)\<rparr>))
                       else massert (ep_map p fd \<noteq> None) ''find(fd) != end()''
                           (massert (ep_map p fd = Some c) ''m_channel_map[fd] == channel'' (Inr p)))
                  (\<lambda>p. ep_update sys EPOLL_CTL_ADD c (h(c := (h c)\<lparr>m_idx := kAdded\<rparr>), p))
           else massert (ep_map p fd \<noteq> None) ''find(fd) != end()''
               (massert (ep_map p fd = Some c) ''m_channel_map[fd] == channel''
               (massert (index = kAdded) ''index == kAdded''
               (if is_none_event (h c)
                then rbind (ep_update sys EPOLL_CTL_DEL c (h, p))
                       (\<lambda>(h, p). Inr (h(c := (h c)\<lparr>m_idx := kDeleted\<rparr>), p))
                else ep_update sys EPOLL_CTL_MOD c (h, p)))))"

definition ep_remove_channel :: "bool \<Rightarrow> (epoll_op \<Rightarrow> int \<Rightarrow> bool \<Rightarrow> bool) \<Rightarrow> chan \<Rightarrow> ep_state \<Rightarrow> ep_state res" where
  "ep_remove_channel in_thread sys c s =
     (case s of (h, p) \<Rightarrow>
        if \<not> in_thread then mfatal ''abort_not_in_reactor_thread''
        else let fd = m_fd (h c); index = m_idx (h c)
        in massert (ep_map p fd \<noteq> None) ''find(fd) != end()''
          (massert (ep_map p fd = Some c) ''m_channel_map[fd] == channel''
          (massert (is_none_event (h c)) ''channel->is_none_event()''
          (massert (index = kAdded \<or> index = kDeleted) ''index == kAdded || index == kDeleted''
          (let p = p\<lparr>ep_map := (ep_map p)(fd := None)\<rparr>
           in rbind (if index = kAdded then ep_update sys EPOLL_CTL_DEL c (h, p) else Inr (h, p))
                (\<lambda>(h, p). Inr (h(c := (h c)\<lparr>m_idx := kNew\<rparr>), p)))))))"

definition ep_has_channel :: "chan \<Rightarrow> ep_state \<Rightarrow> bool" where
  "ep_has_channel c s = (case s of (h, p) \<Rightarrow> ep_map p (m_fd (h c)) = Some c)"

text \<open>\<^verbatim>\<open>epoll_wait\<close> gives an errno or the events it stored, each with the channel of its data pointer.\<close>

fun ep_register :: "epoll_poller \<Rightarrow> (32 word \<times> chan) list \<Rightarrow> heap \<Rightarrow> chan list \<Rightarrow> (heap \<times> chan list) res" where
  "ep_register p [] h active = Inr (h, active)"
| "ep_register p ((ev, c) # evs) h active =
     massert (ep_map p (m_fd (h c)) \<noteq> None) ''it != m_channel_map.end()''
    (massert (ep_map p (m_fd (h c)) = Some c) ''it->second == channel''
    (ep_register p evs (h(c := set_revents ev (h c))) (active @ [c])))"

definition register_active_channels :: "(32 word \<times> chan) list \<Rightarrow> ep_state \<Rightarrow> (heap \<times> chan list) res" where
  "register_active_channels evs s =
     (case s of (h, p) \<Rightarrow>
        massert (length evs \<le> ep_events_size p) ''n_events_arrived <= m_events_list.size()'' (ep_register p evs h []))"

definition ep_poll :: "int + (32 word \<times> chan) list \<Rightarrow> ep_state \<Rightarrow> (ep_state \<times> chan list) res" where
  "ep_poll result s =
     (case s of (h, p) \<Rightarrow>
        (case result of
           Inl errno \<Rightarrow> Inr ((h, p), [])
         | Inr evs \<Rightarrow>
             if evs \<noteq> []
             then rbind (register_active_channels evs (h, p)) (\<lambda>(h, active).
                  Inr ((h, if length evs = ep_events_size p then p\<lparr>ep_events_size := ep_events_size p * 2\<rparr> else p), active))
             else Inr ((h, p), [])))"

text \<open>The calls as channels make them (Channel.cc:37-46).\<close>

definition ep_chan_update :: "(epoll_op \<Rightarrow> int \<Rightarrow> bool \<Rightarrow> bool) \<Rightarrow> chan \<Rightarrow> 32 word \<Rightarrow> ep_state \<Rightarrow> ep_state res" where
  "ep_chan_update sys c ev s = (case s of (h, p) \<Rightarrow> ep_update_channel True sys c (h(c := chan_set_events ev (h c)), p))"

definition ep_chan_remove :: "(epoll_op \<Rightarrow> int \<Rightarrow> bool \<Rightarrow> bool) \<Rightarrow> chan \<Rightarrow> ep_state \<Rightarrow> ep_state res" where
  "ep_chan_remove sys c s =
     (case s of (h, p) \<Rightarrow>
        massert (is_none_event (h c)) ''is_none_event()''
          (ep_remove_channel True sys c (h(c := (h c)\<lparr>m_is_in_reactor := False\<rparr>), p)))"

section \<open>Invariant\<close>

definition epoll_accepts :: "(epoll_op \<Rightarrow> int \<Rightarrow> bool \<Rightarrow> bool) \<Rightarrow> bool" where
  "epoll_accepts sys \<longleftrightarrow>
     (\<forall>fd. sys EPOLL_CTL_ADD fd False \<and> sys EPOLL_CTL_MOD fd True \<and> sys EPOLL_CTL_DEL fd True)"

definition ep_watched :: "ep_state \<Rightarrow> (chan \<rightharpoonup> 32 word)" where
  "ep_watched s = (\<lambda>c. if m_idx (fst s c) = kNew then None else Some (m_concerned_events (fst s c)))"

definition ep_fd :: "ep_state \<Rightarrow> chan \<Rightarrow> int" where
  "ep_fd s c = m_fd (fst s c)"

definition ep_inv :: "ep_state \<Rightarrow> bool" where
  "ep_inv s \<longleftrightarrow>
     (\<forall>c. m_idx (fst s c) \<in> {kNew, kAdded, kDeleted}) \<and>
     (\<forall>fd c. ep_map (snd s) fd = Some c \<longleftrightarrow> m_fd (fst s c) = fd \<and> m_idx (fst s c) \<noteq> kNew) \<and>
     (\<forall>fd ev c. ep_interest (snd s) fd = Some (ev, c) \<longleftrightarrow>
        m_fd (fst s c) = fd \<and> m_idx (fst s c) = kAdded \<and> m_concerned_events (fst s c) = ev) \<and>
     (\<forall>c. m_idx (fst s c) = kDeleted \<longrightarrow> is_none_event (fst s c))"

lemma ep_inv_init:
  "\<forall>c. m_idx (h c) = kNew \<Longrightarrow> EPollPoller_init True = Inr p \<Longrightarrow> ep_inv (h, p)"
  by (auto simp: ep_inv_def EPollPoller_init_def index_defs)

lemma ep_invD:
  assumes "ep_inv (h, p)"
  shows "m_idx (h c) \<in> {kNew, kAdded, kDeleted}"
    and "ep_map p fd = Some c \<longleftrightarrow> m_fd (h c) = fd \<and> m_idx (h c) \<noteq> kNew"
    and "ep_interest p fd = Some (ev, c) \<longleftrightarrow> m_fd (h c) = fd \<and> m_idx (h c) = kAdded \<and> m_concerned_events (h c) = ev"
    and "m_idx (h c) = kDeleted \<Longrightarrow> is_none_event (h c)"
  using assms by (simp_all add: ep_inv_def)

text \<open>Whatever a poller operation writes for the channel \<open>c\<close>, the invariant needs these three entries to
  agree.\<close>

lemma ep_inv_set:
  assumes "ep_inv (h, p)" and "m_fd ch = fd" and "m_fd (h c) = fd" and "m_idx ch \<in> {kAdded, kDeleted}"
    and "m_idx ch = kDeleted \<Longrightarrow> is_none_event ch"
    and "\<And>c'. c' \<noteq> c \<Longrightarrow> m_idx (h c') \<noteq> kNew \<Longrightarrow> m_fd (h c') \<noteq> fd"
    and "ep_map q = (ep_map p)(fd \<mapsto> c)"
    and "ep_interest q = (ep_interest p)(fd := if m_idx ch = kAdded then Some (m_concerned_events ch, c) else None)"
  shows "ep_inv (h(c := ch), q)"
    and "ep_watched (h(c := ch), q) = (ep_watched (h, p))(c \<mapsto> m_concerned_events ch)"
    and "ep_fd (h(c := ch), q) = ep_fd (h, p)"
proof -
  note D = ep_invD [OF assms(1)]
  have added: "kAdded \<noteq> kNew" "kDeleted \<noteq> kNew" "kAdded \<noteq> kDeleted" by (simp_all add: index_defs)
  show "ep_inv (h(c := ch), q)"
    unfolding ep_inv_def fst_conv snd_conv assms(7,8)
  proof (intro conjI allI impI)
    show "m_idx ((h(c := ch)) c') \<in> {kNew, kAdded, kDeleted}" for c' using D(1) assms(4) by auto
    show "((ep_map p)(fd \<mapsto> c)) fd' = Some c' \<longleftrightarrow> m_fd ((h(c := ch)) c') = fd' \<and> m_idx ((h(c := ch)) c') \<noteq> kNew" for fd' c'
      using D(2) [of fd' c'] assms(2-4,6) added by auto
    show "((ep_interest p)(fd := if m_idx ch = kAdded then Some (m_concerned_events ch, c) else None)) fd' = Some (ev, c') \<longleftrightarrow>
        m_fd ((h(c := ch)) c') = fd' \<and> m_idx ((h(c := ch)) c') = kAdded \<and> m_concerned_events ((h(c := ch)) c') = ev" for fd' ev c'
      using D(3) [of fd' ev c'] assms(2-4,6) added by auto
    show "is_none_event ((h(c := ch)) c')" if "m_idx ((h(c := ch)) c') = kDeleted" for c'
      using D(4) [of c'] assms(5) that by (cases "c' = c") auto
  qed
  show "ep_watched (h(c := ch), q) = (ep_watched (h, p))(c \<mapsto> m_concerned_events ch)"
    using assms(4) added by (auto simp: ep_watched_def fun_eq_iff)
  show "ep_fd (h(c := ch), q) = ep_fd (h, p)"
    using assms(2,3) by (auto simp: ep_fd_def fun_eq_iff)
qed

lemma ep_chan_update_ok:
  assumes sys: "epoll_accepts sys" and inv: "ep_inv (h, p)"
    and "c \<in> dom (ep_watched (h, p)) \<or> (\<forall>c' \<in> dom (ep_watched (h, p)). ep_fd (h, p) c' \<noteq> ep_fd (h, p) c)"
  shows "\<exists>s'. ep_chan_update sys c ev (h, p) = Inr s' \<and> ep_inv s' \<and> ep_fd s' = ep_fd (h, p) \<and>
              ep_watched s' = (ep_watched (h, p))(c \<mapsto> ev)"
proof -
  let ?fd = "m_fd (h c)" and ?ch = "chan_set_events ev (h c)"
  note D = ep_invD [OF inv]
  have other: "m_fd (h c') \<noteq> ?fd" if "c' \<noteq> c" "m_idx (h c') \<noteq> kNew" for c'
  proof
    assume "m_fd (h c') = ?fd"
    then have "ep_map p ?fd = Some c'" using D(2) that by blast
    moreover have "c' \<in> dom (ep_watched (h, p))" using that by (simp add: ep_watched_def domIff)
    ultimately show False
      using assms(3) D(2) [of ?fd c] that \<open>m_fd (h c') = ?fd\<close>
      by (auto simp: ep_watched_def ep_fd_def domIff split: if_splits)
  qed
  have ch: "m_fd ?ch = ?fd" "m_concerned_events ?ch = ev" "m_idx ?ch = m_idx (h c)" "is_none_event ?ch = (ev = 0)"
    by (simp_all add: chan_set_events_def is_none_event_def kNoneEvent_def)
  define i where "i = (if m_idx (h c) = kAdded \<and> ev = 0 then kDeleted else kAdded)"
  define q where "q = p\<lparr> ep_map := (ep_map p)(?fd \<mapsto> c),
    ep_interest := (ep_interest p)(?fd := if i = kAdded then Some (ev, c) else None) \<rparr>"
  have int: "ep_interest p ?fd = (if m_idx (h c) = kAdded then Some (m_concerned_events (h c), c) else None)"
  proof (cases "ep_interest p ?fd")
    case None
    then show ?thesis using D(3) [of ?fd "m_concerned_events (h c)" c] by auto
  next
    case (Some e)
    then show ?thesis
      using D(3) [of ?fd "fst e" "snd e"] other [of "snd e"] by (cases e; cases "snd e = c") (auto simp: index_defs)
  qed
  have map: "ep_map p ?fd = (if m_idx (h c) = kNew then None else Some c)"
  proof (cases "ep_map p ?fd")
    case None
    then show ?thesis using D(2) [of ?fd c] by auto
  next
    case (Some c')
    then show ?thesis using D(2) [of ?fd c'] other [of c'] by (cases "c' = c") auto
  qed
  have upd: "ep_chan_update sys c ev (h, p) = Inr (h(c := ?ch\<lparr>m_idx := i\<rparr>), q)"
  proof -
    have dom: "(?fd \<in> dom (ep_interest p)) = (m_idx (h c) = kAdded)" using int by (auto split: if_splits)
    consider (new) "m_idx (h c) = kNew" | (del) "m_idx (h c) = kDeleted" | (add) "m_idx (h c) = kAdded"
      using D(1) [of c] by auto
    then show ?thesis
    proof cases
      case new
      then show ?thesis
        using sys map dom ch
        by (simp add: ep_chan_update_def ep_update_channel_def ep_update_def epoll_accepts_def Let_def q_def i_def index_defs)
    next
      case del
      then show ?thesis
        using sys map dom ch
        by (simp add: ep_chan_update_def ep_update_channel_def ep_update_def epoll_accepts_def Let_def q_def i_def index_defs fun_upd_idem)
    next
      case add
      show ?thesis
      proof (cases "ev = 0")
        case True
        then show ?thesis
          using sys map dom ch add
          by (simp add: ep_chan_update_def ep_update_channel_def ep_update_def epoll_accepts_def Let_def q_def i_def
              index_defs fun_upd_idem)
      next
        case False
        then have i: "i = m_idx ?ch" using ch(3) add by (simp add: i_def)
        have same: "?ch\<lparr>m_idx := i\<rparr> = ?ch" unfolding i by (rule channel.equality) simp_all
        have "ep_chan_update sys c ev (h, p) = Inr (h(c := ?ch), q)"
          using sys map dom ch add False i
          by (simp add: ep_chan_update_def ep_update_channel_def ep_update_def epoll_accepts_def Let_def q_def
              index_defs fun_upd_idem)
        then show ?thesis unfolding same .
      qed
    qed
  qed
  have new: "m_fd (?ch\<lparr>m_idx := i\<rparr>) = ?fd" "m_idx (?ch\<lparr>m_idx := i\<rparr>) \<in> {kAdded, kDeleted}"
    "m_idx (?ch\<lparr>m_idx := i\<rparr>) = kDeleted \<Longrightarrow> is_none_event (?ch\<lparr>m_idx := i\<rparr>)"
    "ep_map q = (ep_map p)(?fd \<mapsto> c)"
    "ep_interest q = (ep_interest p)(?fd := if m_idx (?ch\<lparr>m_idx := i\<rparr>) = kAdded
        then Some (m_concerned_events (?ch\<lparr>m_idx := i\<rparr>), c) else None)"
    using ch by (simp_all add: q_def i_def is_none_event_def index_defs kNoneEvent_def split: if_splits)
  show ?thesis
    using ep_inv_set [OF inv new(1) refl new(2,3) other new(4,5)] upd ch(2) by auto
qed

lemma ep_chan_remove_ok:
  assumes sys: "epoll_accepts sys" and inv: "ep_inv (h, p)" and w: "ep_watched (h, p) c = Some 0"
  shows "\<exists>s'. ep_chan_remove sys c (h, p) = Inr s' \<and> ep_inv s' \<and> ep_fd s' = ep_fd (h, p) \<and>
              ep_watched s' = (ep_watched (h, p))(c := None)"
proof -
  let ?fd = "m_fd (h c)"
  note D = ep_invD [OF inv]
  have idx: "m_idx (h c) = kAdded \<or> m_idx (h c) = kDeleted" and ev: "m_concerned_events (h c) = 0"
    using w D(1) [of c] by (auto simp: ep_watched_def split: if_splits)
  have map: "ep_map p ?fd = Some c" using D(2) [of ?fd c] idx by (auto simp: index_defs)
  have int: "ep_interest p ?fd = (if m_idx (h c) = kAdded then Some (0, c) else None)"
  proof (cases "ep_interest p ?fd")
    case None
    then show ?thesis using D(3) [of ?fd 0 c] ev by auto
  next
    case (Some e)
    then have "ep_map p ?fd = Some (snd e)"
      using D(3) [of ?fd "fst e" "snd e"] D(2) [of ?fd "snd e"] by (cases e) (auto simp: index_defs)
    then show ?thesis using Some map D(3) [of ?fd "fst e" "snd e"] ev by (cases e) auto
  qed
  define ch where "ch = (h c)\<lparr>m_is_in_reactor := False, m_idx := kNew\<rparr>"
  define q where "q = p\<lparr> ep_map := (ep_map p)(?fd := None), ep_interest := (ep_interest p)(?fd := None) \<rparr>"
  have same: "(ep_interest p)(?fd := None) = ep_interest p" if "m_idx (h c) \<noteq> kAdded"
    using int that by (simp add: fun_upd_idem)
  have "ep_chan_remove sys c (h, p) = Inr (h(c := ch), q)"
    using sys map int idx ev same
    by (auto simp: ep_chan_remove_def ep_remove_channel_def ep_update_def epoll_accepts_def is_none_event_def
        kNoneEvent_def Let_def q_def ch_def index_defs domIff)
  moreover have "ep_inv (h(c := ch), q)"
    unfolding ep_inv_def fst_conv snd_conv
  proof (intro conjI allI impI)
    show "m_idx ((h(c := ch)) c') \<in> {kNew, kAdded, kDeleted}" for c' using D(1) by (auto simp: ch_def)
    show "ep_map q fd' = Some c' \<longleftrightarrow> m_fd ((h(c := ch)) c') = fd' \<and> m_idx ((h(c := ch)) c') \<noteq> kNew" for fd' c'
      using D(2) [of fd' c'] D(2) [of ?fd c'] map by (auto simp: q_def ch_def)
    show "ep_interest q fd' = Some (ev', c') \<longleftrightarrow>
        m_fd ((h(c := ch)) c') = fd' \<and> m_idx ((h(c := ch)) c') = kAdded \<and> m_concerned_events ((h(c := ch)) c') = ev'" for fd' ev' c'
      using D(3) [of fd' ev' c'] D(2) [of ?fd c'] map by (auto simp: q_def ch_def index_defs)
    show "is_none_event ((h(c := ch)) c')" if "m_idx ((h(c := ch)) c') = kDeleted" for c'
      using D(4) [of c'] that by (cases "c' = c") (auto simp: ch_def index_defs)
  qed
  moreover have "ep_watched (h(c := ch), q) = (ep_watched (h, p))(c := None)"
    by (auto simp: ep_watched_def ch_def fun_eq_iff)
  moreover have "ep_fd (h(c := ch), q) = ep_fd (h, p)"
    by (auto simp: ep_fd_def ch_def fun_eq_iff)
  ultimately show ?thesis by blast
qed

lemma epoll_is_poller:
  "epoll_accepts sys \<Longrightarrow>
   poller ep_inv ep_fd ep_watched (\<lambda>s c. c \<notin> dom (ep_watched s)) True (ep_chan_update sys) (ep_chan_remove sys)"
proof
  fix s :: ep_state and c ev
  obtain h p where s: "s = (h, p)" by (cases s)
  assume acc: "epoll_accepts sys" and inv: "ep_inv s"
  show "\<exists>s'. ep_chan_update sys c ev s = Inr s' \<and> ep_inv s' \<and> ep_fd s' = ep_fd s \<and>
      ep_watched s' = (ep_watched s)(c \<mapsto> ev) \<and>
      (\<forall>c'. c' \<noteq> c \<longrightarrow> c' \<notin> dom (ep_watched s) \<longrightarrow> c' \<notin> dom (ep_watched s'))"
    if pre: "c \<in> dom (ep_watched s) \<or> ev \<noteq> 0 \<and> c \<notin> dom (ep_watched s) \<and> (\<forall>c' \<in> dom (ep_watched s). ep_fd s c' \<noteq> ep_fd s c)"
  proof -
    obtain s' where "ep_chan_update sys c ev s = Inr s'" "ep_inv s'" "ep_fd s' = ep_fd s"
        "ep_watched s' = (ep_watched s)(c \<mapsto> ev)"
      using ep_chan_update_ok [OF acc inv [unfolded s], of c ev] pre unfolding s by blast
    then show ?thesis by simp
  qed
  show "\<exists>s'. ep_chan_remove sys c s = Inr s' \<and> ep_inv s' \<and> ep_fd s' = ep_fd s \<and>
      ep_watched s' = (ep_watched s)(c := None) \<and>
      (\<forall>c'. c' \<noteq> c \<longrightarrow> c' \<notin> dom (ep_watched s) \<longrightarrow> c' \<notin> dom (ep_watched s'))"
    if none: "ep_watched s c = Some 0"
  proof -
    obtain s' where "ep_chan_remove sys c s = Inr s'" "ep_inv s'" "ep_fd s' = ep_fd s"
        "ep_watched s' = (ep_watched s)(c := None)"
      using ep_chan_remove_ok [OF acc inv [unfolded s]] none unfolding s by blast
    then show ?thesis by simp
  qed
qed simp

text \<open>\<^verbatim>\<open>epoll_ctl\<close> as its manual page describes it for valid descriptors.\<close>

definition epoll_ctl_doc :: "epoll_op \<Rightarrow> int \<Rightarrow> bool \<Rightarrow> bool" where
  "epoll_ctl_doc operation fd present = (present = (operation \<noteq> EPOLL_CTL_ADD))"

interpretation epoll: poller ep_inv ep_fd ep_watched "\<lambda>s c. c \<notin> dom (ep_watched s)" True
  "ep_chan_update epoll_ctl_doc" "ep_chan_remove epoll_ctl_doc"
  by (rule epoll_is_poller) (simp add: epoll_accepts_def epoll_ctl_doc_def)

section \<open>Properties\<close>

lemma ep_interest_watched:
  assumes "ep_inv s" and "ev \<noteq> 0"
  shows "ep_interest (snd s) fd = Some (ev, c) \<longleftrightarrow> ep_fd s c = fd \<and> ep_watched s c = Some ev"
  using assms unfolding ep_inv_def ep_watched_def ep_fd_def is_none_event_def kNoneEvent_def
  by (auto simp: index_defs split: if_splits)



text \<open>What \<^verbatim>\<open>epoll_wait\<close> may report: events of the interest list, at most as many as fit.\<close>

definition epoll_wait_ok :: "ep_state \<Rightarrow> (32 word \<times> chan) list \<Rightarrow> bool" where
  "epoll_wait_ok s evs \<longleftrightarrow> length evs \<le> ep_events_size (snd s) \<and> distinct (map snd evs) \<and>
     (\<forall>(rv, c) \<in> set evs. \<exists>fd ev. ep_interest (snd s) fd = Some (ev, c))"

lemma ep_register_ok:
  assumes "\<And>rv c. (rv, c) \<in> set evs \<Longrightarrow> ep_map p (m_fd (h c)) = Some c" and "distinct (map snd evs)"
  shows "\<exists>h'. ep_register p evs h active = Inr (h', active @ map snd evs) \<and>
           (\<forall>c. h' c = (case map_of (map prod.swap evs) c of None \<Rightarrow> h c | Some rv \<Rightarrow> set_revents rv (h c)))"
  using assms
proof (induction evs arbitrary: h active)
  case (Cons e evs)
  obtain rv c where e: "e = (rv, c)" by (cases e)
  let ?h = "h(c := set_revents rv (h c))"
  have fd: "m_fd (?h c') = m_fd (h c')" for c' by (simp add: set_revents_def)
  have "\<exists>h'. ep_register p evs ?h (active @ [c]) = Inr (h', (active @ [c]) @ map snd evs) \<and>
      (\<forall>c'. h' c' = (case map_of (map prod.swap evs) c' of None \<Rightarrow> ?h c' | Some rv \<Rightarrow> set_revents rv (?h c')))"
  proof (rule Cons.IH)
    show "ep_map p (m_fd (?h c')) = Some c'" if "(rv', c') \<in> set evs" for rv' c'
      using Cons.prems(1) [of rv' c'] that fd [of c'] by simp
  qed (use Cons.prems(2) in simp)
  then obtain h' where h': "ep_register p evs ?h (active @ [c]) = Inr (h', active @ c # map snd evs)"
      "\<And>c'. h' c' = (case map_of (map prod.swap evs) c' of None \<Rightarrow> ?h c' | Some rv \<Rightarrow> set_revents rv (?h c'))"
    by auto
  have "ep_map p (m_fd (h c)) = Some c" using Cons.prems(1) [of rv c] e by simp
  moreover have "map_of (map prod.swap evs) c = None"
    using Cons.prems(2) e by (auto simp: map_of_eq_None_iff image_image)
  ultimately show ?case
    using h' e by (auto split: option.splits)
qed simp

text \<open>
  C25: Polling reports exactly what the kernel reported. When \<^verbatim>\<open>epoll_wait\<close> returns events of the interest
  list, at most as many as the event list has room for, the debug assertions hold, the active channels
  are those of the events in their order, each of them has received its events and no other channel is
  touched, the invariant stays, and the event list doubles exactly when it was full; on an error or a
  timeout nothing changes and no channel is active.
\<close>

theorem epoll_poll_correct:
  assumes "ep_inv (h, p)" and "epoll_wait_ok (h, p) evs" and "0 < ep_events_size p"
  shows "\<exists>h' p'. ep_poll (Inr evs) (h, p) = Inr ((h', p'), map snd evs) \<and> ep_inv (h', p') \<and>
           (\<forall>c. h' c = (case map_of (map prod.swap evs) c of None \<Rightarrow> h c | Some rv \<Rightarrow> (h c)\<lparr>m_recv_events := rv\<rparr>)) \<and>
           ep_events_size p' = (if length evs = ep_events_size p then 2 * ep_events_size p else ep_events_size p) \<and>
           ep_poll (Inl errno) (h, p) = Inr ((h, p), [])"
proof -
  have map: "ep_map p (m_fd (h c)) = Some c" if "(rv, c) \<in> set evs" for rv c
    using assms(1,2) that by (auto simp: epoll_wait_ok_def ep_inv_def index_defs)
  obtain h' where h': "ep_register p evs h [] = Inr (h', map snd evs)"
      "\<And>c. h' c = (case map_of (map prod.swap evs) c of None \<Rightarrow> h c | Some rv \<Rightarrow> set_revents rv (h c))"
    using ep_register_ok [of evs p h "[]"] map assms(2) by (auto simp: epoll_wait_ok_def)
  have same: "m_fd (h' c) = m_fd (h c)" "m_idx (h' c) = m_idx (h c)" "m_concerned_events (h' c) = m_concerned_events (h c)" for c
    by (simp_all add: h'(2) set_revents_def split: option.split)
  define p' where "p' = (if length evs = ep_events_size p then p\<lparr>ep_events_size := ep_events_size p * 2\<rparr> else p)"
  have "ep_poll (Inr evs) (h, p) = Inr ((h', p'), map snd evs)"
    using h' assms(2,3) by (cases evs) (auto simp: ep_poll_def register_active_channels_def p'_def epoll_wait_ok_def)
  moreover have "ep_inv (h', p')"
    using assms(1) by (simp add: ep_inv_def same is_none_event_def p'_def)
  ultimately show ?thesis
    using h'(2) by (auto simp: p'_def ep_poll_def set_revents_def split: option.splits)
qed

theorem epoll_poll_correct_witness:
  "\<exists>h' p'. ep_poll (Inr [(POLLIN, 0)]) ((\<lambda>c. Channel_init (int c))(0 := (Channel_init 7)\<lparr>m_idx := kAdded, m_concerned_events := kReadEvent\<rparr>),
      \<lparr> ep_map = [7 \<mapsto> 0], ep_interest = [7 \<mapsto> (kReadEvent, 0)], ep_events_size = 1 \<rparr>) = Inr ((h', p'), [0]) \<and>
    ep_events_size p' = 2"
proof -
  let ?h = "(\<lambda>c. Channel_init (int c))(0 := (Channel_init 7)\<lparr>m_idx := kAdded, m_concerned_events := kReadEvent\<rparr>)"
  let ?p = "\<lparr> ep_map = [7 \<mapsto> 0], ep_interest = [7 \<mapsto> (kReadEvent, 0)], ep_events_size = 1 \<rparr>"
  have "ep_inv (?h, ?p)" by (auto simp: ep_inv_def Channel_init_def index_defs)
  moreover have "epoll_wait_ok (?h, ?p) [(POLLIN, 0)]" by (auto simp: epoll_wait_ok_def)
  ultimately show ?thesis using epoll_poll_correct [of ?h ?p "[(POLLIN, 0)]" 0] by auto
qed

end
