(* ===== verification/PollPoller.thy ===== *)
theory PollPoller
  imports Poller_Spec
begin

text \<open>
  PollPoller.cc: the poller on top of \<^verbatim>\<open>poll(2)\<close>. A channel's index is the position of its \<^verbatim>\<open>pollfd\<close> in
  the vector; a channel that asks for no events has its descriptor \<open>fd\<close> stored as \<open>- fd - 1\<close> there, which
  the kernel ignores. A removed channel keeps its index, so that it cannot be added again.
\<close>

record pollfd =
  pfd_fd :: int
  pfd_events :: "16 word"
  pfd_revents :: "16 word"

record poll_poller =
  pp_map :: "int \<rightharpoonup> chan"
  pollfds :: "pollfd list"

type_synonym pp_state = "heap \<times> poll_poller"

definition PollPoller_init :: poll_poller where
  "PollPoller_init = \<lparr> pp_map = Map.empty, pollfds = [] \<rparr>"

definition pp_update_channel :: "bool \<Rightarrow> chan \<Rightarrow> pp_state \<Rightarrow> pp_state res" where
  "pp_update_channel in_thread c s =
     (case s of (h, p) \<Rightarrow>
        let fd = m_fd (h c); events = ucast (m_concerned_events (h c)) :: 16 word
        in if \<not> in_thread then mfatal ''abort_not_in_reactor_thread''
           else if m_idx (h c) < 0
           then massert (pp_map p fd = None) ''find(channel->fd()) == end()''
                  (let fds = pollfds p @ [\<lparr> pfd_fd = fd, pfd_events = events, pfd_revents = 0 \<rparr>]
                   in Inr (h(c := (h c)\<lparr>m_idx := int (length fds) - 1\<rparr>),
                           p\<lparr> pollfds := fds, pp_map := (pp_map p)(fd \<mapsto> c) \<rparr>))
           else massert (pp_map p fd \<noteq> None) ''find(channel->fd()) != end()''
               (massert (pp_map p fd = Some c) ''m_channel_map[channel->fd()] == channel''
               (let idx = m_idx (h c)
                in massert (0 \<le> idx \<and> idx < int (length (pollfds p))) ''0 <= idx && idx < pollfds_.size()''
                  (massert (pfd_fd (pollfds p ! nat idx) = fd \<or> pfd_fd (pollfds p ! nat idx) = - fd - 1)
                     ''pfd.fd == channel->fd() || pfd.fd == -channel->fd() - 1''
                  (Inr (h, p\<lparr> pollfds := (pollfds p)[nat idx :=
                       \<lparr> pfd_fd = (if is_none_event (h c) then - fd - 1 else fd), pfd_events = events, pfd_revents = 0 \<rparr>] \<rparr>))))))"

definition pp_remove_channel :: "bool \<Rightarrow> chan \<Rightarrow> pp_state \<Rightarrow> pp_state res" where
  "pp_remove_channel in_thread c s =
     (case s of (h, p) \<Rightarrow>
        let fd = m_fd (h c); idx = m_idx (h c); fds = pollfds p
        in if \<not> in_thread then mfatal ''abort_not_in_reactor_thread''
           else massert (pp_map p fd \<noteq> None) ''find(channel->fd()) != end()''
               (massert (pp_map p fd = Some c) ''m_channel_map[channel->fd()] == channel''
               (massert (is_none_event (h c)) ''channel->is_none_event()''
               (massert (0 \<le> idx \<and> idx < int (length fds)) ''0 <= idx && idx < pollfds_.size()''
               (massert (pfd_fd (fds ! nat idx) = - fd - 1 \<and>
                         scast (pfd_events (fds ! nat idx)) = m_concerned_events (h c))
                  ''pfd.fd == -channel->fd() - 1 && pfd.events == channel->concerned_events()''
               (let map' = (pp_map p)(fd := None)
                in if nat idx = length fds - 1
                   then Inr (h, p\<lparr> pp_map := map', pollfds := butlast fds \<rparr>)
                   else let at_end = pfd_fd (last fds);
                            fds = (fds[nat idx := last fds])[length fds - 1 := fds ! nat idx];
                            at_end = (if at_end < 0 then - at_end - 1 else at_end)
                        in case map' at_end of
                             None \<Rightarrow> mdefined False ''m_channel_map[channelAtEnd] is null'' (Inr (h, p))
                           | Some c' \<Rightarrow> Inr (h(c' := (h c')\<lparr>m_idx := idx\<rparr>),
                                             p\<lparr> pp_map := map', pollfds := butlast fds \<rparr>)))))))"

text \<open>The events of \<open>n\<close> entries at most are handed to their channels.\<close>

fun pp_register :: "poll_poller \<Rightarrow> nat \<Rightarrow> pollfd list \<Rightarrow> heap \<Rightarrow> chan list \<Rightarrow> (heap \<times> chan list) res" where
  "pp_register p n [] h active = Inr (h, active)"
| "pp_register p n (pfd # pfds) h active =
     (if n = 0 then Inr (h, active)
      else if 0 < sint (pfd_revents pfd)
      then (case pp_map p (pfd_fd pfd) of
              None \<Rightarrow> massert False ''ch != m_channel_map.end()'' (Inr (h, active))
            | Some c \<Rightarrow>
                massert (m_fd (h c) = pfd_fd pfd) ''channel->fd() == pfd->fd''
                  (pp_register p (n - 1) pfds (h(c := set_revents (scast (pfd_revents pfd)) (h c))) (active @ [c])))
      else pp_register p n pfds h active)"

text \<open>\<^verbatim>\<open>poll\<close> gives an errno, or writes the \<^verbatim>\<open>revents\<close> of every entry and returns how many of them are not
  zero.\<close>

definition pp_poll :: "int + 16 word list \<Rightarrow> pp_state \<Rightarrow> (pp_state \<times> chan list) res" where
  "pp_poll result s =
     (case s of (h, p) \<Rightarrow>
        mdefined (pollfds p \<noteq> []) ''*pollfds_.begin()''
          (case result of
             Inl errno \<Rightarrow> Inr ((h, p), [])
           | Inr revents \<Rightarrow>
               let p = p\<lparr> pollfds := map2 (\<lambda>pfd r. pfd\<lparr>pfd_revents := r\<rparr>) (pollfds p) revents \<rparr>;
                   num_events = length (List.filter (\<lambda>r. r \<noteq> 0) revents)
               in if 0 < num_events
                  then rbind (pp_register p num_events (pollfds p) h []) (\<lambda>(h, active). Inr ((h, p), active))
                  else Inr ((h, p), [])))"

definition pp_chan_update :: "chan \<Rightarrow> 32 word \<Rightarrow> pp_state \<Rightarrow> pp_state res" where
  "pp_chan_update c ev s = (case s of (h, p) \<Rightarrow> pp_update_channel True c (h(c := chan_set_events ev (h c)), p))"

definition pp_chan_remove :: "chan \<Rightarrow> pp_state \<Rightarrow> pp_state res" where
  "pp_chan_remove c s =
     (case s of (h, p) \<Rightarrow>
        massert (is_none_event (h c)) ''is_none_event()''
          (pp_remove_channel True c (h(c := (h c)\<lparr>m_is_in_reactor := False\<rparr>), p)))"

section \<open>Invariant\<close>

definition pp_slot :: "channel \<Rightarrow> int" where
  "pp_slot ch = (if is_none_event ch then - m_fd ch - 1 else m_fd ch)"

definition pp_unslot :: "int \<Rightarrow> int" where
  "pp_unslot x = (if x < 0 then - x - 1 else x)"

definition pp_entry_ok :: "pollfd list \<Rightarrow> int \<Rightarrow> channel \<Rightarrow> bool" where
  "pp_entry_ok fds fd ch \<longleftrightarrow>
     m_fd ch = fd \<and> 0 \<le> fd \<and> 0 \<le> m_idx ch \<and> nat (m_idx ch) < length fds \<and>
     pfd_fd (fds ! nat (m_idx ch)) = pp_slot ch \<and>
     pfd_events (fds ! nat (m_idx ch)) = ucast (m_concerned_events ch)"

definition pp_inv :: "pp_state \<Rightarrow> bool" where
  "pp_inv s \<longleftrightarrow>
     (\<forall>fd c. pp_map (snd s) fd = Some c \<longrightarrow> pp_entry_ok (pollfds (snd s)) fd (fst s c)) \<and>
     (\<forall>i < length (pollfds (snd s)). \<exists>fd c. pp_map (snd s) fd = Some c \<and> nat (m_idx (fst s c)) = i)"

definition pp_watched :: "pp_state \<Rightarrow> (chan \<rightharpoonup> 32 word)" where
  "pp_watched s = (\<lambda>c. if pp_map (snd s) (m_fd (fst s c)) = Some c then Some (m_concerned_events (fst s c)) else None)"

definition pp_fd :: "pp_state \<Rightarrow> chan \<Rightarrow> int" where
  "pp_fd s c = m_fd (fst s c)"

definition pp_fresh :: "pp_state \<Rightarrow> chan \<Rightarrow> bool" where
  "pp_fresh s c \<longleftrightarrow> m_idx (fst s c) < 0"

lemma pp_inv_entry: "pp_inv (h, p) \<Longrightarrow> pp_map p fd = Some c \<Longrightarrow> pp_entry_ok (pollfds p) fd (h c)"
  unfolding pp_inv_def by simp

lemmas pp_invD = pp_inv_entry [unfolded pp_entry_ok_def]

lemma pp_inv_covered:
  "pp_inv (h, p) \<Longrightarrow> i < length (pollfds p) \<Longrightarrow> \<exists>fd c. pp_map p fd = Some c \<and> nat (m_idx (h c)) = i"
  unfolding pp_inv_def by auto

lemma pp_invI:
  assumes "\<And>fd c. pp_map p fd = Some c \<Longrightarrow> pp_entry_ok (pollfds p) fd (h c)"
    and "\<And>i. i < length (pollfds p) \<Longrightarrow> \<exists>fd c. pp_map p fd = Some c \<and> nat (m_idx (h c)) = i"
  shows "pp_inv (h, p)"
  using assms unfolding pp_inv_def by auto

lemma pp_entry_ok_cong:
  assumes "pp_entry_ok fds fd ch" and "length fds \<le> length fds' \<or> nat (m_idx ch) < length fds'"
    and "fds' ! nat (m_idx ch) = fds ! nat (m_idx ch)"
  shows "pp_entry_ok fds' fd ch"
  using assms unfolding pp_entry_ok_def by auto

lemma pp_unslot_slot: "0 \<le> m_fd ch \<Longrightarrow> pp_unslot (pp_slot ch) = m_fd ch"
  by (simp add: pp_unslot_def pp_slot_def)

lemma pp_idx_inj:
  assumes "pp_inv (h, p)" "pp_map p fd = Some c" "pp_map p fd' = Some c'" "nat (m_idx (h c)) = nat (m_idx (h c'))"
  shows "fd = fd'"
  using pp_invD [OF assms(1,2)] pp_invD [OF assms(1,3)] assms(4) pp_unslot_slot [of "h c"] pp_unslot_slot [of "h c'"]
  by simp

text \<open>The shape of the three changes: a new last entry, an entry rewritten, an entry removed.\<close>

lemma pp_inv_push:
  assumes "pp_inv (h, p)" and "pp_map p (m_fd ch) = None" and "\<And>fd. pp_map p fd \<noteq> Some c" and "0 \<le> m_fd ch"
    and "m_idx ch = int (length (pollfds p))" and "pfd_fd pfd = pp_slot ch" and "pfd_events pfd = ucast (m_concerned_events ch)"
  shows "pp_inv (h(c := ch), p\<lparr> pollfds := pollfds p @ [pfd], pp_map := (pp_map p)(m_fd ch \<mapsto> c) \<rparr>)"
proof (rule pp_invI, goal_cases)
  case (1 fd c')
  show ?case
  proof (cases "fd = m_fd ch")
    case True
    then show ?thesis using 1 assms(4-7) by (simp add: pp_entry_ok_def)
  next
    case False
    then have m: "pp_map p fd = Some c'" "c' \<noteq> c" using 1 assms(3) by auto
    then show ?thesis
      using pp_entry_ok_cong [OF pp_inv_entry [OF assms(1) m(1)], of "pollfds p @ [pfd]"] pp_invD [OF assms(1) m(1)]
      by (simp add: nth_append)
  qed
next
  case (2 i)
  show ?case
  proof (cases "i < length (pollfds p)")
    case True
    then obtain fd c' where c': "pp_map p fd = Some c'" "nat (m_idx (h c')) = i"
      using pp_inv_covered [OF assms(1)] by blast
    moreover have "fd \<noteq> m_fd ch" "c' \<noteq> c" using c' assms(2,3) by auto
    ultimately show ?thesis by (intro exI [of _ fd] exI [of _ c']) simp
  next
    case False
    then show ?thesis using 2 assms(5) by (intro exI [of _ "m_fd ch"] exI [of _ c]) simp
  qed
qed

lemma pp_inv_rewrite:
  assumes "pp_inv (h, p)" and "pp_map p (m_fd (h c)) = Some c" and "m_fd ch = m_fd (h c)" and "m_idx ch = m_idx (h c)"
    and "pfd_fd pfd = pp_slot ch" and "pfd_events pfd = ucast (m_concerned_events ch)"
  shows "pp_inv (h(c := ch), p\<lparr> pollfds := (pollfds p)[nat (m_idx ch) := pfd] \<rparr>)"
proof (rule pp_invI, goal_cases)
  case (1 fd c')
  then have m: "pp_map p fd = Some c'" by simp
  show ?case
  proof (cases "c' = c")
    case True
    then show ?thesis using pp_invD [OF assms(1) m] assms(2-6) by (simp add: pp_entry_ok_def)
  next
    case False
    then have "nat (m_idx (h c')) \<noteq> nat (m_idx (h c))" using pp_idx_inj [OF assms(1) m assms(2)] m assms(2) by auto
    then show ?thesis
      using pp_entry_ok_cong [OF pp_inv_entry [OF assms(1) m], of "(pollfds p)[nat (m_idx ch) := pfd]"] False assms(4) by simp
  qed
next
  case (2 i)
  then show ?case using pp_inv_covered [OF assms(1), of i] assms(4) by auto
qed

lemma pp_inv_remove_last:
  assumes "pp_inv (h, p)" and "pp_map p fd = Some c" and "nat (m_idx (h c)) = length (pollfds p) - 1"
  shows "pp_inv (h, p\<lparr> pp_map := (pp_map p)(fd := None), pollfds := butlast (pollfds p) \<rparr>)"
proof (rule pp_invI, goal_cases)
  case (1 fd' c')
  then have m: "pp_map p fd' = Some c'" "fd' \<noteq> fd" by (auto split: if_splits)
  then have "nat (m_idx (h c')) \<noteq> length (pollfds p) - 1" using pp_idx_inj [OF assms(1) m(1) assms(2)] assms(3) by auto
  then have "nat (m_idx (h c')) < length (pollfds p) - 1" using pp_invD [OF assms(1) m(1)] by linarith
  then show ?case
    using pp_entry_ok_cong [OF pp_inv_entry [OF assms(1) m(1)], of "butlast (pollfds p)"] by (simp add: nth_butlast)
next
  case (2 i)
  then have "i < length (pollfds p)" by simp
  then obtain fd' c' where c': "pp_map p fd' = Some c'" "nat (m_idx (h c')) = i"
    using pp_inv_covered [OF assms(1), of i] by auto
  moreover have "fd' \<noteq> fd" using c' assms(2,3) 2 by auto
  ultimately show ?case by auto
qed

lemma pp_inv_remove_swap:
  assumes "pp_inv (h, p)" and "pp_map p fd = Some c" and "pp_map p fd2 = Some c2" and "fd2 \<noteq> fd"
    and "nat (m_idx (h c)) < length (pollfds p) - 1" and "nat (m_idx (h c2)) = length (pollfds p) - 1"
  shows "pp_inv (h(c2 := (h c2)\<lparr>m_idx := m_idx (h c)\<rparr>), p\<lparr> pp_map := (pp_map p)(fd := None),
           pollfds := butlast (((pollfds p)[nat (m_idx (h c)) := last (pollfds p)])[length (pollfds p) - 1 := x]) \<rparr>)"
proof (rule pp_invI, goal_cases)
  case (1 fd' c')
  let ?fds = "butlast (((pollfds p)[nat (m_idx (h c)) := last (pollfds p)])[length (pollfds p) - 1 := x])"
  have m: "pp_map p fd' = Some c'" "fd' \<noteq> fd" using 1 by (auto split: if_splits)
  have ne: "pollfds p \<noteq> []" using assms(5) by auto
  show ?case
  proof (cases "c' = c2")
    case True
    have "0 \<le> m_idx (h c)" using pp_invD [OF assms(1,2)] by simp
    then show ?thesis
      using True pp_invD [OF assms(1) m(1)] assms(5,6) ne
      by (simp add: pp_entry_ok_def pp_slot_def is_none_event_def nth_butlast last_conv_nth)
  next
    case False
    have "fd' \<noteq> fd2" using False m(1) assms(3) by auto
    then have "nat (m_idx (h c')) \<noteq> length (pollfds p) - 1" "nat (m_idx (h c')) \<noteq> nat (m_idx (h c))"
      using pp_idx_inj [OF assms(1) m(1) assms(3)] pp_idx_inj [OF assms(1) m(1) assms(2)] m(2) assms(6) by auto
    moreover from this have "nat (m_idx (h c')) < length (pollfds p) - 1" using pp_invD [OF assms(1) m(1)] by linarith
    ultimately show ?thesis
      using pp_entry_ok_cong [OF pp_inv_entry [OF assms(1) m(1)], of ?fds] False by (simp add: nth_butlast)
  qed
next
  case (2 i)
  then have "i < length (pollfds p)" by simp
  then obtain fd' c' where c': "pp_map p fd' = Some c'" "nat (m_idx (h c')) = i"
    using pp_inv_covered [OF assms(1), of i] by auto
  show ?case
  proof (cases "i = nat (m_idx (h c))")
    case True
    then show ?thesis using assms(3,4) by (intro exI [of _ fd2] exI [of _ c2]) simp
  next
    case False
    then have "fd' \<noteq> fd" "c' \<noteq> c2" using c' assms(2,6) 2 by auto
    then show ?thesis using c' by (intro exI [of _ fd'] exI [of _ c']) simp
  qed
qed

lemma pp_chan_update_ok:
  assumes inv: "pp_inv (h, p)" and fd: "0 \<le> m_fd (h c)"
    and pre: "pp_watched (h, p) c \<noteq> None \<or>
       ev \<noteq> 0 \<and> m_idx (h c) < 0 \<and> (\<forall>c' \<in> dom (pp_watched (h, p)). m_fd (h c') \<noteq> m_fd (h c))"
  shows "\<exists>h' p'. pp_chan_update c ev (h, p) = Inr (h', p') \<and> pp_inv (h', p') \<and> (\<forall>c. m_fd (h' c) = m_fd (h c)) \<and>
              pp_watched (h', p') = (pp_watched (h, p))(c \<mapsto> ev) \<and> (\<forall>c'. c' \<noteq> c \<longrightarrow> m_idx (h' c') = m_idx (h c'))"
proof (cases "pp_map p (m_fd (h c)) = Some c")
  case True
  let ?ch = "chan_set_events ev (h c)"
  let ?pfd = "\<lparr> pfd_fd = pp_slot ?ch, pfd_events = ucast ev, pfd_revents = 0 \<rparr>"
  note D = pp_invD [OF inv True]
  have ch: "m_fd ?ch = m_fd (h c)" "m_idx ?ch = m_idx (h c)" "m_concerned_events ?ch = ev"
    by (simp_all add: chan_set_events_def)
  have "pp_chan_update c ev (h, p) = Inr (h(c := ?ch), p\<lparr> pollfds := (pollfds p)[nat (m_idx ?ch) := ?pfd] \<rparr>)"
    using D True
    by (auto simp: pp_chan_update_def pp_update_channel_def Let_def ch pp_slot_def nat_less_iff)
  moreover have "pp_watched (h(c := ?ch), p\<lparr> pollfds := (pollfds p)[nat (m_idx ?ch) := ?pfd] \<rparr>) = (pp_watched (h, p))(c \<mapsto> ev)"
    using True by (auto simp: pp_watched_def ch fun_eq_iff)
  ultimately show ?thesis
    using pp_inv_rewrite [OF inv True ch(1,2), of ?pfd] by (auto simp: ch)
next
  case False
  then have new: "ev \<noteq> 0" "m_idx (h c) < 0" and other: "\<And>c'. pp_watched (h, p) c' \<noteq> None \<Longrightarrow> m_fd (h c') \<noteq> m_fd (h c)"
    using pre by (auto simp: pp_watched_def domIff split: if_splits)
  let ?ch = "(chan_set_events ev (h c))\<lparr>m_idx := int (length (pollfds p))\<rparr>"
  let ?pfd = "\<lparr> pfd_fd = m_fd (h c), pfd_events = ucast ev, pfd_revents = 0 \<rparr>"
  let ?p = "p\<lparr> pollfds := pollfds p @ [?pfd], pp_map := (pp_map p)(m_fd ?ch \<mapsto> c) \<rparr>"
  have none: "pp_map p (m_fd (h c)) = None"
  proof (cases "pp_map p (m_fd (h c))")
    case (Some c')
    then show ?thesis using other [of c'] pp_invD [OF inv Some] by (simp add: pp_watched_def)
  qed
  have nc: "pp_map p fd' \<noteq> Some c" for fd' using pp_invD [OF inv, of fd' c] new(2) by auto
  have ch: "m_fd ?ch = m_fd (h c)" "m_idx ?ch = int (length (pollfds p))" "m_concerned_events ?ch = ev"
      "pp_slot ?ch = m_fd (h c)"
    using new(1) by (simp_all add: chan_set_events_def pp_slot_def is_none_event_def kNoneEvent_def)
  have "pp_chan_update c ev (h, p) = Inr (h(c := ?ch), ?p)"
    using new(2) none by (simp add: pp_chan_update_def pp_update_channel_def Let_def chan_set_events_def)
  moreover have "pp_inv (h(c := ?ch), ?p)"
    using pp_inv_push [OF inv, of ?ch c ?pfd] none nc fd ch by simp
  moreover have "pp_watched (h(c := ?ch), ?p) = (pp_watched (h, p))(c \<mapsto> ev)"
  proof
    show "pp_watched (h(c := ?ch), ?p) c' = ((pp_watched (h, p))(c \<mapsto> ev)) c'" for c'
      using none ch by (cases "c' = c") (simp_all add: pp_watched_def)
  qed
  moreover have "\<forall>c'. m_fd ((h(c := ?ch)) c') = m_fd (h c')" using ch(1) by simp
  moreover have "\<forall>c'. c' \<noteq> c \<longrightarrow> m_idx ((h(c := ?ch)) c') = m_idx (h c')" by simp
  ultimately show ?thesis by blast
qed

lemma pp_chan_remove_ok:
  assumes inv: "pp_inv (h, p)" and none: "pp_watched (h, p) c = Some 0"
  shows "\<exists>h' p'. pp_chan_remove c (h, p) = Inr (h', p') \<and> pp_inv (h', p') \<and> (\<forall>c. m_fd (h' c) = m_fd (h c)) \<and>
              pp_watched (h', p') = (pp_watched (h, p))(c := None) \<and> (\<forall>c'. m_idx (h c') < 0 \<longrightarrow> m_idx (h' c') < 0) \<and>
              pp_map p' (m_fd (h c)) = None \<and> m_idx (h' c) = m_idx (h c)"
proof -
  define h1 where "h1 = h(c := (h c)\<lparr>m_is_in_reactor := False\<rparr>)"
  define fd where "fd = m_fd (h c)"
  have same: "m_fd (h1 c') = m_fd (h c')" "m_idx (h1 c') = m_idx (h c')" "m_concerned_events (h1 c') = m_concerned_events (h c')" for c'
    by (simp_all add: h1_def)
  have inv1: "pp_inv (h1, p)" using inv by (simp add: pp_inv_def pp_entry_ok_def pp_slot_def is_none_event_def same)
  have m: "pp_map p fd = Some c" and z: "m_concerned_events (h c) = 0" using none by (auto simp: pp_watched_def fd_def split: if_splits)
  note D = pp_invD [OF inv1 m]
  have slot: "pp_slot (h1 c) = - fd - 1" "is_none_event (h c)" "is_none_event (h1 c)"
    using z by (simp_all add: pp_slot_def is_none_event_def kNoneEvent_def same fd_def)
  define i where "i = nat (m_idx (h1 c))"
  let ?n = "length (pollfds p)" and ?m = "(pp_map p)(fd := None)"
  have asserts: "pp_chan_remove c (h, p) =
      (if i = ?n - 1 then Inr (h1, p\<lparr> pp_map := ?m, pollfds := butlast (pollfds p) \<rparr>)
       else case ?m (pp_unslot (pfd_fd (last (pollfds p)))) of
              None \<Rightarrow> Inl (Undefined ''m_channel_map[channelAtEnd] is null'')
            | Some c' \<Rightarrow> Inr (h1(c' := (h1 c')\<lparr>m_idx := m_idx (h1 c)\<rparr>), p\<lparr> pp_map := ?m,
                pollfds := butlast (((pollfds p)[i := last (pollfds p)])[?n - 1 := pollfds p ! i]) \<rparr>))"
  proof -
    have "pp_chan_remove c (h, p) = pp_remove_channel True c (h1, p)"
      using slot(2) by (simp add: pp_chan_remove_def h1_def)
    moreover have "m_fd (h1 c) = fd" "m_concerned_events (h1 c) = 0" "m_idx (h1 c) < int ?n"
      "pfd_fd (pollfds p ! i) = - fd - 1" "pfd_events (pollfds p ! i) = 0" "0 \<le> m_idx (h1 c)"
      using D slot z by (auto simp: same fd_def i_def)
    ultimately show ?thesis
      using slot(3) m by (simp add: pp_remove_channel_def Let_def pp_unslot_def mdefined_def flip: i_def cong: option.case_cong)
  qed
  have watched: "pp_watched (h', p\<lparr> pp_map := ?m, pollfds := fds \<rparr>) = (pp_watched (h, p))(c := None)"
    if "\<And>c'. m_fd (h' c') = m_fd (h c')" "\<And>c'. m_concerned_events (h' c') = m_concerned_events (h c')" for h' fds
    using m that by (auto simp: pp_watched_def fun_eq_iff fd_def)
  show ?thesis
  proof (cases "i = ?n - 1")
    case True
    then show ?thesis
      using asserts pp_inv_remove_last [OF inv1 m] watched [of h1 "butlast (pollfds p)"]
      by (simp add: i_def same fd_def)
  next
    case False
    then have i: "i < ?n - 1" using D i_def by linarith
    then have "?n - 1 < ?n" by simp
    then obtain fd2 c2 where c2: "pp_map p fd2 = Some c2" "nat (m_idx (h1 c2)) = ?n - 1"
      using pp_inv_covered [OF inv1, of "?n - 1"] by auto
    note D2 = pp_invD [OF inv1 c2(1)]
    have ne: "fd2 \<noteq> fd" using c2 m i by (auto simp: i_def)
    have "pfd_fd (last (pollfds p)) = pp_slot (h1 c2)" using D2 c2(2) last_conv_nth [of "pollfds p"] by fastforce
    then have "pp_unslot (pfd_fd (last (pollfds p))) = fd2" using D2 pp_unslot_slot [of "h1 c2"] by simp
    then have "pp_chan_remove c (h, p) = Inr (h1(c2 := (h1 c2)\<lparr>m_idx := m_idx (h1 c)\<rparr>), p\<lparr> pp_map := ?m,
                pollfds := butlast (((pollfds p)[i := last (pollfds p)])[?n - 1 := pollfds p ! i]) \<rparr>)"
      using asserts False c2(1) ne by simp
    moreover note pp_inv_remove_swap [OF inv1 m c2(1) ne i [unfolded i_def] c2(2), of "pollfds p ! i"]
    moreover have "m_idx (h c') < 0 \<longrightarrow> m_idx ((h1(c2 := (h1 c2)\<lparr>m_idx := m_idx (h1 c)\<rparr>)) c') < 0" for c'
      using D2 same by auto
    moreover have "c2 \<noteq> c" using ne D2 by (auto simp: same fd_def)
    ultimately show ?thesis
      by (auto simp: i_def same fd_def intro!: watched [unfolded fd_def])
  qed
qed

interpretation poll: poller pp_inv pp_fd pp_watched pp_fresh False pp_chan_update pp_chan_remove
proof
  fix s :: pp_state and c ev
  obtain h p where s: "s = (h, p)" by (cases s)
  assume inv: "pp_inv s"
  show "\<exists>s'. pp_chan_update c ev s = Inr s' \<and> pp_inv s' \<and> pp_fd s' = pp_fd s \<and> pp_watched s' = (pp_watched s)(c \<mapsto> ev) \<and>
      (\<forall>c'. c' \<noteq> c \<longrightarrow> pp_fresh s c' \<longrightarrow> pp_fresh s' c')"
    if pre: "0 \<le> pp_fd s c"
        "c \<in> dom (pp_watched s) \<or> ev \<noteq> 0 \<and> pp_fresh s c \<and> (\<forall>c' \<in> dom (pp_watched s). pp_fd s c' \<noteq> pp_fd s c)"
    using pp_chan_update_ok [OF inv [unfolded s], of c ev] pre unfolding s
    by (fastforce simp: pp_fd_def pp_fresh_def fun_eq_iff domIff)
  show "\<exists>s'. pp_chan_remove c s = Inr s' \<and> pp_inv s' \<and> pp_fd s' = pp_fd s \<and> pp_watched s' = (pp_watched s)(c := None) \<and>
      (\<forall>c'. c' \<noteq> c \<longrightarrow> pp_fresh s c' \<longrightarrow> pp_fresh s' c')"
    if none: "pp_watched s c = Some 0"
    using pp_chan_remove_ok [OF inv [unfolded s], of c] none unfolding s
    by (fastforce simp: pp_fd_def pp_fresh_def fun_eq_iff)
qed simp

section \<open>Properties\<close>

lemma pp_inv_init: "pp_inv (h, PollPoller_init)"
  by (simp add: pp_inv_def PollPoller_init_def)

lemma pp_entries_watched:
  assumes inv: "pp_inv (h, p)" and fd: "0 \<le> fd"
  shows "(\<exists>pfd \<in> set (pollfds p). pfd_fd pfd = fd \<and> pfd_events pfd = e) \<longleftrightarrow>
         (\<exists>c ev. pp_watched (h, p) c = Some ev \<and> ev \<noteq> 0 \<and> m_fd (h c) = fd \<and> e = ucast ev)"
proof
  assume "\<exists>pfd \<in> set (pollfds p). pfd_fd pfd = fd \<and> pfd_events pfd = e"
  then obtain i where i: "i < length (pollfds p)" "pfd_fd (pollfds p ! i) = fd" "pfd_events (pollfds p ! i) = e"
    by (auto simp: in_set_conv_nth)
  then obtain fd' c where c: "pp_map p fd' = Some c" "nat (m_idx (h c)) = i" using pp_inv_covered [OF inv] by blast
  note D = pp_invD [OF inv c(1)]
  have "\<not> is_none_event (h c)" using D c(2) i(2) fd by (auto simp: pp_slot_def)
  then show "\<exists>c ev. pp_watched (h, p) c = Some ev \<and> ev \<noteq> 0 \<and> m_fd (h c) = fd \<and> e = ucast ev"
    using D c i by (intro exI [of _ c]) (auto simp: pp_watched_def pp_slot_def is_none_event_def kNoneEvent_def)
next
  assume "\<exists>c ev. pp_watched (h, p) c = Some ev \<and> ev \<noteq> 0 \<and> m_fd (h c) = fd \<and> e = ucast ev"
  then obtain c where c: "pp_map p fd = Some c" "m_concerned_events (h c) \<noteq> 0" "e = ucast (m_concerned_events (h c))"
    by (auto simp: pp_watched_def split: if_splits)
  note D = pp_invD [OF inv c(1)]
  then show "\<exists>pfd \<in> set (pollfds p). pfd_fd pfd = fd \<and> pfd_events pfd = e"
    using c by (intro bexI [of _ "pollfds p ! nat (m_idx (h c))"]) (auto simp: pp_slot_def is_none_event_def kNoneEvent_def)
qed

text \<open>
  C38: The poll poller keeps the same contract for channels that are added once. Whatever the order in
  which new channels are added, changed, ended and removed, no assertion of PollPoller.cc fails, the
  positions in the vector stay consistent through the swaps with the last entry, the poller watches
  exactly the channels added and not removed, and the entries the kernel looks at (those with a
  descriptor that is not negative) are exactly the watched channels that ask for events.
\<close>

theorem poll_poller_correct:
  assumes "\<And>c. m_idx (h c) < 0" and "chan_ops_legal False (\<lambda>c. m_fd (h c)) ops {} Map.empty"
  shows "\<exists>h' p. chan_ops_run pp_chan_update pp_chan_remove ops (h, PollPoller_init) = Inr (h', p) \<and>
             pp_watched (h', p) = chan_ops_watched ops Map.empty \<and>
             (\<forall>fd e. 0 \<le> fd \<longrightarrow>
                ((\<exists>pfd \<in> set (pollfds p). pfd_fd pfd = fd \<and> pfd_events pfd = e) \<longleftrightarrow>
                 (\<exists>c ev. chan_ops_watched ops Map.empty c = Some ev \<and> ev \<noteq> 0 \<and> m_fd (h c) = fd \<and> e = ucast ev)))"
proof -
  have w: "pp_watched (h, PollPoller_init) = Map.empty" and f: "pp_fd (h, PollPoller_init) = (\<lambda>c. m_fd (h c))"
    by (simp_all add: pp_watched_def pp_fd_def PollPoller_init_def fun_eq_iff)
  have "pp_fresh (h, PollPoller_init) c" for c using assms(1) by (simp add: pp_fresh_def)
  then obtain s where s: "chan_ops_run pp_chan_update pp_chan_remove ops (h, PollPoller_init) = Inr s" "pp_inv s"
      "pp_fd s = (\<lambda>c. m_fd (h c))" "pp_watched s = chan_ops_watched ops Map.empty"
    using poll.ops_run [OF pp_inv_init, of "{}" h ops] assms(2) unfolding w f by blast
  obtain h' p where sp: "s = (h', p)" by (cases s)
  have "m_fd (h' c) = m_fd (h c)" for c using fun_cong [OF s(3), of c] by (simp add: pp_fd_def sp)
  then show ?thesis using s pp_entries_watched [of h' p] by (simp add: sp del: fun_upd_apply)
qed

theorem poll_poller_correct_witness:
  "\<exists>h' p. chan_ops_run pp_chan_update pp_chan_remove
       [Update 0 kReadEvent, Update 1 kReadEvent, Update 2 kWriteEvent, Update 0 0, Remove 0, Update 2 0]
       (\<lambda>c. Channel_init (int c + 3), PollPoller_init) = Inr (h', p) \<and>
     pp_watched (h', p) = [1 \<mapsto> kReadEvent, 2 \<mapsto> 0]"
proof -
  let ?ops = "[Update 0 kReadEvent, Update 1 kReadEvent, Update 2 kWriteEvent, Update 0 0, Remove 0, Update 2 0]"
  let ?h = "\<lambda>c::nat. Channel_init (int c + 3)"
  have e: "kReadEvent \<noteq> 0" "kWriteEvent \<noteq> 0" by (simp_all add: event_defs)
  have "m_idx (?h c) < 0" for c by (simp add: Channel_init_def)
  moreover have "chan_ops_legal False (\<lambda>c. m_fd (?h c)) ?ops {} Map.empty" using e by (simp add: Channel_init_def)
  moreover have "chan_ops_watched ?ops Map.empty = [1 \<mapsto> kReadEvent, 2 \<mapsto> 0]" by (simp add: fun_eq_iff)
  ultimately show ?thesis using poll_poller_correct [of ?h ?ops] by (metis (no_types, lifting))
qed

text \<open>
  Where the two pollers differ. The poll poller trips an assertion on a channel that is ended before
  it ever asked for an event and then removed, as the destructor of an acceptor that never listened
  does, because the first update of a channel does not store the negated descriptor; and it trips one
  on a channel that is added again after its removal, because the removal keeps the index.
\<close>

theorem poll_poller_fails:
  assumes "pp_inv (h, p)" and "0 \<le> m_fd (h c)"
  shows "(m_idx (h c) < 0 \<and> pp_map p (m_fd (h c)) = None \<longrightarrow>
            rbind (pp_chan_update c 0 (h, p)) (pp_chan_remove c) =
            Inl (AssertFailed ''pfd.fd == -channel->fd() - 1 && pfd.events == channel->concerned_events()'')) \<and>
         (pp_watched (h, p) c = Some 0 \<longrightarrow>
            rbind (pp_chan_remove c (h, p)) (pp_chan_update c ev) = Inl (AssertFailed ''find(channel->fd()) != end()''))"
proof (intro conjI impI)
  assume "m_idx (h c) < 0 \<and> pp_map p (m_fd (h c)) = None"
  then show "rbind (pp_chan_update c 0 (h, p)) (pp_chan_remove c) =
      Inl (AssertFailed ''pfd.fd == -channel->fd() - 1 && pfd.events == channel->concerned_events()'')"
    using assms(2)
    by (simp add: pp_chan_update_def pp_update_channel_def Let_def chan_set_events_def pp_chan_remove_def
        is_none_event_def kNoneEvent_def pp_remove_channel_def massert_def nth_append)
next
  assume w: "pp_watched (h, p) c = Some 0"
  then have "pp_map p (m_fd (h c)) = Some c" by (simp add: pp_watched_def split: if_splits)
  then have idx: "0 \<le> m_idx (h c)" using pp_invD [OF assms(1)] by blast
  obtain h' p' where s: "pp_chan_remove c (h, p) = Inr (h', p')" "\<forall>c. m_fd (h' c) = m_fd (h c)"
      "pp_map p' (m_fd (h c)) = None" "m_idx (h' c) = m_idx (h c)"
    using pp_chan_remove_ok [OF assms(1) w] by blast
  show "rbind (pp_chan_remove c (h, p)) (pp_chan_update c ev) = Inl (AssertFailed ''find(channel->fd()) != end()'')"
    using s idx by (simp add: pp_chan_update_def pp_update_channel_def Let_def chan_set_events_def massert_def)
qed

theorem poll_poller_fails_witness:
  "rbind (pp_chan_update 0 0 (\<lambda>c. Channel_init 5, PollPoller_init)) (pp_chan_remove 0) =
     Inl (AssertFailed ''pfd.fd == -channel->fd() - 1 && pfd.events == channel->concerned_events()'')"
  using poll_poller_fails [OF pp_inv_init, of "\<lambda>c. Channel_init 5" 0]
  by (simp add: Channel_init_def PollPoller_init_def)

text \<open>What \<^verbatim>\<open>poll\<close> may write: nothing into the entries it ignores, and no bit that makes a \<^verbatim>\<open>short\<close> negative.\<close>

definition poll_result_ok :: "poll_poller \<Rightarrow> 16 word list \<Rightarrow> bool" where
  "poll_result_ok p rs \<longleftrightarrow> length rs = length (pollfds p) \<and>
     (\<forall>i < length rs. 0 \<le> sint (rs ! i) \<and> (pfd_fd (pollfds p ! i) < 0 \<longrightarrow> rs ! i = 0))"

lemma set_revents_self: "\<exists>rv. ch = set_revents rv ch"
  by (rule exI [of _ "m_recv_events ch"]) (simp add: set_revents_def)

lemma pp_register_ok:
  assumes "\<And>pfd. pfd \<in> set pfds \<Longrightarrow> pfd_revents pfd \<noteq> 0 \<Longrightarrow>
      0 < sint (pfd_revents pfd) \<and> (\<exists>c. pp_map p (pfd_fd pfd) = Some c \<and> m_fd (h c) = pfd_fd pfd)"
    and "length (List.filter (\<lambda>pfd. pfd_revents pfd \<noteq> 0) pfds) \<le> n"
  shows "\<exists>h'. pp_register p n pfds h active =
      Inr (h', active @ map (\<lambda>pfd. the (pp_map p (pfd_fd pfd))) (List.filter (\<lambda>pfd. pfd_revents pfd \<noteq> 0) pfds)) \<and>
      (\<forall>c. \<exists>rv. h' c = set_revents rv (h c))"
  using assms
proof (induction pfds arbitrary: n h active)
  case Nil
  then show ?case by (intro exI [of _ h]) (auto intro: set_revents_self)
next
  case (Cons pfd pfds)
  show ?case
  proof (cases "pfd_revents pfd = 0")
    case True
    then show ?thesis
    proof (cases n)
      case 0
      then have "List.filter (\<lambda>pfd. pfd_revents pfd \<noteq> 0) (pfd # pfds) = []" using Cons.prems(2) by simp
      then show ?thesis using 0
        by (intro exI [of _ h]) (auto intro: set_revents_self)
    next
      case (Suc k)
      then show ?thesis using Cons.IH [of h n active] Cons.prems True by simp
    qed
  next
    case False
    then obtain c where c: "0 < sint (pfd_revents pfd)" "pp_map p (pfd_fd pfd) = Some c" "m_fd (h c) = pfd_fd pfd"
      using Cons.prems(1) [of pfd] by auto
    let ?h = "h(c := set_revents (scast (pfd_revents pfd)) (h c))"
    have fd: "m_fd (?h c') = m_fd (h c')" for c' by (simp add: set_revents_def)
    have n: "length (List.filter (\<lambda>pfd. pfd_revents pfd \<noteq> 0) pfds) \<le> n - 1" "n \<noteq> 0" using Cons.prems(2) False by auto
    have "\<exists>h'. pp_register p (n - 1) pfds ?h (active @ [c]) =
        Inr (h', (active @ [c]) @ map (\<lambda>pfd. the (pp_map p (pfd_fd pfd))) (List.filter (\<lambda>pfd. pfd_revents pfd \<noteq> 0) pfds)) \<and>
        (\<forall>c'. \<exists>rv. h' c' = set_revents rv (?h c'))"
    proof (rule Cons.IH [OF _ n(1)], goal_cases)
      case (1 pfd')
      then show ?case using Cons.prems(1) [of pfd'] by (simp only: fd) simp
    qed
    then obtain h' where h': "pp_register p (n - 1) pfds ?h (active @ [c]) =
        Inr (h', (active @ [c]) @ map (\<lambda>pfd. the (pp_map p (pfd_fd pfd))) (List.filter (\<lambda>pfd. pfd_revents pfd \<noteq> 0) pfds))"
        "\<And>c'. \<exists>rv. h' c' = set_revents rv (?h c')" by blast
    have "\<exists>rv. h' c' = set_revents rv (h c')" for c'
      using h'(2) [of c'] by (cases "c' = c") (auto simp: set_revents_def)
    then show ?thesis using c n(2) False h'(1) by auto
  qed
qed

text \<open>
  Polling with poll(2). When the kernel reports only non-negative \<^verbatim>\<open>revents\<close>, none for the ignored
  entries, the assertions of the dispatch hold, every channel with an event becomes active in the order
  of the vector, nothing but the received events of channels changes and the invariant stays.
\<close>

theorem poll_poll_correct:
  assumes inv: "pp_inv (h, p)" and "pollfds p \<noteq> []" and ok: "poll_result_ok p rs"
  shows "\<exists>h' p'. pp_poll (Inr rs) (h, p) = Inr ((h', p'),
            map (\<lambda>i. the (pp_map p (pfd_fd (pollfds p ! i)))) (List.filter (\<lambda>i. rs ! i \<noteq> 0) [0..<length rs])) \<and>
          pp_inv (h', p') \<and> (\<forall>c. \<exists>rv. h' c = set_revents rv (h c))"
proof -
  define q where "q = p\<lparr> pollfds := map2 (\<lambda>pfd r. pfd\<lparr>pfd_revents := r\<rparr>) (pollfds p) rs \<rparr>"
  have len: "length (pollfds q) = length (pollfds p)" "length rs = length (pollfds p)"
    using ok by (simp_all add: q_def poll_result_ok_def)
  have nth: "pollfds q ! i = (pollfds p ! i)\<lparr>pfd_revents := rs ! i\<rparr>" if "i < length rs" for i
    using that len by (simp add: q_def)
  have list: "pollfds q = map (\<lambda>i. (pollfds p ! i)\<lparr>pfd_revents := rs ! i\<rparr>) [0..<length rs]"
    using len nth by (intro nth_equalityI) auto
  have rs: "rs = map (\<lambda>i. rs ! i) [0..<length rs]" by (simp add: map_nth)
  have num: "length (List.filter (\<lambda>r. r \<noteq> 0) rs) = length (List.filter (\<lambda>i. rs ! i \<noteq> 0) [0..<length rs])"
    by (subst rs) (simp add: filter_map comp_def)
  have reg: "0 < sint (pfd_revents pfd) \<and> (\<exists>c. pp_map q (pfd_fd pfd) = Some c \<and> m_fd (h c) = pfd_fd pfd)"
    if pfd: "pfd \<in> set (pollfds q)" "pfd_revents pfd \<noteq> 0" for pfd
  proof -
    obtain i where i: "i < length rs" "pfd = (pollfds p ! i)\<lparr>pfd_revents := rs ! i\<rparr>" using pfd(1) list by auto
    obtain fd c where c: "pp_map p fd = Some c" "nat (m_idx (h c)) = i" using pp_inv_covered [OF inv, of i] i len by auto
    have nz: "rs ! i \<noteq> 0" "0 \<le> sint (rs ! i)" "\<not> pfd_fd (pollfds p ! i) < 0"
      using ok i pfd(2) unfolding poll_result_ok_def by auto
    moreover have "sint (rs ! i) \<noteq> 0" using nz(1) by (metis sint_0 signed_word_eqI)
    moreover have "pfd_fd (pollfds p ! i) = fd"
      using pp_invD [OF inv c(1)] c(2) nz(3) by (auto simp: pp_slot_def split: if_splits)
    ultimately show ?thesis using i(2) c pp_invD [OF inv c(1)] by (auto simp: q_def)
  qed
  have act: "map (\<lambda>pfd. the (pp_map q (pfd_fd pfd))) (List.filter (\<lambda>pfd. pfd_revents pfd \<noteq> 0) (pollfds q)) =
      map (\<lambda>i. the (pp_map p (pfd_fd (pollfds p ! i)))) (List.filter (\<lambda>i. rs ! i \<noteq> 0) [0..<length rs])"
    unfolding list by (simp add: filter_map comp_def q_def)
  have cnt: "length (List.filter (\<lambda>pfd. pfd_revents pfd \<noteq> 0) (pollfds q)) = length (List.filter (\<lambda>r. r \<noteq> 0) rs)"
    unfolding num list by (simp add: filter_map comp_def)
  obtain h' where h': "pp_register q (length (List.filter (\<lambda>r. r \<noteq> 0) rs)) (pollfds q) h [] =
        Inr (h', map (\<lambda>i. the (pp_map p (pfd_fd (pollfds p ! i)))) (List.filter (\<lambda>i. rs ! i \<noteq> 0) [0..<length rs]))"
      "\<And>c. \<exists>rv. h' c = set_revents rv (h c)"
    using pp_register_ok [of "pollfds q" q h "length (List.filter (\<lambda>r. r \<noteq> 0) rs)" "[]", OF reg] act cnt by auto
  have inv': "pp_inv (g, q)" if g: "\<And>c. \<exists>rv. g c = set_revents rv (h c)" for g
  proof -
    have same: "m_fd (g c) = m_fd (h c)" "m_idx (g c) = m_idx (h c)" "m_concerned_events (g c) = m_concerned_events (h c)" for c
      using g [of c] by (auto simp: set_revents_def)
    have "pp_entry_ok (pollfds q) fd (g c) = pp_entry_ok (pollfds p) fd (h c)" for fd c
      using len nth by (auto simp: pp_entry_ok_def pp_slot_def is_none_event_def same)
    then show ?thesis using inv len by (simp add: pp_inv_def same) (simp add: q_def)
  qed
  show ?thesis
  proof (cases "0 < length (List.filter (\<lambda>r. r \<noteq> 0) rs)")
    case True
    then have "pp_poll (Inr rs) (h, p) = Inr ((h', q),
        map (\<lambda>i. the (pp_map p (pfd_fd (pollfds p ! i)))) (List.filter (\<lambda>i. rs ! i \<noteq> 0) [0..<length rs]))"
      using h'(1) assms(2) unfolding pp_poll_def prod.case Let_def sum.case q_def [symmetric] by simp
    then show ?thesis using inv' [OF h'(2)] h'(2) by blast
  next
    case False
    then have "List.filter (\<lambda>i. rs ! i \<noteq> 0) [0..<length rs] = []" using num by simp
    moreover have "pp_poll (Inr rs) (h, p) = Inr ((h, q), [])"
      using False assms(2) unfolding pp_poll_def prod.case Let_def sum.case q_def [symmetric] by simp
    ultimately show ?thesis using inv' [of h] set_revents_self by simp
  qed
qed

theorem poll_poll_correct_witness:
  "\<exists>h' p'. pp_poll (Inr [1]) ((\<lambda>c. Channel_init 5)(0 := (Channel_init 7)\<lparr>m_idx := 0, m_concerned_events := kReadEvent\<rparr>),
      \<lparr> pp_map = [7 \<mapsto> 0], pollfds = [\<lparr> pfd_fd = 7, pfd_events = ucast kReadEvent, pfd_revents = 0 \<rparr>] \<rparr>) = Inr ((h', p'), [0])"
proof -
  let ?h = "(\<lambda>c::nat. Channel_init 5)(0 := (Channel_init 7)\<lparr>m_idx := 0, m_concerned_events := kReadEvent\<rparr>)"
  let ?p = "\<lparr> pp_map = [7 \<mapsto> 0], pollfds = [\<lparr> pfd_fd = 7, pfd_events = ucast kReadEvent, pfd_revents = 0 \<rparr>] \<rparr>"
  have "kReadEvent \<noteq> 0" by (simp add: event_defs)
  then have "pp_inv (?h, ?p)"
    by (auto simp: pp_inv_def pp_entry_ok_def pp_slot_def Channel_init_def is_none_event_def kNoneEvent_def)
  moreover have "poll_result_ok ?p [1]" by (simp add: poll_result_ok_def)
  ultimately show ?thesis using poll_poll_correct [of ?h ?p "[1]"] by auto
qed

end
