(* ===== verification/TimerQueue.thy ===== *)
theory TimerQueue
  imports Timestamp Complex_Main "HOL-Library.Product_Lexorder"
begin

text \<open>
  Timer.h, Timer.cc, TimerId.h and TimerQueue.cc. Timers live in a store indexed by their address, so
  that a dangling \<^verbatim>\<open>Timer*\<close> is visible; a \<^verbatim>\<open>std::set\<close> is a sorted list without duplicates. The allocator
  is the argument \<open>alloc\<close>: it gives an address that is not in use, or nothing, which is
  \<^verbatim>\<open>std::bad_alloc\<close>. The conversion of an interval to microseconds is the argument \<open>to_micros\<close> of
  \<open>add_second\<close>. A callback is the list of the timer operations it performs; \<open>cb\<close> gives it for the id of
  a timer. Timers created by other threads wait in \<open>tq_pending\<close> until the reactor runs their
  \<^verbatim>\<open>add_timer_in_reactor\<close>. \<open>tq_alarm\<close> holds when the timer descriptor was last set, and when it will fire.
\<close>

section \<open>Timers\<close>

type_synonym addr = nat

definition UINTPTR_MAX :: nat where "UINTPTR_MAX = 2 ^ 64 - 1"

record timer =
  m_time_expire :: timestamp
  m_interval :: real
  m_is_repeated :: bool
  m_global_timer_id :: int

definition Timer_init :: "timestamp \<Rightarrow> real \<Rightarrow> int \<Rightarrow> timer" where
  "Timer_init when interval gid =
     \<lparr> m_time_expire = when, m_interval = interval, m_is_repeated = (interval > 0), m_global_timer_id = gid \<rparr>"

definition timer_restart :: "(real \<Rightarrow> int) \<Rightarrow> timestamp \<Rightarrow> timer \<Rightarrow> timer" where
  "timer_restart to_micros now tm =
     (if m_is_repeated tm then tm\<lparr>m_time_expire := add_second to_micros now (m_interval tm)\<rparr>
      else tm\<lparr>m_time_expire := ts_invalid\<rparr>)"

section \<open>Sets\<close>

definition sset_insert :: "'a::linorder \<Rightarrow> 'a list \<Rightarrow> 'a list \<times> bool" where
  "sset_insert x xs = (if x \<in> set xs then (xs, False) else (insort x xs, True))"

definition sset_erase :: "'a \<Rightarrow> 'a list \<Rightarrow> 'a list \<times> nat" where
  "sset_erase x xs = (removeAll x xs, if x \<in> set xs then 1 else 0)"

text \<open>\<^verbatim>\<open>lower_bound\<close>: what is before the first element not less than \<open>x\<close>, and what is from there on.\<close>

definition sset_split :: "'a::linorder \<Rightarrow> 'a list \<Rightarrow> 'a list \<times> 'a list" where
  "sset_split x xs = (takeWhile (\<lambda>y. y < x) xs, dropWhile (\<lambda>y. y < x) xs)"

section \<open>The queue\<close>

type_synonym entry = "timestamp \<times> addr"
type_synonym active_timer = "addr \<times> int"

record timer_queue =
  tq_store :: "addr \<rightharpoonup> timer"
  g_global_timer_id :: int
  m_timers_set :: "entry list"
  m_active_timers_set :: "active_timer list"
  m_is_calling_expired_timers :: bool
  m_canceling_timers :: "active_timer list"
  tq_pending :: "addr list"
  tq_alarm :: "(timestamp \<times> timestamp) option"

definition TimerQueue_init :: timer_queue where
  "TimerQueue_init =
     \<lparr> tq_store = Map.empty, g_global_timer_id = 0, m_timers_set = [], m_active_timers_set = [],
       m_is_calling_expired_timers = False, m_canceling_timers = [], tq_pending = [], tq_alarm = None \<rparr>"

definition how_long_from_now :: "timestamp \<Rightarrow> timestamp \<Rightarrow> int \<times> int" where
  "how_long_from_now now when =
     (let microseconds = when - now;
          microseconds = (if microseconds < 100 then 100 else microseconds)
      in (microseconds sdiv kMicroSecondsPerSecond, (microseconds smod kMicroSecondsPerSecond) * 1000))"

definition reset_timer_fd :: "timestamp \<Rightarrow> timestamp \<Rightarrow> timer_queue \<Rightarrow> timer_queue" where
  "reset_timer_fd now expiration s =
     (case how_long_from_now now expiration of (tv_sec, tv_nsec) \<Rightarrow>
        s\<lparr>tq_alarm := Some (now, now + tv_sec * kMicroSecondsPerSecond + tv_nsec sdiv 1000)\<rparr>)"

definition timer_deref :: "addr \<Rightarrow> timer_queue \<Rightarrow> (timer \<Rightarrow> 'a res) \<Rightarrow> 'a res" where
  "timer_deref a s k = (case tq_store s a of None \<Rightarrow> Inl (Undefined ''dangling Timer*'') | Some tm \<Rightarrow> k tm)"

definition same_size :: "timer_queue \<Rightarrow> 'a res \<Rightarrow> 'a res" where
  "same_size s k =
     massert (length (m_timers_set s) = length (m_active_timers_set s)) ''m_timers_set.size() == m_active_timers_set.size()'' k"

definition in_loop_thread :: "bool \<Rightarrow> 'a res \<Rightarrow> 'a res" where
  "in_loop_thread in_thread k = (if in_thread then k else mfatal ''abort_not_in_reactor_thread'')"

definition tq_insert :: "bool \<Rightarrow> addr \<Rightarrow> timer_queue \<Rightarrow> (bool \<times> timer_queue) res" where
  "tq_insert in_thread a s =
     in_loop_thread in_thread (same_size s (timer_deref a s (\<lambda>tm.
       let when = m_time_expire tm;
           is_earliest_changed = (m_timers_set s = [] \<or> when < fst (hd (m_timers_set s)))
       in case sset_insert (when, a) (m_timers_set s) of (timers, inserted) \<Rightarrow>
          massert inserted ''result.second''
          (case sset_insert (a, m_global_timer_id tm) (m_active_timers_set s) of (active, inserted) \<Rightarrow>
           massert inserted ''result.second''
           (let s = s\<lparr> m_timers_set := timers, m_active_timers_set := active \<rparr>
            in same_size s (Inr (is_earliest_changed, s)))))))"

definition add_timer_in_reactor :: "bool \<Rightarrow> timestamp \<Rightarrow> addr \<Rightarrow> timer_queue \<Rightarrow> timer_queue res" where
  "add_timer_in_reactor in_thread now a s =
     in_loop_thread in_thread (rbind (tq_insert in_thread a s) (\<lambda>(earliest_changed, s).
       if earliest_changed then timer_deref a s (\<lambda>tm. Inr (reset_timer_fd now (m_time_expire tm) s)) else Inr s))"

definition cancel_in_reactor :: "bool \<Rightarrow> active_timer \<Rightarrow> timer_queue \<Rightarrow> timer_queue res" where
  "cancel_in_reactor in_thread tid s =
     in_loop_thread in_thread (same_size s
       (if tid \<in> set (m_active_timers_set s)
        then timer_deref (fst tid) s (\<lambda>tm.
               case sset_erase (m_time_expire tm, fst tid) (m_timers_set s) of (timers, n) \<Rightarrow>
               massert (n = 1) ''n == 1''
               (let s = s\<lparr> m_timers_set := timers, tq_store := (tq_store s)(fst tid := None),
                           m_active_timers_set := fst (sset_erase tid (m_active_timers_set s)) \<rparr>
                in same_size s (Inr s)))
        else if m_is_calling_expired_timers s
        then let s = s\<lparr>m_canceling_timers := List.insert tid (m_canceling_timers s)\<rparr> in same_size s (Inr s)
        else same_size s (Inr s)))"

text \<open>\<^verbatim>\<open>new Timer\<close>, by whichever thread calls \<^verbatim>\<open>add_timer\<close>.\<close>

definition timer_new ::
    "((addr \<rightharpoonup> timer) \<Rightarrow> addr option) \<Rightarrow> timestamp \<Rightarrow> real \<Rightarrow> timer_queue \<Rightarrow> (addr \<times> timer_queue) res" where
  "timer_new alloc when interval s =
     (case alloc (tq_store s) of
        None \<Rightarrow> Inl (Throw ''std::bad_alloc'')
      | Some a \<Rightarrow>
          let gid = g_global_timer_id s + 1
          in Inr (a, s\<lparr> tq_store := (tq_store s)(a \<mapsto> Timer_init when interval gid), g_global_timer_id := gid \<rparr>))"

text \<open>\<^verbatim>\<open>add_timer\<close> returns the id. In the thread of the reactor the timer is added at once, from another
  thread the addition is queued.\<close>

definition add_timer ::
    "((addr \<rightharpoonup> timer) \<Rightarrow> addr option) \<Rightarrow> bool \<Rightarrow> timestamp \<Rightarrow> timestamp \<Rightarrow> real \<Rightarrow> timer_queue \<Rightarrow>
     (active_timer \<times> timer_queue) res" where
  "add_timer alloc in_thread now when interval s =
     rbind (timer_new alloc when interval s) (\<lambda>(a, s).
       rbind (if in_thread then add_timer_in_reactor True now a s else Inr (s\<lparr>tq_pending := tq_pending s @ [a]\<rparr>)) (\<lambda>s'.
         Inr ((a, g_global_timer_id s), s')))"

text \<open>What callbacks and other threads do with the queue.\<close>

datatype tq_action =
    Add_timer bool timestamp timestamp real  \<comment> \<open>\<^verbatim>\<open>add_timer\<close>: in the thread, the time now, when, the interval\<close>
  | Run_pending timestamp                    \<comment> \<open>the reactor runs the oldest queued addition\<close>
  | Remove_timer active_timer                \<comment> \<open>\<^verbatim>\<open>cancel_in_reactor\<close> of an id, whatever it refers to\<close>

fun tq_act :: "((addr \<rightharpoonup> timer) \<Rightarrow> addr option) \<Rightarrow> tq_action \<Rightarrow> timer_queue \<Rightarrow> timer_queue res" where
  "tq_act alloc (Add_timer in_thread now when interval) s =
     rbind (add_timer alloc in_thread now when interval s) (\<lambda>(_, s). Inr s)"
| "tq_act alloc (Run_pending now) s =
     (case tq_pending s of [] \<Rightarrow> Inr s | a # as \<Rightarrow> add_timer_in_reactor True now a (s\<lparr>tq_pending := as\<rparr>))"
| "tq_act alloc (Remove_timer tid) s = cancel_in_reactor True tid s"

fun tq_acts :: "((addr \<rightharpoonup> timer) \<Rightarrow> addr option) \<Rightarrow> tq_action list \<Rightarrow> timer_queue \<Rightarrow> timer_queue res" where
  "tq_acts alloc [] s = Inr s"
| "tq_acts alloc (act # acts) s = rbind (tq_act alloc act s) (tq_acts alloc acts)"

fun erase_expired :: "entry list \<Rightarrow> timer_queue \<Rightarrow> timer_queue res" where
  "erase_expired [] s = Inr s"
| "erase_expired ((t, a) # es) s =
     timer_deref a s (\<lambda>tm.
       case sset_erase (a, m_global_timer_id tm) (m_active_timers_set s) of (active, n) \<Rightarrow>
       massert (n = 1) ''n == 1'' (erase_expired es (s\<lparr>m_active_timers_set := active\<rparr>)))"

definition retrieve_expired_timers :: "timestamp \<Rightarrow> timer_queue \<Rightarrow> (entry list \<times> timer_queue) res" where
  "retrieve_expired_timers now s =
     same_size s
       (case sset_split (now, UINTPTR_MAX) (m_timers_set s) of (expired, rest) \<Rightarrow>
        massert (rest = [] \<or> now < fst (hd rest)) ''end == m_timers_set.end() || now < end->first''
        (rbind (erase_expired expired (s\<lparr>m_timers_set := rest\<rparr>)) (\<lambda>s. same_size s (Inr (expired, s)))))"

fun alarm_all ::
    "((addr \<rightharpoonup> timer) \<Rightarrow> addr option) \<Rightarrow> (int \<Rightarrow> tq_action list) \<Rightarrow> entry list \<Rightarrow> timer_queue \<Rightarrow> (int list \<times> timer_queue) res" where
  "alarm_all alloc cb [] s = Inr ([], s)"
| "alarm_all alloc cb ((t, a) # es) s =
     timer_deref a s (\<lambda>tm.
       rbind (tq_acts alloc (cb (m_global_timer_id tm)) s) (\<lambda>s.
       rbind (alarm_all alloc cb es s) (\<lambda>(fired, s). Inr (m_global_timer_id tm # fired, s))))"

fun reset_expired :: "(real \<Rightarrow> int) \<Rightarrow> timestamp \<Rightarrow> entry list \<Rightarrow> timer_queue \<Rightarrow> timer_queue res" where
  "reset_expired to_micros now [] s = Inr s"
| "reset_expired to_micros now ((t, a) # es) s =
     timer_deref a s (\<lambda>tm.
       rbind (if m_is_repeated tm \<and> (a, m_global_timer_id tm) \<notin> set (m_canceling_timers s)
              then rbind (tq_insert True a (s\<lparr>tq_store := (tq_store s)(a \<mapsto> timer_restart to_micros now tm)\<rparr>)) (\<lambda>(_, s). Inr s)
              else Inr (s\<lparr>tq_store := (tq_store s)(a := None)\<rparr>))
         (reset_expired to_micros now es))"

definition tq_reset :: "(real \<Rightarrow> int) \<Rightarrow> entry list \<Rightarrow> timestamp \<Rightarrow> timestamp \<Rightarrow> timer_queue \<Rightarrow> timer_queue res" where
  "tq_reset to_micros expired now now' s =
     rbind (reset_expired to_micros now expired s) (\<lambda>s.
       case m_timers_set s of
         [] \<Rightarrow> Inr s
       | e # es \<Rightarrow> timer_deref (snd e) s (\<lambda>tm.
           Inr (if ts_valid (m_time_expire tm) then reset_timer_fd now' (m_time_expire tm) s else s)))"

text \<open>The handler: \<open>now\<close> is the time it reads first, \<open>now'\<close> the time when the descriptor is set again.\<close>

definition handle_timerfd_read ::
    "bool \<Rightarrow> (real \<Rightarrow> int) \<Rightarrow> ((addr \<rightharpoonup> timer) \<Rightarrow> addr option) \<Rightarrow> (int \<Rightarrow> tq_action list) \<Rightarrow> timestamp \<Rightarrow> timestamp \<Rightarrow>
     timer_queue \<Rightarrow> (int list \<times> timer_queue) res" where
  "handle_timerfd_read in_thread to_micros alloc cb now now' s =
     in_loop_thread in_thread (rbind (retrieve_expired_timers now s) (\<lambda>(expired, s).
       rbind (alarm_all alloc cb expired (s\<lparr> m_is_calling_expired_timers := True, m_canceling_timers := [] \<rparr>)) (\<lambda>(fired, s).
       rbind (tq_reset to_micros expired now now' (s\<lparr>m_is_calling_expired_timers := False\<rparr>)) (\<lambda>s. Inr (fired, s)))))"

section \<open>Invariant\<close>

text \<open>\<open>X\<close> are the addresses of timers that exist but are in neither set: those being called, and those
  whose addition is queued.\<close>

definition tq_core :: "addr set \<Rightarrow> timer_queue \<Rightarrow> bool" where
  "tq_core X s \<longleftrightarrow>
     sorted (m_timers_set s) \<and> distinct (m_timers_set s) \<and> sorted (m_active_timers_set s) \<and> distinct (m_active_timers_set s) \<and>
     (\<forall>t a. (t, a) \<in> set (m_timers_set s) \<longleftrightarrow> a \<notin> X \<and> (\<exists>tm. tq_store s a = Some tm \<and> m_time_expire tm = t)) \<and>
     (\<forall>a i. (a, i) \<in> set (m_active_timers_set s) \<longleftrightarrow> a \<notin> X \<and> (\<exists>tm. tq_store s a = Some tm \<and> m_global_timer_id tm = i)) \<and>
     X \<subseteq> dom (tq_store s) \<and>
     (\<forall>a tm. tq_store s a = Some tm \<longrightarrow> a < UINTPTR_MAX \<and> m_global_timer_id tm \<le> g_global_timer_id s) \<and>
     (\<forall>a b tm tm'. tq_store s a = Some tm \<longrightarrow> tq_store s b = Some tm' \<longrightarrow> m_global_timer_id tm = m_global_timer_id tm' \<longrightarrow> a = b)"

definition tq_inv :: "addr set \<Rightarrow> timer_queue \<Rightarrow> bool" where
  "tq_inv E s \<longleftrightarrow> tq_core (E \<union> set (tq_pending s)) s \<and> distinct (tq_pending s) \<and> E \<inter> set (tq_pending s) = {}"

lemma tq_coreD:
  assumes "tq_core X s"
  shows "sorted (m_timers_set s)" and "distinct (m_timers_set s)" and "sorted (m_active_timers_set s)"
    and "distinct (m_active_timers_set s)"
    and "\<And>t a. (t, a) \<in> set (m_timers_set s) \<longleftrightarrow> a \<notin> X \<and> (\<exists>tm. tq_store s a = Some tm \<and> m_time_expire tm = t)"
    and "\<And>a i. (a, i) \<in> set (m_active_timers_set s) \<longleftrightarrow> a \<notin> X \<and> (\<exists>tm. tq_store s a = Some tm \<and> m_global_timer_id tm = i)"
    and "X \<subseteq> dom (tq_store s)"
    and "\<And>a tm. tq_store s a = Some tm \<Longrightarrow> a < UINTPTR_MAX \<and> m_global_timer_id tm \<le> g_global_timer_id s"
    and "\<And>a b tm tm'. tq_store s a = Some tm \<Longrightarrow> tq_store s b = Some tm' \<Longrightarrow> m_global_timer_id tm = m_global_timer_id tm' \<Longrightarrow> a = b"
  using assms unfolding tq_core_def by blast+

lemma tq_coreI:
  assumes "sorted (m_timers_set s)" and "distinct (m_timers_set s)" and "sorted (m_active_timers_set s)"
    and "distinct (m_active_timers_set s)"
    and "\<And>t a. (t, a) \<in> set (m_timers_set s) \<longleftrightarrow> a \<notin> X \<and> (\<exists>tm. tq_store s a = Some tm \<and> m_time_expire tm = t)"
    and "\<And>a i. (a, i) \<in> set (m_active_timers_set s) \<longleftrightarrow> a \<notin> X \<and> (\<exists>tm. tq_store s a = Some tm \<and> m_global_timer_id tm = i)"
    and "X \<subseteq> dom (tq_store s)"
    and "\<And>a tm. tq_store s a = Some tm \<Longrightarrow> a < UINTPTR_MAX \<and> m_global_timer_id tm \<le> g_global_timer_id s"
    and "\<And>a b tm tm'. tq_store s a = Some tm \<Longrightarrow> tq_store s b = Some tm' \<Longrightarrow> m_global_timer_id tm = m_global_timer_id tm' \<Longrightarrow> a = b"
  shows "tq_core X s"
  using assms unfolding tq_core_def by blast

lemma tq_core_same:
  assumes "tq_core X s" and "tq_store s' = tq_store s" and "g_global_timer_id s' = g_global_timer_id s"
    and "m_timers_set s' = m_timers_set s" and "m_active_timers_set s' = m_active_timers_set s"
  shows "tq_core X s'"
  using assms unfolding tq_core_def by simp

text \<open>Both sets hold one element for each timer outside \<open>X\<close>, so they have the same size.\<close>

lemma tq_core_size:
  assumes "tq_core X s"
  shows "length (m_timers_set s) = length (m_active_timers_set s)"
proof -
  note D = tq_coreD [OF assms]
  have "inj_on snd (set (m_timers_set s))" using D(5) by (auto simp: inj_on_def)
  then have t: "distinct (map snd (m_timers_set s))" using D(2) by (simp add: distinct_map)
  have "inj_on fst (set (m_active_timers_set s))" using D(6) by (auto simp: inj_on_def)
  then have a: "distinct (map fst (m_active_timers_set s))" using D(4) by (simp add: distinct_map)
  have "set (map snd (m_timers_set s)) = {a. a \<notin> X \<and> tq_store s a \<noteq> None}"
    using D(5) by (force simp: image_iff)
  also have "\<dots> = set (map fst (m_active_timers_set s))"
    using D(6) by (force simp: image_iff)
  finally show ?thesis using distinct_card [OF t] distinct_card [OF a] by simp
qed

lemma tq_core_same_size: "tq_core X s \<Longrightarrow> same_size s k = k"
  by (simp add: same_size_def tq_core_size)

lemma in_loop_thread_True [simp]: "in_loop_thread True k = k"
  by (simp add: in_loop_thread_def)

section \<open>Operations keep the invariant\<close>

lemma tq_insert_ok:
  assumes "tq_core X s" and "a \<in> X" and "tq_store s a = Some tm"
  shows "\<exists>s'. tq_insert True a s = Inr (m_timers_set s = [] \<or> m_time_expire tm < fst (hd (m_timers_set s)), s') \<and>
           tq_core (X - {a}) s' \<and>
           s' = s\<lparr> m_timers_set := insort (m_time_expire tm, a) (m_timers_set s),
                   m_active_timers_set := insort (a, m_global_timer_id tm) (m_active_timers_set s) \<rparr>"
proof -
  note D = tq_coreD [OF assms(1)]
  have new: "(m_time_expire tm, a) \<notin> set (m_timers_set s)" "(a, m_global_timer_id tm) \<notin> set (m_active_timers_set s)"
    using D(5,6) assms(2) by auto
  define s' where "s' = s\<lparr> m_timers_set := insort (m_time_expire tm, a) (m_timers_set s),
                   m_active_timers_set := insort (a, m_global_timer_id tm) (m_active_timers_set s) \<rparr>"
  have core: "tq_core (X - {a}) s'"
    using D assms(2,3) new
    by (intro tq_coreI) (auto simp: s'_def sorted_insort distinct_insort set_insort_key)
  show ?thesis
    using core tq_core_size [OF core] assms new
    by (simp add: tq_insert_def tq_core_same_size timer_deref_def Let_def sset_insert_def flip: s'_def)
qed

lemma reset_timer_fd_same [simp]:
  "tq_store (reset_timer_fd now t s) = tq_store s"
  "g_global_timer_id (reset_timer_fd now t s) = g_global_timer_id s"
  "m_timers_set (reset_timer_fd now t s) = m_timers_set s"
  "m_active_timers_set (reset_timer_fd now t s) = m_active_timers_set s"
  "m_is_calling_expired_timers (reset_timer_fd now t s) = m_is_calling_expired_timers s"
  "m_canceling_timers (reset_timer_fd now t s) = m_canceling_timers s"
  "tq_pending (reset_timer_fd now t s) = tq_pending s"
  by (simp_all add: reset_timer_fd_def split: prod.split)

lemma add_timer_in_reactor_ok:
  assumes "tq_core X s" and "a \<in> X"
  shows "\<exists>s' tm. add_timer_in_reactor True now a s = Inr s' \<and> tq_core (X - {a}) s' \<and> tq_store s a = Some tm \<and>
           tq_store s' = tq_store s \<and> g_global_timer_id s' = g_global_timer_id s \<and>
           m_is_calling_expired_timers s' = m_is_calling_expired_timers s \<and>
           m_canceling_timers s' = m_canceling_timers s \<and> tq_pending s' = tq_pending s \<and>
           m_timers_set s' = insort (m_time_expire tm, a) (m_timers_set s) \<and>
           tq_alarm s' = (if m_timers_set s = [] \<or> m_time_expire tm < fst (hd (m_timers_set s))
                          then tq_alarm (reset_timer_fd now (m_time_expire tm) s) else tq_alarm s)"
proof -
  obtain tm where tm: "tq_store s a = Some tm" using tq_coreD(7) [OF assms(1)] assms(2) by auto
  obtain s1 where s1: "tq_insert True a s = Inr (m_timers_set s = [] \<or> m_time_expire tm < fst (hd (m_timers_set s)), s1)"
      "tq_core (X - {a}) s1"
      "s1 = s\<lparr> m_timers_set := insort (m_time_expire tm, a) (m_timers_set s),
               m_active_timers_set := insort (a, m_global_timer_id tm) (m_active_timers_set s) \<rparr>"
    using tq_insert_ok [OF assms tm] by blast
  have st: "tq_store s1 = tq_store s" by (simp add: s1(3))
  have core: "tq_core (X - {a}) (reset_timer_fd now t s1)" for t by (rule tq_core_same [OF s1(2)]) simp_all
  show ?thesis
  proof (cases "m_timers_set s = [] \<or> m_time_expire tm < fst (hd (m_timers_set s))")
    case True
    then have "add_timer_in_reactor True now a s = Inr (reset_timer_fd now (m_time_expire tm) s1)"
      using s1(1) tm st by (simp add: add_timer_in_reactor_def timer_deref_def)
    then show ?thesis using core tm True s1(3) by (auto simp: reset_timer_fd_def split: prod.split)
  next
    case False
    then have "add_timer_in_reactor True now a s = Inr s1" using s1(1) by (simp add: add_timer_in_reactor_def)
    then show ?thesis using s1 tm False by auto
  qed
qed

lemma cancel_in_reactor_ok:
  assumes "tq_core X s"
  shows "\<exists>s'. cancel_in_reactor True tid s = Inr s' \<and> tq_core X s' \<and>
           g_global_timer_id s' = g_global_timer_id s \<and> tq_pending s' = tq_pending s \<and> tq_alarm s' = tq_alarm s \<and>
           m_is_calling_expired_timers s' = m_is_calling_expired_timers s \<and>
           (if tid \<in> set (m_active_timers_set s)
            then tq_store s' = (tq_store s)(fst tid := None) \<and> m_canceling_timers s' = m_canceling_timers s \<and>
                 m_timers_set s' = List.filter (\<lambda>e. snd e \<noteq> fst tid) (m_timers_set s)
            else tq_store s' = tq_store s \<and> m_timers_set s' = m_timers_set s \<and>
                 set (m_canceling_timers s') =
                   set (m_canceling_timers s) \<union> (if m_is_calling_expired_timers s then {tid} else {}))"
proof (cases "tid \<in> set (m_active_timers_set s)")
  case True
  note D = tq_coreD [OF assms]
  obtain a i where tid: "tid = (a, i)" by (cases tid)
  obtain tm where tm: "a \<notin> X" "tq_store s a = Some tm" "m_global_timer_id tm = i"
    using True D(6) by (auto simp: tid)
  have mem: "(m_time_expire tm, a) \<in> set (m_timers_set s)" using tm D(5) by auto
  have rem: "removeAll (m_time_expire tm, a) (m_timers_set s) = List.filter (\<lambda>e. snd e \<noteq> a) (m_timers_set s)"
    unfolding removeAll_filter_not_eq using D(5) tm(2) by (intro filter_cong) auto
  define s' where "s' = s\<lparr> m_timers_set := removeAll (m_time_expire tm, a) (m_timers_set s),
      tq_store := (tq_store s)(a := None), m_active_timers_set := removeAll (a, i) (m_active_timers_set s) \<rparr>"
  have core: "tq_core X s'"
    using D tm by (intro tq_coreI) (auto simp: s'_def sorted_filter removeAll_filter_not_eq sorted_wrt_filter
        distinct_removeAll split: if_splits)
  have "cancel_in_reactor True tid s = Inr s'"
    using True tm mem core
    by (simp add: cancel_in_reactor_def tq_core_same_size [OF assms] tq_core_same_size timer_deref_def tid sset_erase_def
        Let_def flip: s'_def)
  then show ?thesis using True core by (auto simp: tid s'_def rem)
next
  case False
  define s' where "s' = (if m_is_calling_expired_timers s then s\<lparr>m_canceling_timers := List.insert tid (m_canceling_timers s)\<rparr> else s)"
  have core: "tq_core X s'" by (rule tq_core_same [OF assms]) (simp_all add: s'_def)
  have "cancel_in_reactor True tid s = Inr s'"
    using False tq_core_size [OF assms] by (simp add: cancel_in_reactor_def Let_def s'_def same_size_def)
  then show ?thesis using False core by (auto simp: s'_def)
qed

text \<open>A result that is right unless the allocator gave up.\<close>

definition res_ok :: "'a res \<Rightarrow> ('a \<Rightarrow> bool) \<Rightarrow> bool" where
  "res_ok r P \<longleftrightarrow> (case r of Inl e \<Rightarrow> e = Throw ''std::bad_alloc'' | Inr x \<Rightarrow> P x)"

lemma res_ok_simps [simp]: "res_ok (Inr x) P = P x" "res_ok (Inl e) P = (e = Throw ''std::bad_alloc'')"
  by (simp_all add: res_ok_def)

lemma res_ok_bind: "res_ok m P \<Longrightarrow> (\<And>x. P x \<Longrightarrow> res_ok (f x) Q) \<Longrightarrow> res_ok (rbind m f) Q"
  by (cases m) (simp_all add: rbind_def)

lemma res_ok_mono: "res_ok m P \<Longrightarrow> (\<And>x. P x \<Longrightarrow> Q x) \<Longrightarrow> res_ok m Q"
  by (auto simp: res_ok_def split: sum.splits)

definition alloc_ok :: "((addr \<rightharpoonup> timer) \<Rightarrow> addr option) \<Rightarrow> bool" where
  "alloc_ok alloc \<longleftrightarrow> (\<forall>st a. alloc st = Some a \<longrightarrow> a \<notin> dom st \<and> a < UINTPTR_MAX)"

text \<open>What the actions of callbacks and other threads leave alone: the timers of \<open>E\<close>, being called, stay as
  they are, and an attempt to remove one of them is remembered; timers that are older than the actions
  are only ever removed.\<close>

definition tq_frame :: "addr set \<Rightarrow> tq_action set \<Rightarrow> timer_queue \<Rightarrow> timer_queue \<Rightarrow> bool" where
  "tq_frame E acts s s' \<longleftrightarrow>
     tq_inv E s' \<and> (\<forall>a \<in> E. tq_store s' a = tq_store s a) \<and>
     m_is_calling_expired_timers s' = m_is_calling_expired_timers s \<and> g_global_timer_id s \<le> g_global_timer_id s' \<and>
     (\<forall>a \<in> E. \<forall>i. (a, i) \<in> set (m_canceling_timers s') \<longleftrightarrow>
        (a, i) \<in> set (m_canceling_timers s) \<or> m_is_calling_expired_timers s \<and> Remove_timer (a, i) \<in> acts) \<and>
     (\<forall>a tm. tq_store s' a = Some tm \<longrightarrow> m_global_timer_id tm \<le> g_global_timer_id s \<longrightarrow> tq_store s a = Some tm)"

lemma tq_frame_refl: "tq_inv E s \<Longrightarrow> tq_frame E {} s s"
  by (simp add: tq_frame_def)

lemma tq_frameD:
  assumes "tq_frame E acts s s'"
  shows "tq_inv E s'" and "\<And>a. a \<in> E \<Longrightarrow> tq_store s' a = tq_store s a"
    and "m_is_calling_expired_timers s' = m_is_calling_expired_timers s" and "g_global_timer_id s \<le> g_global_timer_id s'"
    and "\<And>a i. a \<in> E \<Longrightarrow> (a, i) \<in> set (m_canceling_timers s') \<longleftrightarrow>
        (a, i) \<in> set (m_canceling_timers s) \<or> m_is_calling_expired_timers s \<and> Remove_timer (a, i) \<in> acts"
    and "\<And>a tm. tq_store s' a = Some tm \<Longrightarrow> m_global_timer_id tm \<le> g_global_timer_id s \<Longrightarrow> tq_store s a = Some tm"
  using assms unfolding tq_frame_def by blast+

lemma tq_frame_trans:
  assumes "tq_frame E acts s s1" and "tq_frame E acts' s1 s2"
  shows "tq_frame E (acts \<union> acts') s s2"
proof -
  note D1 = tq_frameD [OF assms(1)] and D2 = tq_frameD [OF assms(2)]
  have "tq_store s a = Some tm" if "tq_store s2 a = Some tm" "m_global_timer_id tm \<le> g_global_timer_id s" for a tm
    using D2(6) [of a tm] D1(6) [of a tm] D1(4) that by simp
  moreover have "(a, i) \<in> set (m_canceling_timers s2) \<longleftrightarrow> (a, i) \<in> set (m_canceling_timers s) \<or>
      m_is_calling_expired_timers s \<and> Remove_timer (a, i) \<in> acts \<union> acts'" if "a \<in> E" for a i
    using D1(3) D1(5) [OF that] D2(5) [OF that] by blast
  moreover have "tq_store s2 a = tq_store s a" if "a \<in> E" for a using D1(2) D2(2) that by simp
  moreover have "m_is_calling_expired_timers s2 = m_is_calling_expired_timers s" "g_global_timer_id s \<le> g_global_timer_id s2"
    using D1(3,4) D2(3,4) by simp_all
  ultimately show ?thesis using D2(1) unfolding tq_frame_def by blast
qed

lemma timer_new_ok:
  assumes "alloc_ok alloc" and "tq_core X s"
  shows "res_ok (timer_new alloc when interval s) (\<lambda>(a, s'). a \<notin> dom (tq_store s) \<and> tq_core (insert a X) s' \<and>
      s' = s\<lparr> tq_store := (tq_store s)(a \<mapsto> Timer_init when interval (g_global_timer_id s + 1)),
              g_global_timer_id := g_global_timer_id s + 1 \<rparr>)"
proof (cases "alloc (tq_store s)")
  case (Some a)
  then have a: "a \<notin> dom (tq_store s)" "a < UINTPTR_MAX" using assms(1) by (auto simp: alloc_ok_def)
  note D = tq_coreD [OF assms(2)]
  let ?s = "s\<lparr> tq_store := (tq_store s)(a \<mapsto> Timer_init when interval (g_global_timer_id s + 1)),
              g_global_timer_id := g_global_timer_id s + 1 \<rparr>"
  have "tq_core (insert a X) ?s"
  proof (rule tq_coreI, goal_cases)
    case (9 b c tm tm')
    then show ?case
      using D(8) [of b tm] D(8) [of c tm'] D(9) [of b tm c tm']
      by (cases "b = a"; cases "c = a") (auto simp: Timer_init_def)
  next
    case (8 b tm)
    then show ?case using D(8) [of b tm] a(2) by (auto simp: Timer_init_def split: if_splits)
  next
    case (5 t b)
    then show ?case using D(5) [of t b] a(1) by auto
  next
    case (6 b i)
    then show ?case using D(6) [of b i] a(1) by auto
  next
    case 7
    then show ?case using D(7) by auto
  qed (simp_all add: D(1-4))
  then show ?thesis using Some a by (simp add: timer_new_def Let_def)
qed (simp add: timer_new_def)

lemma tq_act_ok:
  assumes "alloc_ok alloc" and "tq_inv E s"
  shows "res_ok (tq_act alloc act s) (tq_frame E {act} s)"
proof (cases act)
  case (Add_timer in_thread now t interval)
  have core: "tq_core (E \<union> set (tq_pending s)) s" using assms(2) by (simp add: tq_inv_def)
  note D = tq_coreD [OF core]
  have "res_ok (add_timer alloc in_thread now t interval s) (\<lambda>(_, s'). tq_frame E {act} s s')"
  proof (cases "timer_new alloc t interval s")
    case (Inl e)
    then show ?thesis using timer_new_ok [OF assms(1) core, of t interval] by (simp add: add_timer_def)
  next
    case (Inr r)
    let ?s1 = "\<lambda>a. s\<lparr> tq_store := (tq_store s)(a \<mapsto> Timer_init t interval (g_global_timer_id s + 1)),
              g_global_timer_id := g_global_timer_id s + 1 \<rparr>"
    obtain a where r: "r = (a, ?s1 a)" and new: "a \<notin> dom (tq_store s)" "tq_core (insert a (E \<union> set (tq_pending s))) (?s1 a)"
      using timer_new_ok [OF assms(1) core, of t interval] Inr by (auto split: prod.splits)
    have a: "a \<notin> E" "a \<notin> set (tq_pending s)" using new(1) D(7) by auto
    have frame: "tq_frame E {act} s s2" if s2: "tq_core (E \<union> set (tq_pending s2)) s2" "distinct (tq_pending s2)"
        "E \<inter> set (tq_pending s2) = {}" "tq_store s2 = tq_store (?s1 a)" "g_global_timer_id s2 = g_global_timer_id s + 1"
        "m_is_calling_expired_timers s2 = m_is_calling_expired_timers s" "m_canceling_timers s2 = m_canceling_timers s" for s2
      using s2 a Add_timer by (auto simp: tq_frame_def tq_inv_def Timer_init_def)
    show ?thesis
    proof (cases in_thread)
      case True
      have X: "insert a (E \<union> set (tq_pending s)) - {a} = E \<union> set (tq_pending s)" using a by auto
      obtain s2 where "add_timer_in_reactor True now a (?s1 a) = Inr s2" "tq_core (E \<union> set (tq_pending s)) s2"
          "tq_store s2 = tq_store (?s1 a)" "g_global_timer_id s2 = g_global_timer_id (?s1 a)"
          "m_is_calling_expired_timers s2 = m_is_calling_expired_timers (?s1 a)" "m_canceling_timers s2 = m_canceling_timers (?s1 a)"
          "tq_pending s2 = tq_pending (?s1 a)"
        using add_timer_in_reactor_ok [OF new(2), of a now] X by auto
      then show ?thesis using True frame [of s2] assms(2) Inr r by (simp add: tq_inv_def add_timer_def)
    next
      case False
      let ?s2 = "(?s1 a)\<lparr>tq_pending := tq_pending (?s1 a) @ [a]\<rparr>"
      have "tq_core (insert a (E \<union> set (tq_pending s))) ?s2" by (rule tq_core_same [OF new(2)]) simp_all
      then show ?thesis using False frame [of ?s2] a assms(2) Inr r by (simp add: tq_inv_def add_timer_def)
    qed
  qed
  then show ?thesis
    unfolding Add_timer tq_act.simps by (rule res_ok_bind) (auto simp: Add_timer)
next
  case (Run_pending now)
  show ?thesis
  proof (cases "tq_pending s")
    case Nil
    then show ?thesis using assms(2) Run_pending by (simp add: tq_frame_def)
  next
    case (Cons a as)
    have inv: "tq_core (E \<union> set (a # as)) s" "a \<notin> set as" "distinct as" "a \<notin> E" "E \<inter> set as = {}"
      using assms(2) Cons by (auto simp: tq_inv_def)
    have "tq_core (E \<union> set (a # as)) (s\<lparr>tq_pending := as\<rparr>)" by (rule tq_core_same [OF inv(1)]) simp_all
    moreover have "E \<union> set (a # as) - {a} = E \<union> set as" using inv by auto
    ultimately obtain s2 where "add_timer_in_reactor True now a (s\<lparr>tq_pending := as\<rparr>) = Inr s2" "tq_core (E \<union> set as) s2"
        "tq_store s2 = tq_store s" "g_global_timer_id s2 = g_global_timer_id s"
        "m_is_calling_expired_timers s2 = m_is_calling_expired_timers s" "m_canceling_timers s2 = m_canceling_timers s"
        "tq_pending s2 = as"
      using add_timer_in_reactor_ok [of "E \<union> set (a # as)" "s\<lparr>tq_pending := as\<rparr>" a now] by auto
    then show ?thesis using inv Cons Run_pending by (simp add: tq_frame_def tq_inv_def)
  qed
next
  case (Remove_timer tid)
  have core: "tq_core (E \<union> set (tq_pending s)) s" using assms(2) by (simp add: tq_inv_def)
  obtain a i where tid: "tid = (a, i)" by (cases tid)
  have "a \<notin> E" if "tid \<in> set (m_active_timers_set s)" using that tq_coreD(6) [OF core] tid by auto
  moreover obtain s' where "cancel_in_reactor True tid s = Inr s'" "tq_core (E \<union> set (tq_pending s)) s'"
     "g_global_timer_id s' = g_global_timer_id s" "tq_pending s' = tq_pending s"
     "m_is_calling_expired_timers s' = m_is_calling_expired_timers s"
     "if tid \<in> set (m_active_timers_set s)
      then tq_store s' = (tq_store s)(fst tid := None) \<and> m_canceling_timers s' = m_canceling_timers s
      else tq_store s' = tq_store s \<and>
           set (m_canceling_timers s') = set (m_canceling_timers s) \<union> (if m_is_calling_expired_timers s then {tid} else {})"
    using cancel_in_reactor_ok [OF core, of tid] by (auto split: if_splits)
  ultimately show ?thesis
    using assms(2) Remove_timer tid
    by (auto simp: tq_frame_def tq_inv_def split: if_splits)
qed

lemma tq_acts_ok:
  "alloc_ok alloc \<Longrightarrow> tq_inv E s \<Longrightarrow> res_ok (tq_acts alloc acts s) (tq_frame E (set acts) s)"
proof (induction acts arbitrary: s)
  case (Cons act acts)
  show ?case
    unfolding tq_acts.simps
  proof (rule res_ok_bind [OF tq_act_ok [OF Cons.prems]])
    fix s1 assume 1: "tq_frame E {act} s s1"
    show "res_ok (tq_acts alloc acts s1) (tq_frame E (set (act # acts)) s)"
      using Cons.IH [OF Cons.prems(1) tq_frameD(1) [OF 1]]
      by (rule res_ok_mono) (use tq_frame_trans [OF 1] in auto)
  qed
qed (simp add: tq_frame_refl)

section \<open>The handler\<close>

lemma sorted_split:
  "sorted xs \<Longrightarrow> sset_split (x :: 'a::linorder) xs = (List.filter (\<lambda>y. y < x) xs, List.filter (\<lambda>y. \<not> y < x) xs)"
proof (induction xs)
  case (Cons y ys)
  have "List.filter (\<lambda>z. z < x) ys = []" "List.filter (\<lambda>z. \<not> z < x) ys = ys" if "\<not> y < x"
    using Cons.prems that by (auto simp: filter_empty_conv filter_id_conv)
  then show ?case using Cons by (cases "y < x") (simp_all add: sset_split_def)
qed (simp add: sset_split_def)

lemma erase_expired_ok:
  assumes "\<And>t a. (t, a) \<in> set es \<Longrightarrow> \<exists>tm. tq_store s a = Some tm \<and> (a, m_global_timer_id tm) \<in> set (m_active_timers_set s)"
    and "distinct (map snd es)"
    and "\<And>a i j. (a, i) \<in> set (m_active_timers_set s) \<Longrightarrow> (a, j) \<in> set (m_active_timers_set s) \<Longrightarrow> i = j"
  shows "erase_expired es s =
      Inr (s\<lparr>m_active_timers_set := List.filter (\<lambda>x. fst x \<notin> snd ` set es) (m_active_timers_set s)\<rparr>)"
  using assms
proof (induction es arbitrary: s)
  case (Cons e es)
  obtain t a where e: "e = (t, a)" by (cases e)
  obtain tm where tm: "tq_store s a = Some tm" "(a, m_global_timer_id tm) \<in> set (m_active_timers_set s)"
    using Cons.prems(1) [of t a] e by auto
  have rem: "removeAll (a, m_global_timer_id tm) (m_active_timers_set s) = List.filter (\<lambda>x. fst x \<noteq> a) (m_active_timers_set s)"
    unfolding removeAll_filter_not_eq using Cons.prems(3) tm(2) by (intro filter_cong) auto
  let ?s = "s\<lparr>m_active_timers_set := List.filter (\<lambda>x. fst x \<noteq> a) (m_active_timers_set s)\<rparr>"
  have "erase_expired es ?s =
      Inr (?s\<lparr>m_active_timers_set := List.filter (\<lambda>x. fst x \<notin> snd ` set es) (m_active_timers_set ?s)\<rparr>)"
  proof (rule Cons.IH, goal_cases)
    case (1 t' a')
    then have "a' \<noteq> a" using Cons.prems(2) e by force
    then show ?case using Cons.prems(1) [of t' a'] 1 by auto
  qed (use Cons.prems(2,3) in auto)
  moreover have "List.filter (\<lambda>x. fst x \<notin> snd ` set es) (List.filter (\<lambda>x. fst x \<noteq> a) (m_active_timers_set s)) =
      List.filter (\<lambda>x. fst x \<notin> snd ` set (e # es)) (m_active_timers_set s)"
    unfolding filter_filter by (rule filter_cong) (auto simp: e)
  ultimately show ?case using tm rem by (simp add: e timer_deref_def sset_erase_def)
qed simp

lemma retrieve_expired_timers_ok:
  fixes now :: timestamp
  assumes "tq_inv {} s"
  defines "expired \<equiv> List.filter (\<lambda>e. fst e \<le> now) (m_timers_set s)"
  shows "\<exists>s'. retrieve_expired_timers now s = Inr (expired, s') \<and> tq_inv (snd ` set expired) s' \<and>
           s' = s\<lparr> m_timers_set := List.filter (\<lambda>e. now < fst e) (m_timers_set s),
                   m_active_timers_set := List.filter (\<lambda>x. fst x \<notin> snd ` set expired) (m_active_timers_set s) \<rparr>"
proof -
  have core: "tq_core (set (tq_pending s)) s" using assms(1) by (simp add: tq_inv_def)
  note D = tq_coreD [OF core]
  have lt: "(e < (now, UINTPTR_MAX)) = (fst e \<le> now)" if "e \<in> set (m_timers_set s)" for e
    using that D(5) [of "fst e" "snd e"] D(8) by (auto simp: less_prod_def)
  have split: "sset_split (now, UINTPTR_MAX) (m_timers_set s) = (expired, List.filter (\<lambda>e. now < fst e) (m_timers_set s))"
    unfolding sorted_split [OF D(1)] expired_def using lt by (auto intro!: filter_cong simp: not_le)
  let ?rest = "List.filter (\<lambda>e. now < fst e) (m_timers_set s)"
  have hd: "?rest = [] \<or> now < fst (hd ?rest)"
    by (cases ?rest) (auto dest: filter_eq_ConsD)
  have dist: "distinct (map snd expired)"
    using D(2,5) by (auto simp: expired_def distinct_map inj_on_def)
  let ?s = "s\<lparr>m_timers_set := ?rest\<rparr>"
  define s' where "s' = ?s\<lparr>m_active_timers_set := List.filter (\<lambda>x. fst x \<notin> snd ` set expired) (m_active_timers_set ?s)\<rparr>"
  have erase: "erase_expired expired ?s = Inr s'"
    unfolding s'_def
  proof (rule erase_expired_ok [OF _ dist])
    show "\<exists>tm. tq_store ?s a = Some tm \<and> (a, m_global_timer_id tm) \<in> set (m_active_timers_set ?s)"
      if "(t, a) \<in> set expired" for t a
      using that D(5) [of t a] D(6) [of a] by (auto simp: expired_def)
  qed (use D(6) in auto)
  have sub: "snd ` set expired \<subseteq> dom (tq_store s) - set (tq_pending s)" using D(5) by (auto simp: expired_def)
  have mem: "a \<in> snd ` set expired \<longleftrightarrow> (\<exists>tm. tq_store s a = Some tm \<and> m_time_expire tm \<le> now) \<and> a \<notin> set (tq_pending s)" for a
    using D(5) by (auto simp: expired_def image_iff)
  have core': "tq_core (snd ` set expired \<union> set (tq_pending s)) s'"
  proof (rule tq_coreI, goal_cases)
    case (5 t a)
    then show ?case using D(5) [of t a] mem [of a] by (auto simp: s'_def not_le)
  next
    case (6 a i)
    then show ?case using D(6) [of a i] by (auto simp: s'_def)
  next
    case 7
    then show ?case using D(7) sub by (auto simp: s'_def)
  qed (use D(1-4) D(8,9) in \<open>simp_all add: s'_def sorted_wrt_filter\<close>)
  then have "tq_inv (snd ` set expired) s'"
    using assms(1) sub by (auto simp: tq_inv_def s'_def)
  moreover have "retrieve_expired_timers now s = Inr (expired, s')"
    using split hd erase tq_core_size [OF core] tq_core_size [OF core']
    by (simp add: retrieve_expired_timers_def same_size_def)
  ultimately show ?thesis by (simp add: s'_def)
qed

lemma alarm_all_ok:
  assumes "alloc_ok alloc" and "tq_inv E s" and "snd ` set es \<subseteq> E"
  shows "res_ok (alarm_all alloc cb es s) (\<lambda>(fired, s').
           fired = map (\<lambda>e. m_global_timer_id (the (tq_store s (snd e)))) es \<and>
           tq_frame E (\<Union>i \<in> set fired. set (cb i)) s s')"
  using assms(2,3)
proof (induction es arbitrary: s)
  case Nil
  then show ?case by (simp add: tq_frame_refl)
next
  case (Cons e es)
  obtain t a where e: "e = (t, a)" by (cases e)
  have "E \<subseteq> dom (tq_store s)" using Cons.prems(1) tq_coreD(7) [of _ s] by (auto simp: tq_inv_def)
  then have "a \<in> dom (tq_store s)" using Cons.prems(2) e by auto
  then obtain tm where tm: "tq_store s a = Some tm" by auto
  have "res_ok (tq_acts alloc (cb (m_global_timer_id tm)) s) (tq_frame E (set (cb (m_global_timer_id tm))) s)"
    by (rule tq_acts_ok [OF assms(1) Cons.prems(1)])
  then have "res_ok (rbind (tq_acts alloc (cb (m_global_timer_id tm)) s) (\<lambda>s1. rbind (alarm_all alloc cb es s1)
      (\<lambda>(fired, s'). Inr (m_global_timer_id tm # fired, s')))) (\<lambda>(fired, s').
           fired = map (\<lambda>e. m_global_timer_id (the (tq_store s (snd e)))) (e # es) \<and>
           tq_frame E (\<Union>i \<in> set fired. set (cb i)) s s')"
  proof (rule res_ok_bind)
    fix s1 assume 1: "tq_frame E (set (cb (m_global_timer_id tm))) s s1"
    have same: "map (\<lambda>e. m_global_timer_id (the (tq_store s1 (snd e)))) es =
        map (\<lambda>e. m_global_timer_id (the (tq_store s (snd e)))) es"
      using tq_frameD(2) [OF 1] Cons.prems(2) by (auto simp: image_subset_iff)
    have "res_ok (alarm_all alloc cb es s1) (\<lambda>(fired, s').
           fired = map (\<lambda>e. m_global_timer_id (the (tq_store s1 (snd e)))) es \<and>
           tq_frame E (\<Union>i \<in> set fired. set (cb i)) s1 s')"
      using Cons.IH [OF tq_frameD(1) [OF 1]] Cons.prems(2) by simp
    then show "res_ok (rbind (alarm_all alloc cb es s1) (\<lambda>(fired, s'). Inr (m_global_timer_id tm # fired, s'))) (\<lambda>(fired, s').
           fired = map (\<lambda>e. m_global_timer_id (the (tq_store s (snd e)))) (e # es) \<and>
           tq_frame E (\<Union>i \<in> set fired. set (cb i)) s s')"
      unfolding same by (rule res_ok_bind) (use tq_frame_trans [OF 1] tm in \<open>auto simp: e\<close>)
  qed
  then show ?case using tm by (simp add: e timer_deref_def)
qed

definition rearmed :: "timer_queue \<Rightarrow> addr \<Rightarrow> timer \<Rightarrow> bool" where
  "rearmed s a tm \<longleftrightarrow> m_is_repeated tm \<and> (a, m_global_timer_id tm) \<notin> set (m_canceling_timers s)"

lemma reset_expired_ok:
  assumes "tq_core (snd ` set es \<union> P) s" and "distinct (map snd es)" and "snd ` set es \<inter> P = {}"
  shows "\<exists>s'. reset_expired to_micros now es s = Inr s' \<and> tq_core P s' \<and>
           (\<forall>a. tq_store s' a = (if a \<in> snd ` set es
              then (case tq_store s a of Some tm \<Rightarrow> if rearmed s a tm then Some (timer_restart to_micros now tm) else None
                                       | None \<Rightarrow> None)
              else tq_store s a)) \<and>
           tq_pending s' = tq_pending s \<and> g_global_timer_id s' = g_global_timer_id s \<and>
           m_is_calling_expired_timers s' = m_is_calling_expired_timers s"
  using assms
proof (induction es arbitrary: s)
  case (Cons e es)
  obtain t a where e: "e = (t, a)" by (cases e)
  let ?X = "snd ` set (e # es) \<union> P"
  note D = tq_coreD [OF Cons.prems(1)]
  obtain tm where tm: "tq_store s a = Some tm" using D(7) by (auto simp: e)
  have X: "?X - {a} = snd ` set es \<union> P" "a \<in> ?X" "a \<notin> snd ` set es" using Cons.prems(2,3) by (auto simp: e)
  have core1: "tq_core ?X (s\<lparr>tq_store := (tq_store s)(a \<mapsto> timer_restart to_micros now tm)\<rparr>)"
  proof (rule tq_coreI, goal_cases)
    case (5 t b)
    then show ?case using D(5) [of t b] X(2) by auto
  next
    case (6 b i)
    then show ?case using D(6) [of b i] X(2) by auto
  next
    case 7
    then show ?case using D(7) by auto
  next
    case (8 b tm')
    then show ?case using D(8) [of b tm'] D(8) [OF tm] by (cases "b = a") (auto simp: timer_restart_def)
  next
    case (9 b c tmb tmc)
    have old: "\<exists>t0. tq_store s x = Some t0 \<and> m_global_timer_id t0 = m_global_timer_id t1"
      if "((tq_store s)(a \<mapsto> timer_restart to_micros now tm)) x = Some t1" for x t1
      using that tm by (cases "x = a") (auto simp: timer_restart_def)
    obtain t0 t1 where "tq_store s b = Some t0" "m_global_timer_id t0 = m_global_timer_id tmb"
        "tq_store s c = Some t1" "m_global_timer_id t1 = m_global_timer_id tmc"
      using old [of b tmb] old [of c tmc] 9(1,2) by auto
    then show ?case using D(9) [of b t0 c t1] 9(3) by simp
  qed (simp_all add: D(1-4))
  have core2: "tq_core (snd ` set es \<union> P) (s\<lparr>tq_store := (tq_store s)(a := None)\<rparr>)"
  proof (rule tq_coreI, goal_cases)
    case (5 t b)
    then show ?case using D(5) [of t b] X by auto
  next
    case (6 b i)
    then show ?case using D(6) [of b i] X by auto
  next
    case 7
    then show ?case using D(7) X Cons.prems(3) by (auto simp: e)
  next
    case (8 b tm')
    then show ?case using D(8) [of b tm'] by (simp split: if_splits)
  next
    case (9 b c tmb tmc)
    then show ?case using D(9) [of b tmb c tmc] by (simp split: if_splits)
  qed (simp_all add: D(1-4))
  obtain s1 where s1: "(if rearmed s a tm
              then rbind (tq_insert True a (s\<lparr>tq_store := (tq_store s)(a \<mapsto> timer_restart to_micros now tm)\<rparr>)) (\<lambda>(_, s). Inr s)
              else Inr (s\<lparr>tq_store := (tq_store s)(a := None)\<rparr>)) = Inr s1" "tq_core (snd ` set es \<union> P) s1"
      "tq_store s1 = (tq_store s)(a := if rearmed s a tm then Some (timer_restart to_micros now tm) else None)"
      "m_canceling_timers s1 = m_canceling_timers s" "tq_pending s1 = tq_pending s" "g_global_timer_id s1 = g_global_timer_id s"
      "m_is_calling_expired_timers s1 = m_is_calling_expired_timers s"
  proof (cases "rearmed s a tm")
    case True
    from tq_insert_ok [OF core1 X(2), of "timer_restart to_micros now tm"] show ?thesis
      using True that X(1) by auto
  next
    case False
    then show ?thesis using core2 that [of "s\<lparr>tq_store := (tq_store s)(a := None)\<rparr>"] by simp
  qed
  have re: "rearmed s1 = rearmed s" by (simp add: fun_eq_iff rearmed_def s1(4))
  obtain s2 where s2: "reset_expired to_micros now es s1 = Inr s2" "tq_core P s2"
      "\<And>b. tq_store s2 b = (if b \<in> snd ` set es
              then (case tq_store s1 b of Some tm \<Rightarrow> if rearmed s b tm then Some (timer_restart to_micros now tm) else None
                                       | None \<Rightarrow> None)
              else tq_store s1 b)"
      "tq_pending s2 = tq_pending s" "g_global_timer_id s2 = g_global_timer_id s"
      "m_is_calling_expired_timers s2 = m_is_calling_expired_timers s"
  proof -
    have "distinct (map snd es)" "snd ` set es \<inter> P = {}" using Cons.prems(2,3) by auto
    from Cons.IH [OF s1(2) this] show ?thesis unfolding re s1(5-7) using that by blast
  qed
  have "reset_expired to_micros now (e # es) s = Inr s2"
    using s1(1) s2(1) tm by (simp add: e timer_deref_def rearmed_def)
  moreover have "tq_store s2 b = (if b \<in> snd ` set (e # es)
              then (case tq_store s b of Some tm \<Rightarrow> if rearmed s b tm then Some (timer_restart to_micros now tm) else None
                                       | None \<Rightarrow> None)
              else tq_store s b)" for b
    unfolding s2(3) using X(3) tm by (cases "b = a") (auto simp: e s1(3))
  ultimately show ?case using s2(2,4-6) by blast
qed auto

text \<open>How far ahead the descriptor is set: at least 100 microseconds, and exactly at the expiration when that
  is later.\<close>

lemma reset_timer_fd_alarm: "tq_alarm (reset_timer_fd now t s) = Some (now, max t (now + 100))"
proof -
  define d where "d = (if t - now < 100 then 100 else t - now)"
  have d: "0 \<le> d" by (simp add: d_def)
  have "d div 1000000 * 1000000 + (d mod 1000000) * 1000 div 1000 = d" by simp
  then have "now + d sdiv 1000000 * 1000000 + ((d smod 1000000) * 1000) sdiv 1000 = now + d"
    using d by (simp add: sdiv_nonneg smod_nonneg)
  moreover have "now + d = max t (now + 100)" by (simp add: d_def max_def)
  ultimately show ?thesis
    unfolding reset_timer_fd_def how_long_from_now_def Let_def d_def [symmetric] kMicroSecondsPerSecond_def by simp
qed

definition tq_armed :: "timer_queue \<Rightarrow> bool" where
  "tq_armed s \<longleftrightarrow> (m_timers_set s \<noteq> [] \<longrightarrow>
     (\<exists>set_at fire. tq_alarm s = Some (set_at, fire) \<and> fire \<le> max (fst (hd (m_timers_set s))) (set_at + 100)))"

lemma tq_reset_ok:
  assumes "tq_inv (snd ` set es) s" and "distinct (map snd es)"
  shows "\<exists>s'. tq_reset to_micros es now now' s = Inr s' \<and> tq_inv {} s' \<and> tq_pending s' = tq_pending s \<and>
           (\<forall>a. tq_store s' a = (if a \<in> snd ` set es
              then (case tq_store s a of Some tm \<Rightarrow> if rearmed s a tm then Some (timer_restart to_micros now tm) else None
                                       | None \<Rightarrow> None)
              else tq_store s a)) \<and>
           g_global_timer_id s' = g_global_timer_id s \<and> m_is_calling_expired_timers s' = m_is_calling_expired_timers s \<and>
           (m_timers_set s' \<noteq> [] \<longrightarrow> ts_valid (fst (hd (m_timers_set s'))) \<longrightarrow> tq_armed s')"
proof -
  obtain s1 where s1: "reset_expired to_micros now es s = Inr s1" "tq_core (set (tq_pending s)) s1"
      "\<forall>a. tq_store s1 a = (if a \<in> snd ` set es
              then (case tq_store s a of Some tm \<Rightarrow> if rearmed s a tm then Some (timer_restart to_micros now tm) else None
                                       | None \<Rightarrow> None)
              else tq_store s a)"
      "tq_pending s1 = tq_pending s" "g_global_timer_id s1 = g_global_timer_id s"
      "m_is_calling_expired_timers s1 = m_is_calling_expired_timers s"
    using reset_expired_ok [of es "set (tq_pending s)" s to_micros now] assms by (auto simp: tq_inv_def)
  define s2 where "s2 = (if m_timers_set s1 \<noteq> [] \<and> ts_valid (fst (hd (m_timers_set s1)))
      then reset_timer_fd now' (fst (hd (m_timers_set s1))) s1 else s1)"
  have "tq_reset to_micros es now now' s = Inr s2"
  proof (cases "m_timers_set s1")
    case (Cons e r)
    then obtain tm where "tq_store s1 (snd e) = Some tm" "m_time_expire tm = fst e"
      using tq_coreD(5) [OF s1(2), of "fst e" "snd e"] by auto
    then show ?thesis using s1(1) Cons by (simp add: tq_reset_def s2_def timer_deref_def)
  qed (simp add: tq_reset_def s1(1) s2_def)
  moreover have "tq_core (set (tq_pending s)) s2" by (rule tq_core_same [OF s1(2)]) (simp_all add: s2_def)
  moreover have "tq_armed s2" if "m_timers_set s2 \<noteq> []" "ts_valid (fst (hd (m_timers_set s2)))"
    using that by (auto simp: s2_def tq_armed_def reset_timer_fd_alarm split: if_splits)
  moreover have "tq_pending s2 = tq_pending s" "tq_store s2 = tq_store s1" "g_global_timer_id s2 = g_global_timer_id s"
      "m_is_calling_expired_timers s2 = m_is_calling_expired_timers s"
    using s1(4-6) by (simp_all add: s2_def)
  ultimately show ?thesis using s1(3) assms(1) by (simp add: tq_inv_def)
qed

lemma handle_timerfd_read_ok:
  assumes "alloc_ok alloc" and inv: "tq_inv {} s"
  shows "res_ok (handle_timerfd_read True to_micros alloc cb now now' s) (\<lambda>(fired, s').
           tq_inv {} s' \<and> \<not> m_is_calling_expired_timers s' \<and> g_global_timer_id s \<le> g_global_timer_id s' \<and>
           fired = map (\<lambda>e. m_global_timer_id (the (tq_store s (snd e)))) (List.filter (\<lambda>e. fst e \<le> now) (m_timers_set s)) \<and>
           (\<forall>a tm. tq_store s' a = Some tm \<longrightarrow> m_global_timer_id tm \<le> g_global_timer_id s \<longrightarrow>
              (\<exists>tm0. tq_store s a = Some tm0 \<and> m_global_timer_id tm0 = m_global_timer_id tm)) \<and>
           (\<forall>t a. (t, a) \<in> set (m_timers_set s) \<longrightarrow> t \<le> now \<longrightarrow>
              a \<notin> set (tq_pending s') \<and>
              tq_store s' a = (case tq_store s a of None \<Rightarrow> None
                | Some tm \<Rightarrow> if m_is_repeated tm \<and> (\<forall>i \<in> set fired. Remove_timer (a, m_global_timer_id tm) \<notin> set (cb i))
                            then Some (timer_restart to_micros now tm) else None)) \<and>
           (m_timers_set s' \<noteq> [] \<longrightarrow> ts_valid (fst (hd (m_timers_set s'))) \<longrightarrow> tq_armed s'))"
proof -
  define es where "es = List.filter (\<lambda>e. fst e \<le> now) (m_timers_set s)"
  obtain s1 where s1: "retrieve_expired_timers now s = Inr (es, s1)" "tq_inv (snd ` set es) s1"
      "tq_store s1 = tq_store s" "g_global_timer_id s1 = g_global_timer_id s"
    using retrieve_expired_timers_ok [OF inv, of now] by (auto simp: es_def)
  let ?s1 = "s1\<lparr> m_is_calling_expired_timers := True, m_canceling_timers := [] \<rparr>"
  have inv1: "tq_inv (snd ` set es) ?s1" using s1(2) tq_core_same [of _ s1 ?s1] by (simp add: tq_inv_def)
  note D = tq_coreD [OF inv [unfolded tq_inv_def, THEN conjunct1]]
  have dist: "distinct (map snd es)" using D(2,5) by (auto simp: es_def distinct_map inj_on_def)
  have live: "\<exists>tm. tq_store s a = Some tm" if "a \<in> snd ` set es" for a using that D(5) by (auto simp: es_def)
  have main: "res_ok (rbind (alarm_all alloc cb es ?s1) (\<lambda>(fired, s2).
       rbind (tq_reset to_micros es now now' (s2\<lparr>m_is_calling_expired_timers := False\<rparr>)) (\<lambda>s. Inr (fired, s))))
     (\<lambda>(fired, s'). tq_inv {} s' \<and> \<not> m_is_calling_expired_timers s' \<and> g_global_timer_id s \<le> g_global_timer_id s' \<and>
           fired = map (\<lambda>e. m_global_timer_id (the (tq_store s (snd e)))) es \<and>
           (\<forall>a tm. tq_store s' a = Some tm \<longrightarrow> m_global_timer_id tm \<le> g_global_timer_id s \<longrightarrow>
              (\<exists>tm0. tq_store s a = Some tm0 \<and> m_global_timer_id tm0 = m_global_timer_id tm)) \<and>
           (\<forall>t a. (t, a) \<in> set es \<longrightarrow>
              a \<notin> set (tq_pending s') \<and>
              tq_store s' a = (case tq_store s a of None \<Rightarrow> None
                | Some tm \<Rightarrow> if m_is_repeated tm \<and> (\<forall>i \<in> set fired. Remove_timer (a, m_global_timer_id tm) \<notin> set (cb i))
                            then Some (timer_restart to_micros now tm) else None)) \<and>
           (m_timers_set s' \<noteq> [] \<longrightarrow> ts_valid (fst (hd (m_timers_set s'))) \<longrightarrow> tq_armed s'))"
  proof (rule res_ok_bind [OF alarm_all_ok [OF assms(1) inv1 order_refl]], goal_cases)
    case (1 r)
    obtain fired s2 where r: "r = (fired, s2)" by (cases r)
    have fr: "fired = map (\<lambda>e. m_global_timer_id (the (tq_store s (snd e)))) es"
      and frame: "tq_frame (snd ` set es) (\<Union>i \<in> set fired. set (cb i)) ?s1 s2"
      using 1 r s1(3) by auto
    note F = tq_frameD [OF frame]
    let ?s2 = "s2\<lparr>m_is_calling_expired_timers := False\<rparr>"
    have inv2: "tq_inv (snd ` set es) ?s2" using F(1) tq_core_same [of _ s2 ?s2] by (simp add: tq_inv_def)
    have re: "rearmed ?s2 a tm = (m_is_repeated tm \<and> (\<forall>i \<in> set fired. Remove_timer (a, m_global_timer_id tm) \<notin> set (cb i)))"
      if "a \<in> snd ` set es" for a tm
      using F(5) [OF that] by (auto simp: rearmed_def)
    obtain s3 where s3: "tq_reset to_micros es now now' ?s2 = Inr s3" "tq_inv {} s3" and pend: "tq_pending s3 = tq_pending s2"
      and s3':
        "\<And>a. tq_store s3 a = (if a \<in> snd ` set es
              then (case tq_store s2 a of Some tm \<Rightarrow> if rearmed ?s2 a tm then Some (timer_restart to_micros now tm) else None
                                       | None \<Rightarrow> None)
              else tq_store s2 a)"
        "g_global_timer_id s3 = g_global_timer_id s2" "\<not> m_is_calling_expired_timers s3"
        "m_timers_set s3 \<noteq> [] \<longrightarrow> ts_valid (fst (hd (m_timers_set s3))) \<longrightarrow> tq_armed s3"
    proof -
      have same: "tq_store ?s2 = tq_store s2" "g_global_timer_id ?s2 = g_global_timer_id s2"
        "m_is_calling_expired_timers ?s2 = False" "tq_pending ?s2 = tq_pending s2" by simp_all
      from tq_reset_ok [OF inv2 dist, of to_micros now now'] show ?thesis unfolding same using that by blast
    qed
    have exp: "tq_store s3 a = (case tq_store s a of None \<Rightarrow> None
                | Some tm \<Rightarrow> if m_is_repeated tm \<and> (\<forall>i \<in> set fired. Remove_timer (a, m_global_timer_id tm) \<notin> set (cb i))
                            then Some (timer_restart to_micros now tm) else None)" if "a \<in> snd ` set es" for a
      using that F(2) [OF that] s1(3) re [OF that] by (simp add: s3'(1) split: option.split)
    have old: "\<exists>tm0. tq_store s a = Some tm0 \<and> m_global_timer_id tm0 = m_global_timer_id tm"
      if "tq_store s3 a = Some tm" "m_global_timer_id tm \<le> g_global_timer_id s" for a tm
    proof (cases "a \<in> snd ` set es")
      case True
      then obtain tm0 where "tq_store s a = Some tm0" using live by blast
      then show ?thesis using that exp [OF True] by (auto simp: timer_restart_def split: if_splits)
    next
      case False
      then show ?thesis using that s3'(1) [of a] F(6) [of a tm] s1(3,4) by simp
    qed
    have "g_global_timer_id s \<le> g_global_timer_id s3" using F(4) s3'(2) s1(4) by simp
    moreover have "\<forall>t a. (t, a) \<in> set es \<longrightarrow> a \<notin> set (tq_pending s3) \<and>
              tq_store s3 a = (case tq_store s a of None \<Rightarrow> None
                | Some tm \<Rightarrow> if m_is_repeated tm \<and> (\<forall>i \<in> set fired. Remove_timer (a, m_global_timer_id tm) \<notin> set (cb i))
                            then Some (timer_restart to_micros now tm) else None)"
    proof (intro allI impI)
      fix t a assume "(t, a) \<in> set es"
      then have "a \<in> snd ` set es" by force
      then have "a \<notin> set (tq_pending s3)" using F(1) pend by (auto simp: tq_inv_def)
      with exp [OF \<open>a \<in> snd ` set es\<close>] show "a \<notin> set (tq_pending s3) \<and> tq_store s3 a = (case tq_store s a of None \<Rightarrow> None
                | Some tm \<Rightarrow> if m_is_repeated tm \<and> (\<forall>i \<in> set fired. Remove_timer (a, m_global_timer_id tm) \<notin> set (cb i))
                            then Some (timer_restart to_micros now tm) else None)" by blast
    qed
    ultimately show ?case
      unfolding r prod.case s3(1) rbind_Inr res_ok_simps using s3(2) s3'(3,4) fr old by blast
  qed
  have mem: "((t, a) \<in> set es) = ((t, a) \<in> set (m_timers_set s) \<and> t \<le> now)" for t a by (auto simp: es_def)
  show ?thesis
    using main unfolding handle_timerfd_read_def in_loop_thread_True s1(1) rbind_Inr prod.case mem imp_conjL es_def [symmetric] .
qed

section \<open>Properties\<close>

text \<open>A run of a reactor's timer queue: actions between the events, and the handler. It yields the ids of the
  timers that were called, in order.\<close>

datatype tq_op =
    Act tq_action
  | Timerfd_read "int \<Rightarrow> tq_action list" timestamp timestamp

fun tq_run ::
    "(real \<Rightarrow> int) \<Rightarrow> ((addr \<rightharpoonup> timer) \<Rightarrow> addr option) \<Rightarrow> tq_op list \<Rightarrow> timer_queue \<Rightarrow> (int list \<times> timer_queue) res" where
  "tq_run to_micros alloc [] s = Inr ([], s)"
| "tq_run to_micros alloc (Act act # ops) s = rbind (tq_act alloc act s) (tq_run to_micros alloc ops)"
| "tq_run to_micros alloc (Timerfd_read cb now now' # ops) s =
     rbind (handle_timerfd_read True to_micros alloc cb now now' s) (\<lambda>(fired, s).
     rbind (tq_run to_micros alloc ops s) (\<lambda>(fired', s). Inr (fired @ fired', s)))"

definition no_timer :: "int \<Rightarrow> timer_queue \<Rightarrow> bool" where
  "no_timer i s \<longleftrightarrow> (\<forall>a tm. tq_store s a = Some tm \<longrightarrow> m_global_timer_id tm \<noteq> i)"

lemma handle_no_timer:
  assumes "alloc_ok alloc" and "tq_inv {} s"
  shows "res_ok (handle_timerfd_read True to_micros alloc cb now now' s) (\<lambda>(fired, s').
           tq_inv {} s' \<and> g_global_timer_id s \<le> g_global_timer_id s' \<and>
           (\<forall>i \<le> g_global_timer_id s. no_timer i s \<longrightarrow> i \<notin> set fired \<and> no_timer i s'))"
proof (rule res_ok_mono [OF handle_timerfd_read_ok [OF assms]], clarify, goal_cases)
  case (1 fired s')
  have "\<exists>tm. tq_store s (snd e) = Some tm" if "e \<in> set (m_timers_set s)" for e
    using that tq_coreD(5) [of "set (tq_pending s)" s "fst e" "snd e"] assms(2) by (auto simp: tq_inv_def)
  then have "i \<notin> set (map (\<lambda>e. m_global_timer_id (the (tq_store s (snd e)))) (List.filter (\<lambda>e. fst e \<le> now) (m_timers_set s)))"
    if "no_timer i s" for i
    using that by (fastforce simp: no_timer_def)
  moreover have "no_timer i s'" if "i \<le> g_global_timer_id s" "no_timer i s" for i
    using that 1 unfolding no_timer_def by blast
  ultimately show ?case using 1 by blast
qed

lemma tq_run_ok:
  "alloc_ok alloc \<Longrightarrow> tq_inv {} s \<Longrightarrow> res_ok (tq_run to_micros alloc ops s) (\<lambda>(fired, s').
     tq_inv {} s' \<and> g_global_timer_id s \<le> g_global_timer_id s' \<and>
     (\<forall>i \<le> g_global_timer_id s. no_timer i s \<longrightarrow> i \<notin> set fired \<and> no_timer i s'))"
proof (induction ops arbitrary: s)
  case (Cons op ops)
  show ?case
  proof (cases op)
    case (Act act)
    show ?thesis
      unfolding Act tq_run.simps
    proof (rule res_ok_bind [OF tq_act_ok [OF Cons.prems]])
      fix s1 assume "tq_frame {} {act} s s1"
      note F = tq_frameD [OF this]
      have "no_timer i s1" if "i \<le> g_global_timer_id s" "no_timer i s" for i
        using F(6) that unfolding no_timer_def by blast
      then show "res_ok (tq_run to_micros alloc ops s1) (\<lambda>(fired, s').
         tq_inv {} s' \<and> g_global_timer_id s \<le> g_global_timer_id s' \<and>
         (\<forall>i \<le> g_global_timer_id s. no_timer i s \<longrightarrow> i \<notin> set fired \<and> no_timer i s'))"
        using F(4) by (intro res_ok_mono [OF Cons.IH [OF Cons.prems(1) F(1)]]) auto
    qed
  next
    case (Timerfd_read cb now now')
    show ?thesis
      unfolding Timerfd_read tq_run.simps
    proof (rule res_ok_bind [OF handle_no_timer [OF Cons.prems]], goal_cases)
      case (1 r)
      obtain fired s1 where r: "r = (fired, s1)" by (cases r)
      have s1: "tq_inv {} s1" "g_global_timer_id s \<le> g_global_timer_id s1"
          "\<And>i. i \<le> g_global_timer_id s \<Longrightarrow> no_timer i s \<Longrightarrow> i \<notin> set fired \<and> no_timer i s1"
        using 1 r by auto
      show ?case
        unfolding r prod.case
      proof (rule res_ok_bind [OF Cons.IH [OF Cons.prems(1) s1(1)]], goal_cases)
        case (1 r')
        obtain fired' s2 where r': "r' = (fired', s2)" by (cases r')
        have "i \<notin> set (fired @ fired') \<and> no_timer i s2" if i: "i \<le> g_global_timer_id s" "no_timer i s" for i
          using 1 r' s1(2) s1(3) [OF i] i(1) by auto
        then show ?case using 1 r' s1(2) by auto
      qed
    qed
  qed
qed simp

lemma tq_inv_init: "tq_inv {} TimerQueue_init"
  by (simp add: tq_inv_def tq_core_def TimerQueue_init_def)

lemma tq_inv_dom: "tq_inv {} s \<Longrightarrow> dom (tq_store s) = snd ` set (m_timers_set s) \<union> set (tq_pending s)"
proof (rule set_eqI)
  fix a assume "tq_inv {} s"
  then have core: "tq_core (set (tq_pending s)) s" by (simp add: tq_inv_def)
  have "a \<in> snd ` set (m_timers_set s) \<longleftrightarrow> (\<exists>t. (t, a) \<in> set (m_timers_set s))" by force
  then have "a \<in> snd ` set (m_timers_set s) \<longleftrightarrow> a \<notin> set (tq_pending s) \<and> a \<in> dom (tq_store s)"
    unfolding tq_coreD(5) [OF core] by blast
  then show "a \<in> dom (tq_store s) \<longleftrightarrow> a \<in> snd ` set (m_timers_set s) \<union> set (tq_pending s)"
    using tq_coreD(7) [OF core] by blast
qed


text \<open>An allocator: the least address not in use below a bound.\<close>

definition first_free :: "(addr \<rightharpoonup> timer) \<Rightarrow> addr option" where
  "first_free st = List.find (\<lambda>a. st a = None) [8, 16, 24]"

lemma first_free_ok: "alloc_ok first_free"
  by (auto simp: alloc_ok_def first_free_def find_Some_iff UINTPTR_MAX_def nth_Cons' split: if_splits)

lemmas tq_eval = TimerQueue_init_def add_timer_def timer_new_def first_free_def add_timer_in_reactor_def tq_insert_def
  same_size_def timer_deref_def sset_insert_def sset_erase_def sset_split_def Timer_init_def handle_timerfd_read_def
  retrieve_expired_timers_def tq_reset_def cancel_in_reactor_def timer_restart_def reset_timer_fd_def
  how_long_from_now_def kMicroSecondsPerSecond_def add_second_def ts_valid_def Let_def UINTPTR_MAX_def sdiv_nonneg smod_nonneg


text \<open>
  C19: The handler calls exactly the timers whose time has come, in the order of their expirations (ties by
  address), and afterwards each of them is either armed again, at the handler's time plus its interval,
  which happens exactly when it repeats and no callback of this round removed it, or it is deleted.
\<close>

theorem timer_fires_expired:
  assumes "alloc_ok alloc" and "tq_inv {} s"
    and "handle_timerfd_read True to_micros alloc cb now now' s = Inr (fired, s')"
  shows "fired = map (\<lambda>e. m_global_timer_id (the (tq_store s (snd e)))) (List.filter (\<lambda>e. fst e \<le> now) (m_timers_set s)) \<and>
         (\<forall>t a tm. (t, a) \<in> set (m_timers_set s) \<longrightarrow> t \<le> now \<longrightarrow> tq_store s a = Some tm \<longrightarrow>
            (if m_is_repeated tm \<and> (\<forall>i \<in> set fired. Remove_timer (a, m_global_timer_id tm) \<notin> set (cb i))
             then (add_second to_micros now (m_interval tm), a) \<in> set (m_timers_set s') \<and>
                  tq_store s' a = Some (tm\<lparr>m_time_expire := add_second to_micros now (m_interval tm)\<rparr>)
             else tq_store s' a = None))"
proof -
  have post: "tq_inv {} s'"
    "fired = map (\<lambda>e. m_global_timer_id (the (tq_store s (snd e)))) (List.filter (\<lambda>e. fst e \<le> now) (m_timers_set s))"
    "\<And>t a. (t, a) \<in> set (m_timers_set s) \<Longrightarrow> t \<le> now \<Longrightarrow> a \<notin> set (tq_pending s') \<and>
        tq_store s' a = (case tq_store s a of None \<Rightarrow> None
          | Some tm \<Rightarrow> if m_is_repeated tm \<and> (\<forall>i \<in> set fired. Remove_timer (a, m_global_timer_id tm) \<notin> set (cb i))
                      then Some (timer_restart to_micros now tm) else None)"
    using handle_timerfd_read_ok [OF assms(1,2), of to_micros cb now now'] unfolding assms(3) res_ok_simps prod.case
    by blast+
  have "tq_core (set (tq_pending s)) s" "tq_core (set (tq_pending s')) s'" using assms(2) post(1) by (simp_all add: tq_inv_def)
  note D = tq_coreD [OF this(1)] and D' = tq_coreD [OF this(2)]
  show ?thesis
  proof (intro conjI post(2) allI impI)
    fix t a tm assume ta: "(t, a) \<in> set (m_timers_set s)" "t \<le> now" and tm: "tq_store s a = Some tm"
    show "if m_is_repeated tm \<and> (\<forall>i \<in> set fired. Remove_timer (a, m_global_timer_id tm) \<notin> set (cb i))
             then (add_second to_micros now (m_interval tm), a) \<in> set (m_timers_set s') \<and>
                  tq_store s' a = Some (tm\<lparr>m_time_expire := add_second to_micros now (m_interval tm)\<rparr>)
             else tq_store s' a = None"
      using post(3) [OF ta] tm D'(5) [of "add_second to_micros now (m_interval tm)" a] by (simp add: timer_restart_def)
  qed
qed

theorem timer_fires_expired_witness:
  "\<exists>s fired s'. tq_inv {} s \<and> length (m_timers_set s) = 2 \<and>
     handle_timerfd_read True (\<lambda>_. 5000) first_free (\<lambda>_. []) 2200 2300 s = Inr (fired, s') \<and>
     fired = [1] \<and> (7200, 8) \<in> set (m_timers_set s')"
proof -
  let ?ops = "[Act (Add_timer True 1000 2000 1), Act (Add_timer True 1000 2500 0)]"
  obtain s where run: "tq_run (\<lambda>_. 5000) first_free ?ops TimerQueue_init = Inr ([], s)"
    and s: "m_timers_set s = [(2000, 8), (2500, 16)]"
      "tq_store s = [8 \<mapsto> \<lparr> m_time_expire = 2000, m_interval = 1, m_is_repeated = True, m_global_timer_id = 1 \<rparr>,
                     16 \<mapsto> \<lparr> m_time_expire = 2500, m_interval = 0, m_is_repeated = False, m_global_timer_id = 2 \<rparr>]"
      "m_active_timers_set s = [(8, 1), (16, 2)]" "tq_pending s = []"
    by (simp add: tq_eval)
  have inv: "tq_inv {} s" using tq_run_ok [OF first_free_ok tq_inv_init, of "\<lambda>_. 5000" ?ops] run by simp
  have "\<exists>r. handle_timerfd_read True (\<lambda>_. 5000) first_free (\<lambda>_. []) 2200 2300 s = Inr r"
    using s by (simp add: tq_eval)
  then obtain fired s' where h: "handle_timerfd_read True (\<lambda>_. 5000) first_free (\<lambda>_. []) 2200 2300 s = Inr (fired, s')" by auto
  from timer_fires_expired [OF first_free_ok inv h] have "fired = [1] \<and> (7200, 8) \<in> set (m_timers_set s')"
    by (simp add: s add_second_def)
  then show ?thesis using inv h s by force
qed



lemma add_timer_in_reactor_armed:
  assumes "tq_core X s" and "a \<in> X" and armed: "tq_armed s"
  shows "\<exists>s'. add_timer_in_reactor True now a s = Inr s' \<and> tq_armed s'"
proof -
  obtain s' and tm :: timer where s': "add_timer_in_reactor True now a s = Inr s'"
      "m_timers_set s' = insort (m_time_expire tm, a) (m_timers_set s)"
      "tq_alarm s' = (if m_timers_set s = [] \<or> m_time_expire tm < fst (hd (m_timers_set s))
                        then tq_alarm (reset_timer_fd now (m_time_expire tm) s) else tq_alarm s)"
    using add_timer_in_reactor_ok [OF assms(1,2), of now] by blast
  have "tq_armed s'"
  proof (cases "m_timers_set s = [] \<or> m_time_expire tm < fst (hd (m_timers_set s))")
    case True
    then have "m_timers_set s' = (m_time_expire tm, a) # m_timers_set s"
      unfolding s'(2) by (cases "m_timers_set s") (auto simp: less_eq_prod_def)
    then show ?thesis using True s'(3) by (simp add: tq_armed_def reset_timer_fd_alarm)
  next
    case False
    then obtain e es where e: "m_timers_set s = e # es" "fst e \<le> m_time_expire tm" by (cases "m_timers_set s") auto
    then have "fst (hd (m_timers_set s')) = fst e" unfolding s'(2) by (auto simp: less_eq_prod_def)
    then show ?thesis using armed s'(3) False e by (auto simp: tq_armed_def)
  qed
  then show ?thesis using s'(1) by blast
qed

lemma cancel_in_reactor_armed:
  assumes "tq_core X s" and armed: "tq_armed s"
  shows "\<exists>s'. cancel_in_reactor True tid s = Inr s' \<and> tq_armed s'"
proof -
  obtain s' where s': "cancel_in_reactor True tid s = Inr s'" "tq_alarm s' = tq_alarm s"
      "m_timers_set s' = List.filter (\<lambda>e. snd e \<noteq> fst tid) (m_timers_set s) \<or> m_timers_set s' = m_timers_set s"
    using cancel_in_reactor_ok [OF assms(1), of tid] by (auto split: if_splits)
  have sub: "set (m_timers_set s') \<subseteq> set (m_timers_set s)" using s'(3) by auto
  have "fst (hd (m_timers_set s)) \<le> fst (hd (m_timers_set s'))" if ne: "m_timers_set s' \<noteq> []"
  proof -
    have "hd (m_timers_set s') \<in> set (m_timers_set s)" using sub hd_in_set [OF ne] by blast
    then have "hd (m_timers_set s) \<le> hd (m_timers_set s')"
      using tq_coreD(1) [OF assms(1)] by (cases "m_timers_set s") auto
    then show ?thesis by (auto simp: less_eq_prod_def)
  qed
  moreover have "m_timers_set s \<noteq> []" if "m_timers_set s' \<noteq> []" using s'(3) that by auto
  ultimately have "tq_armed s'" using armed s'(2) by (fastforce simp: tq_armed_def)
  then show ?thesis using s'(1) by blast
qed

lemma tq_act_armed:
  assumes "alloc_ok alloc" and "tq_inv {} s" and "tq_armed s"
  shows "res_ok (tq_act alloc act s) tq_armed"
proof (cases act)
  case (Add_timer in_thread now t interval)
  have core: "tq_core (set (tq_pending s)) s" using assms(2) by (simp add: tq_inv_def)
  show ?thesis
  proof (cases "timer_new alloc t interval s")
    case (Inl e)
    then show ?thesis using timer_new_ok [OF assms(1) core, of t interval] Add_timer by (simp add: add_timer_def)
  next
    case (Inr r)
    obtain a s1 where r: "r = (a, s1)" by (cases r)
    have s1: "tq_core (insert a (set (tq_pending s))) s1" "m_timers_set s1 = m_timers_set s" "tq_alarm s1 = tq_alarm s"
      using timer_new_ok [OF assms(1) core, of t interval] Inr r by auto
    then have armed: "tq_armed s1" "tq_armed (s1\<lparr>tq_pending := ps\<rparr>)" for ps using assms(3) by (simp_all add: tq_armed_def)
    show ?thesis
      using add_timer_in_reactor_armed [OF s1(1) insertI1 armed(1), of now] Inr r armed(2) Add_timer
      by (cases in_thread) (auto simp: add_timer_def)
  qed
next
  case (Run_pending now)
  show ?thesis
  proof (cases "tq_pending s")
    case (Cons a as)
    have "tq_core (set (tq_pending s)) s" using assms(2) by (simp add: tq_inv_def)
    then have "tq_core (set (tq_pending s)) (s\<lparr>tq_pending := as\<rparr>)" by (rule tq_core_same) simp_all
    moreover have "tq_armed (s\<lparr>tq_pending := as\<rparr>)" using assms(3) by (simp add: tq_armed_def)
    ultimately show ?thesis
      using add_timer_in_reactor_armed [of "set (tq_pending s)" "s\<lparr>tq_pending := as\<rparr>" a now] Cons Run_pending by auto
  qed (use assms(3) Run_pending in simp)
next
  case (Remove_timer tid)
  then show ?thesis using cancel_in_reactor_armed [of "set (tq_pending s)" s tid] assms(2,3) by (auto simp: tq_inv_def)
qed



end
