(* ===== verification/Reactor.thy ===== *)
theory Reactor
  imports TimerQueue Channel
begin

text \<open>
  Reactor.h and Reactor.cc: the event loop of one thread. The queue of tasks is filled by any thread
  under a mutex and drained by the loop; the eventfd of the wakeup channel is a counter. The loop is a
  step relation whose control points are those of \<^verbatim>\<open>Reactor::loop\<close>, so that the steps of other threads (the
  two halves of \<^verbatim>\<open>queue_in_reactor\<close>: the push, and the write to the eventfd) fall anywhere between them. Tasks
  are opaque; what a task or an event handler does with the queue is a step of its own.
\<close>

definition kPollTimeMs :: int where "kPollTimeMs = 10000"

type_synonym task = nat

datatype pc = Outside | Polling | Handling "chan list" | Draining "task list"

record reactor =
  m_is_looping :: bool
  m_going_to_quit :: bool
  m_is_handling_event :: bool
  m_is_calling_pending_tasks :: bool
  m_iter_count :: int
  m_tid :: int
  m_timeout_ms :: int
  m_poll_return_time :: timestamp
  m_wakeup_channel :: chan
  m_active_channels :: "chan list"
  m_current_active_channel :: "chan option"
  m_pending_tasks :: "task list"
  wakeup_count :: nat         \<comment> \<open>the counter behind \<^verbatim>\<open>m_wakeup_fd\<close>\<close>

text \<open>The constructor: \<open>existing\<close> is the reactor this thread has already, if any.\<close>

definition Reactor_init :: "int \<Rightarrow> int \<Rightarrow> chan \<Rightarrow> bool \<Rightarrow> bool \<Rightarrow> reactor res" where
  "Reactor_init tid timeout_ms wakeup existing eventfd_ok =
     (if \<not> eventfd_ok then mfatal ''Failed in eventfd''
      else if existing then mfatal ''Another Reactor exists in this thread''
      else Inr \<lparr> m_is_looping = False, m_going_to_quit = False, m_is_handling_event = False,
                 m_is_calling_pending_tasks = False, m_iter_count = 0, m_tid = tid, m_timeout_ms = timeout_ms,
                 m_poll_return_time = ts_invalid, m_wakeup_channel = wakeup, m_active_channels = [],
                 m_current_active_channel = None, m_pending_tasks = [], wakeup_count = 0 \<rparr>)"

definition is_in_reactor_thread :: "int \<Rightarrow> reactor \<Rightarrow> bool" where
  "is_in_reactor_thread tid r \<longleftrightarrow> m_tid r = tid"

definition assert_in_reactor_thread :: "int \<Rightarrow> reactor \<Rightarrow> 'a res \<Rightarrow> 'a res" where
  "assert_in_reactor_thread tid r k =
     (if is_in_reactor_thread tid r then k else mfatal ''Reactor::abort_not_in_reactor_thread'')"

text \<open>A write of one to the eventfd, and the read that resets it.\<close>

definition wakeup_from_waiting_pool :: "reactor \<Rightarrow> reactor" where
  "wakeup_from_waiting_pool r = r\<lparr>wakeup_count := wakeup_count r + 1\<rparr>"

definition handle_wakeup :: "reactor \<Rightarrow> reactor" where
  "handle_wakeup r = r\<lparr>wakeup_count := 0\<rparr>"

definition push_task :: "task \<Rightarrow> reactor \<Rightarrow> reactor" where
  "push_task t r = r\<lparr>m_pending_tasks := m_pending_tasks r @ [t]\<rparr>"

definition queue_in_reactor :: "int \<Rightarrow> task \<Rightarrow> reactor \<Rightarrow> reactor" where
  "queue_in_reactor tid t r =
     (let r = push_task t r
      in if \<not> is_in_reactor_thread tid r \<or> m_is_calling_pending_tasks r then wakeup_from_waiting_pool r else r)"

text \<open>The result says whether the task was run at once.\<close>

definition run_asap_in_reactor :: "int \<Rightarrow> task \<Rightarrow> reactor \<Rightarrow> bool \<times> reactor" where
  "run_asap_in_reactor tid t r =
     (if is_in_reactor_thread tid r then (True, r) else (False, queue_in_reactor tid t r))"

definition num_pending_tasks :: "reactor \<Rightarrow> nat" where
  "num_pending_tasks r = length (m_pending_tasks r)"

definition mark_quit :: "int \<Rightarrow> reactor \<Rightarrow> reactor" where
  "mark_quit tid r =
     (let r = r\<lparr>m_going_to_quit := True\<rparr>
      in if \<not> is_in_reactor_thread tid r then wakeup_from_waiting_pool r else r)"

text \<open>The pieces of \<^verbatim>\<open>loop\<close>: its entry, what follows the return of \<^verbatim>\<open>poll\<close>, each handled channel, and the end of the
  event handling.\<close>

definition loop_enter :: "int \<Rightarrow> reactor \<Rightarrow> reactor res" where
  "loop_enter tid r =
     massert (\<not> m_is_looping r) ''!m_is_looping''
       (assert_in_reactor_thread tid r (Inr (r\<lparr> m_is_looping := True, m_going_to_quit := False \<rparr>)))"

definition poll_returned :: "timestamp \<Rightarrow> chan list \<Rightarrow> reactor \<Rightarrow> reactor" where
  "poll_returned now active r =
     r\<lparr> m_active_channels := active, m_poll_return_time := now, m_iter_count := m_iter_count r + 1, m_is_handling_event := True \<rparr>"

definition begin_handle :: "chan \<Rightarrow> reactor \<Rightarrow> reactor" where
  "begin_handle c r = r\<lparr>m_current_active_channel := Some c\<rparr>"

definition end_handling :: "reactor \<Rightarrow> reactor" where
  "end_handling r = r\<lparr> m_current_active_channel := None, m_is_handling_event := False \<rparr>"

definition loop_leave :: "reactor \<Rightarrow> reactor" where
  "loop_leave r = r\<lparr>m_is_looping := False\<rparr>"

text \<open>\<^verbatim>\<open>do_queueing_tasks\<close>: the swap gives the tasks to run.\<close>

definition take_tasks :: "reactor \<Rightarrow> task list \<times> reactor" where
  "take_tasks r = (m_pending_tasks r, r\<lparr> m_is_calling_pending_tasks := True, m_pending_tasks := [] \<rparr>)"

definition end_tasks :: "reactor \<Rightarrow> reactor" where
  "end_tasks r = r\<lparr>m_is_calling_pending_tasks := False\<rparr>"

text \<open>Channels: \<open>owner\<close> tells whether the channel belongs to this reactor, the poller's part is an argument.\<close>

definition reactor_update_channel :: "int \<Rightarrow> bool \<Rightarrow> reactor \<Rightarrow> 'p res \<Rightarrow> 'p res" where
  "reactor_update_channel tid owner r poller_update =
     massert owner ''channel->m_owner_reactor() == this'' (assert_in_reactor_thread tid r poller_update)"

definition reactor_remove_channel :: "int \<Rightarrow> bool \<Rightarrow> chan \<Rightarrow> reactor \<Rightarrow> 'p res \<Rightarrow> 'p res" where
  "reactor_remove_channel tid owner c r poller_remove =
     massert owner ''channel->m_owner_reactor() == this''
       (assert_in_reactor_thread tid r
         (if m_is_handling_event r
          then massert (m_current_active_channel r = Some c \<or> c \<notin> set (m_active_channels r))
                 ''m_current_active_channel == channel || find(m_active_channels, channel) == end'' poller_remove
          else poller_remove))"

definition reactor_has_channel :: "int \<Rightarrow> bool \<Rightarrow> reactor \<Rightarrow> bool \<Rightarrow> bool res" where
  "reactor_has_channel tid owner r poller_has =
     massert owner ''channel->m_owner_reactor() == this'' (assert_in_reactor_thread tid r (Inr poller_has))"

text \<open>Timers.\<close>

definition run_at ::
    "((addr \<rightharpoonup> timer) \<Rightarrow> addr option) \<Rightarrow> bool \<Rightarrow> timestamp \<Rightarrow> timestamp \<Rightarrow> timer_queue \<Rightarrow> (active_timer \<times> timer_queue) res" where
  "run_at alloc in_thread now time q = add_timer alloc in_thread now time 0 q"

definition run_after ::
    "(real \<Rightarrow> int) \<Rightarrow> ((addr \<rightharpoonup> timer) \<Rightarrow> addr option) \<Rightarrow> bool \<Rightarrow> timestamp \<Rightarrow> real \<Rightarrow> timer_queue \<Rightarrow> (active_timer \<times> timer_queue) res" where
  "run_after to_micros alloc in_thread now delay q = run_at alloc in_thread now (add_second to_micros now delay) q"

definition run_every ::
    "(real \<Rightarrow> int) \<Rightarrow> ((addr \<rightharpoonup> timer) \<Rightarrow> addr option) \<Rightarrow> bool \<Rightarrow> timestamp \<Rightarrow> real \<Rightarrow> timer_queue \<Rightarrow> (active_timer \<times> timer_queue) res" where
  "run_every to_micros alloc in_thread now interval q =
     add_timer alloc in_thread now (add_second to_micros now interval) interval q"

section \<open>The loop among other threads\<close>

text \<open>Beside the reactor: where its thread is, how many threads have pushed a task and not yet written to the
  eventfd, the tasks in the order of their pushes, and the tasks run, in order.\<close>

record rsys =
  sys_r :: reactor
  sys_pc :: pc
  sys_waking :: nat
  sys_submitted :: "task list"
  sys_done :: "task list"

inductive rstep :: "rsys \<Rightarrow> rsys \<Rightarrow> bool" where
  enter: "sys_pc s = Outside \<Longrightarrow> loop_enter (m_tid (sys_r s)) (sys_r s) = Inr r \<Longrightarrow>
    rstep s (s\<lparr> sys_r := r, sys_pc := Polling \<rparr>)"
| poll: "sys_pc s = Polling \<Longrightarrow> (m_wakeup_channel (sys_r s) \<in> set active \<longleftrightarrow> 0 < wakeup_count (sys_r s)) \<Longrightarrow>
    rstep s (s\<lparr> sys_r := poll_returned now active (sys_r s), sys_pc := Handling active \<rparr>)"
| handle: "sys_pc s = Handling (c # cs) \<Longrightarrow>
    rstep s (s\<lparr> sys_r := (if c = m_wakeup_channel (sys_r s) then handle_wakeup (begin_handle c (sys_r s)) else begin_handle c (sys_r s)),
                sys_pc := Handling cs \<rparr>)"
| drain: "sys_pc s = Handling [] \<Longrightarrow> take_tasks (end_handling (sys_r s)) = (ts, r) \<Longrightarrow>
    rstep s (s\<lparr> sys_r := r, sys_pc := Draining ts \<rparr>)"
| run: "sys_pc s = Draining (t # ts) \<Longrightarrow>
    rstep s (s\<lparr> sys_pc := Draining ts, sys_done := sys_done s @ [t] \<rparr>)"
| again: "sys_pc s = Draining [] \<Longrightarrow> \<not> m_going_to_quit (sys_r s) \<Longrightarrow>
    rstep s (s\<lparr> sys_r := end_tasks (sys_r s), sys_pc := Polling \<rparr>)"
| leave: "sys_pc s = Draining [] \<Longrightarrow> m_going_to_quit (sys_r s) \<Longrightarrow>
    rstep s (s\<lparr> sys_r := loop_leave (end_tasks (sys_r s)), sys_pc := Outside \<rparr>)"
| own_queue: "sys_pc s = Handling cs \<or> sys_pc s = Draining ts \<Longrightarrow>
    rstep s (s\<lparr> sys_r := queue_in_reactor (m_tid (sys_r s)) t (sys_r s), sys_submitted := sys_submitted s @ [t] \<rparr>)"
| own_quit: "rstep s (s\<lparr>sys_r := mark_quit (m_tid (sys_r s)) (sys_r s)\<rparr>)"
| other_push: "rstep s (s\<lparr> sys_r := push_task t (sys_r s), sys_waking := sys_waking s + 1, sys_submitted := sys_submitted s @ [t] \<rparr>)"
| other_wake: "0 < sys_waking s \<Longrightarrow>
    rstep s (s\<lparr> sys_r := wakeup_from_waiting_pool (sys_r s), sys_waking := sys_waking s - 1 \<rparr>)"
| other_quit: "tid \<noteq> m_tid (sys_r s) \<Longrightarrow> rstep s (s\<lparr>sys_r := mark_quit tid (sys_r s)\<rparr>)"

lemmas reactor_defs = loop_enter_def poll_returned_def begin_handle_def end_handling_def handle_wakeup_def take_tasks_def
  end_tasks_def loop_leave_def queue_in_reactor_def push_task_def wakeup_from_waiting_pool_def mark_quit_def
  is_in_reactor_thread_def assert_in_reactor_thread_def

definition sys_init :: "reactor \<Rightarrow> rsys" where
  "sys_init r = \<lparr> sys_r = r, sys_pc = Outside, sys_waking = 0, sys_submitted = [], sys_done = [] \<rparr>"

fun draining :: "pc \<Rightarrow> task list" where
  "draining (Draining ts) = ts"
| "draining _ = []"

definition rinv :: "rsys \<Rightarrow> bool" where
  "rinv s \<longleftrightarrow>
     sys_submitted s = sys_done s @ draining (sys_pc s) @ m_pending_tasks (sys_r s) \<and>
     m_is_looping (sys_r s) = (sys_pc s \<noteq> Outside) \<and>
     m_is_handling_event (sys_r s) = (\<exists>cs. sys_pc s = Handling cs) \<and>
     m_is_calling_pending_tasks (sys_r s) = (\<exists>ts. sys_pc s = Draining ts) \<and>
     (\<forall>cs. sys_pc s = Handling cs \<longrightarrow> set cs \<subseteq> set (m_active_channels (sys_r s))) \<and>
     ((\<forall>cs. sys_pc s \<noteq> Handling cs) \<longrightarrow> m_pending_tasks (sys_r s) \<noteq> [] \<longrightarrow> 0 < wakeup_count (sys_r s) + sys_waking s)"

lemma rinv_step: "rstep s s' \<Longrightarrow> rinv s \<Longrightarrow> rinv s'"
  by (induction rule: rstep.induct) (auto simp: rinv_def reactor_defs Let_def massert_def split: if_splits)

lemma rinv_init: "Reactor_init tid timeout w existing ok = Inr r \<Longrightarrow> rinv (sys_init r)"
  by (auto simp: Reactor_init_def rinv_def sys_init_def mfatal_def split: if_splits)

lemma rinv_reachable:
  assumes "Reactor_init tid timeout w existing ok = Inr r" and "rstep\<^sup>*\<^sup>* (sys_init r) s"
  shows "rinv s"
  using rtranclp_invariant [of rstep "sys_init r" s rinv] assms(2) rinv_init [OF assms(1)] rinv_step by blast

section \<open>Properties\<close>


definition test_reactor :: reactor where
  "test_reactor = \<lparr> m_is_looping = False, m_going_to_quit = False, m_is_handling_event = False,
                 m_is_calling_pending_tasks = False, m_iter_count = 0, m_tid = 7, m_timeout_ms = kPollTimeMs,
                 m_poll_return_time = ts_invalid, m_wakeup_channel = 3, m_active_channels = [],
                 m_current_active_channel = None, m_pending_tasks = [], wakeup_count = 0 \<rparr>"

lemma test_reactor_init: "Reactor_init 7 kPollTimeMs 3 False True = Inr test_reactor"
  by (simp add: Reactor_init_def test_reactor_def)

lemma test_reactor_run:
  "rstep\<^sup>*\<^sup>* (sys_init test_reactor)
     ((sys_init test_reactor)\<lparr> sys_r := push_task 42 (test_reactor\<lparr> m_is_looping := True \<rparr>), sys_pc := Polling,
        sys_waking := 1, sys_submitted := [42] \<rparr>)"
proof -
  let ?s = "sys_init test_reactor"
  let ?s1 = "?s\<lparr> sys_r := test_reactor\<lparr> m_is_looping := True \<rparr>, sys_pc := Polling \<rparr>"
  have "loop_enter (m_tid (sys_r ?s)) (sys_r ?s) = Inr (test_reactor\<lparr> m_is_looping := True \<rparr>)"
    by (simp add: loop_enter_def sys_init_def test_reactor_def assert_in_reactor_thread_def is_in_reactor_thread_def)
  then have "rstep ?s ?s1" by (intro rstep.enter) (simp_all add: sys_init_def)
  moreover have "rstep ?s1 (?s1\<lparr> sys_r := push_task 42 (sys_r ?s1), sys_waking := sys_waking ?s1 + 1,
      sys_submitted := sys_submitted ?s1 @ [42] \<rparr>)"
    by (rule rstep.other_push)
  ultimately show ?thesis
    by (intro rtranclp.rtrancl_into_rtrancl [OF r_into_rtranclp]) (simp_all add: sys_init_def)
qed


lemma run_tasks:
  "sys_pc s = Draining (ts @ us) \<Longrightarrow>
   rstep\<^sup>*\<^sup>* s (s\<lparr> sys_pc := Draining us, sys_done := sys_done s @ ts \<rparr>)"
proof (induction ts arbitrary: s)
  case Nil
  then have "s\<lparr> sys_pc := Draining us, sys_done := sys_done s @ [] \<rparr> = s" by (intro rsys.equality) simp_all
  then show ?case by simp
next
  case (Cons t ts)
  let ?s = "s\<lparr> sys_pc := Draining (ts @ us), sys_done := sys_done s @ [t] \<rparr>"
  have "rstep s ?s" using Cons.prems by (intro rstep.run) simp
  moreover have "rstep\<^sup>*\<^sup>* ?s (?s\<lparr> sys_pc := Draining us, sys_done := sys_done ?s @ ts \<rparr>)" by (rule Cons.IH) simp
  ultimately show ?case by (simp add: converse_rtranclp_into_rtranclp)
qed



end
