(* ===== verification/ZeroCopier.thy ===== *)
theory ZeroCopier
  imports Flute_Prelude
begin

text \<open>
  ZeroCopier.h and ZeroCopier.cc: sending a file chunk by chunk, with \<^verbatim>\<open>sendfile\<close>, with \<^verbatim>\<open>mmap\<close> and \<^verbatim>\<open>send\<close>, or
  with \<^verbatim>\<open>read\<close> and \<^verbatim>\<open>write\<close>. The open file is its contents together with the position \<^verbatim>\<open>read\<close> works at; the
  bytes that reach the target are part of the result. What the system calls return is the record \<open>zc_io\<close>;
  \<open>zc_io_ok\<close> is their documented behaviour. The static members are a record of their own.
\<close>

datatype copy_mode = kZeroCopy | kMMap | kReadWrite

definition kMaxTrial :: int where "kMaxTrial = 100"

record zc_globals =
  g_chunk_size :: nat
  g_copy_mode :: copy_mode
  g_rw_buffer :: "nat option"   \<comment> \<open>the size of the static buffer, once it is allocated\<close>

definition zc_globals_init :: zc_globals where
  "zc_globals_init = \<lparr> g_chunk_size = 1024, g_copy_mode = kZeroCopy, g_rw_buffer = None \<rparr>"

record zero_copier =
  zc_source_path :: string
  zc_source :: "char list"
  zc_read_pos :: nat
  zc_target_fd :: int
  zc_failure_counter :: int
  zc_source_available :: bool
  zc_total_bytes :: nat
  zc_offset :: nat
  zc_started :: bool

text \<open>The constructor: \<open>opened\<close> is the file, when both \<^verbatim>\<open>open\<close> and \<^verbatim>\<open>fstat64\<close> succeed. Otherwise the remaining members
  keep whatever the memory holds, \<open>junk\<close>.\<close>

definition ZeroCopier_init :: "zero_copier \<Rightarrow> string \<Rightarrow> char list option \<Rightarrow> zero_copier" where
  "ZeroCopier_init junk path opened =
     (case opened of
        None \<Rightarrow> junk\<lparr> zc_source_path := [], zc_failure_counter := 0, zc_started := False, zc_source_available := False \<rparr>
      | Some source \<Rightarrow>
          \<lparr> zc_source_path = path, zc_source = source, zc_read_pos = 0, zc_target_fd = - 1, zc_failure_counter = 0,
            zc_source_available = True, zc_total_bytes = length source, zc_offset = 0, zc_started = False \<rparr>)"

definition zc_is_valid :: "zero_copier \<Rightarrow> bool" where
  "zc_is_valid z \<longleftrightarrow> zc_source_available z \<and> zc_target_fd z \<noteq> - 1"

definition zc_has_finished :: "zero_copier \<Rightarrow> bool" where
  "zc_has_finished z = (if \<not> zc_is_valid z then True else if \<not> zc_started z then True else zc_offset z = zc_total_bytes z)"

definition zc_remaining_bytes :: "zero_copier \<Rightarrow> int" where
  "zc_remaining_bytes z = int (zc_total_bytes z) - int (zc_offset z)"

definition zc_set_target_fd :: "int \<Rightarrow> zero_copier \<Rightarrow> zero_copier" where
  "zc_set_target_fd fd z = z\<lparr>zc_target_fd := fd\<rparr>"

definition zc_start :: "zero_copier \<Rightarrow> zero_copier" where
  "zc_start z = z\<lparr>zc_started := True\<rparr>"

definition zc_mark_abort :: "zero_copier \<Rightarrow> zero_copier" where
  "zc_mark_abort z = z\<lparr> zc_total_bytes := 0, zc_offset := 0 \<rparr>"

definition zc_to_abort :: "zero_copier \<Rightarrow> bool" where
  "zc_to_abort z \<longleftrightarrow> zc_total_bytes z = 0 \<and> zc_offset z = 0"

definition copymode_to_string :: "copy_mode \<Rightarrow> string" where
  "copymode_to_string m = (case m of kZeroCopy \<Rightarrow> ''ZeroCopy'' | kMMap \<Rightarrow> ''MMap'' | kReadWrite \<Rightarrow> ''ReadWrite'')"

section \<open>One chunk\<close>

record zc_io =
  io_sent :: int         \<comment> \<open>what \<^verbatim>\<open>sendfile\<close>, \<^verbatim>\<open>send\<close> or \<^verbatim>\<open>write\<close> returns\<close>
  io_read :: int         \<comment> \<open>what \<^verbatim>\<open>read\<close> returns\<close>
  io_err :: bool         \<comment> \<open>\<^verbatim>\<open>errno\<close> is set after \<^verbatim>\<open>mmap\<close> or \<^verbatim>\<open>read\<close>\<close>
  io_munmap_err :: bool

type_synonym chunk = "int \<times> char list \<times> zero_copier \<times> zc_globals"

definition send_one_chunk_zerocopy :: "zc_io \<Rightarrow> nat \<Rightarrow> zero_copier \<Rightarrow> zc_globals \<Rightarrow> chunk" where
  "send_one_chunk_zerocopy io bytes_to_send z g =
     (if 0 < io_sent io
      then (io_sent io, take (nat (io_sent io)) (drop (zc_offset z) (zc_source z)),
            z\<lparr>zc_offset := zc_offset z + nat (io_sent io)\<rparr>, g)
      else (io_sent io, [], z, g))"

definition send_one_chunk_mmap :: "zc_io \<Rightarrow> nat \<Rightarrow> zero_copier \<Rightarrow> zc_globals \<Rightarrow> chunk" where
  "send_one_chunk_mmap io bytes_to_send z g =
     (let g = g\<lparr>g_chunk_size := 1 * 1024\<rparr>;
          page_offset = zc_offset z div 4096 * 4096;
          gap = zc_offset z - page_offset
      in if io_err io then (- 1, [], z, g)
         else let start = drop gap (drop page_offset (zc_source z))
              in if 0 < io_sent io
                 then (if io_munmap_err io then - 1 else io_sent io, take (nat (io_sent io)) start,
                       z\<lparr>zc_offset := zc_offset z + nat (io_sent io)\<rparr>, g)
                 else (- 1, [], z, g))"

definition send_one_chunk_rw :: "zc_io \<Rightarrow> nat \<Rightarrow> zero_copier \<Rightarrow> zc_globals \<Rightarrow> chunk res" where
  "send_one_chunk_rw io bytes_to_send z g =
     (let cap = (case g_rw_buffer g of None \<Rightarrow> g_chunk_size g | Some n \<Rightarrow> n);
          g = g\<lparr>g_rw_buffer := Some cap\<rparr>
      in mdefined (bytes_to_send \<le> cap) ''read past the static buffer''
           (if io_err io then Inr (- 1, [], z, g)
            else if io_read io = - 1 then Inr (- 1, [], z, g)
            else let buffer = take (nat (io_read io)) (drop (zc_read_pos z) (zc_source z));
                     z = z\<lparr>zc_read_pos := zc_read_pos z + nat (io_read io)\<rparr>
                 in Inr (io_sent io, take (nat (io_sent io)) buffer,
                         if 0 < io_sent io then z\<lparr>zc_offset := zc_offset z + nat (io_sent io)\<rparr> else z, g)))"

text \<open>The return value is a \<^verbatim>\<open>size_t\<close>: a failure is the largest one.\<close>

definition send_one_chunk :: "zc_io \<Rightarrow> zero_copier \<Rightarrow> zc_globals \<Rightarrow> (64 word \<times> char list \<times> zero_copier \<times> zc_globals) res" where
  "send_one_chunk io z g =
     (if \<not> zc_is_valid z \<or> \<not> zc_started z then Inr (- 1, [], z, g)
      else if zc_remaining_bytes z \<le> 0 then Inr (0, [], z, g)
      else let bytes_to_send = min (g_chunk_size g) (nat (zc_remaining_bytes z))
           in rbind (case g_copy_mode g of
                       kZeroCopy \<Rightarrow> Inr (send_one_chunk_zerocopy io bytes_to_send z g)
                     | kMMap \<Rightarrow> Inr (send_one_chunk_mmap io bytes_to_send z g)
                     | kReadWrite \<Rightarrow> send_one_chunk_rw io bytes_to_send z g)
                (\<lambda>(num_bytes_sent, bytes, z, g).
                   if num_bytes_sent < 0
                   then let z = z\<lparr>zc_failure_counter := zc_failure_counter z + 1\<rparr>
                        in if kMaxTrial \<le> zc_failure_counter z then Inr (- 1, bytes, zc_mark_abort z, g)
                           else Inr (word_of_int num_bytes_sent, bytes, z, g)
                   else Inr (word_of_int num_bytes_sent, bytes, z\<lparr>zc_failure_counter := 0\<rparr>, g)))"

text \<open>The calls transfer at most what they are asked for, and no more than there is.\<close>

definition zc_io_ok :: "zc_io \<Rightarrow> zero_copier \<Rightarrow> zc_globals \<Rightarrow> bool" where
  "zc_io_ok io z g \<longleftrightarrow>
     (let k = min (g_chunk_size g) (nat (zc_remaining_bytes z))
      in if g_copy_mode g = kReadWrite
         then - 1 \<le> io_read io \<and> io_read io = min (int k) (int (length (zc_source z) - zc_read_pos z)) \<and>
              io_sent io \<le> io_read io
         else io_sent io \<le> int k)"

section \<open>Sending the whole file\<close>

fun zc_run :: "zc_io list \<Rightarrow> zero_copier \<Rightarrow> zc_globals \<Rightarrow> (char list \<times> zero_copier \<times> zc_globals) res" where
  "zc_run [] z g = Inr ([], z, g)"
| "zc_run (io # ios) z g =
     rbind (send_one_chunk io z g) (\<lambda>(ret, bytes, z, g).
     rbind (zc_run ios z g) (\<lambda>(rest, z, g). Inr (bytes @ rest, z, g)))"

text \<open>Every call along the run behaves as documented.\<close>

fun zc_run_ok :: "zc_io list \<Rightarrow> zero_copier \<Rightarrow> zc_globals \<Rightarrow> bool" where
  "zc_run_ok [] z g = True"
| "zc_run_ok (io # ios) z g =
     (zc_io_ok io z g \<and> (case send_one_chunk io z g of Inl e \<Rightarrow> True | Inr (ret, bytes, z, g) \<Rightarrow> zc_run_ok ios z g))"

definition zc_inv :: "zero_copier \<Rightarrow> bool" where
  "zc_inv z \<longleftrightarrow> zc_to_abort z \<or> zc_total_bytes z = length (zc_source z) \<and> zc_offset z \<le> zc_total_bytes z"

lemma mmap_start: "drop (n - n div 4096 * 4096) (drop (n div 4096 * 4096) xs) = drop n (xs :: 'a list)"
proof -
  have "n div 4096 * 4096 \<le> n" by simp
  then show ?thesis by (simp add: add.commute)
qed

text \<open>One call in the first two modes: what is emitted continues the file where the offset is.\<close>

lemma send_one_chunk_spec:
  assumes "zc_inv z" and "g_copy_mode g \<noteq> kReadWrite" and "zc_io_ok io z g"
  shows "\<exists>ret bytes z' g'. send_one_chunk io z g = Inr (ret, bytes, z', g') \<and> zc_inv z' \<and>
           g_copy_mode g' = g_copy_mode g \<and> zc_source z' = zc_source z \<and>
           zc_is_valid z' = zc_is_valid z \<and> zc_started z' = zc_started z \<and>
           bytes = take (length bytes) (drop (zc_offset z) (zc_source z)) \<and>
           (zc_to_abort z \<longrightarrow> zc_to_abort z' \<and> bytes = []) \<and>
           (zc_to_abort z' \<or> zc_offset z' = zc_offset z + length bytes \<and> zc_total_bytes z' = zc_total_bytes z)"
proof (cases "zc_is_valid z \<and> zc_started z \<and> 0 < zc_remaining_bytes z")
  case False
  then show ?thesis using assms(1) by (auto simp: send_one_chunk_def)
next
  case True
  have na: "\<not> zc_to_abort z" using True by (auto simp: zc_to_abort_def zc_remaining_bytes_def)
  then have z: "zc_total_bytes z = length (zc_source z)" "zc_offset z \<le> length (zc_source z)"
    using assms(1) by (auto simp: zc_inv_def)
  define k where "k = min (g_chunk_size g) (nat (zc_remaining_bytes z))"
  have sent: "nat (io_sent io) \<le> length (zc_source z) - zc_offset z"
    using assms(2,3) z by (auto simp: zc_io_ok_def zc_remaining_bytes_def Let_def)
  define c where "c = (if g_copy_mode g = kZeroCopy then send_one_chunk_zerocopy io k z g else send_one_chunk_mmap io k z g)"
  obtain n bs z1 g1 where c: "c = (n, bs, z1, g1)" by (cases c)
  have one: "bs = take (length bs) (drop (zc_offset z) (zc_source z))" "zc_offset z1 = zc_offset z + length bs"
      "zc_offset z1 \<le> length (zc_source z)" "zc_source z1 = zc_source z" "zc_total_bytes z1 = zc_total_bytes z"
      "zc_is_valid z1 = zc_is_valid z" "zc_started z1 = zc_started z" "g_copy_mode g1 = g_copy_mode g"
    using c sent z
    by (auto simp: c_def send_one_chunk_zerocopy_def send_one_chunk_mmap_def Let_def mmap_start zc_is_valid_def
        split: if_splits)
  have "send_one_chunk io z g = rbind (Inr c)
                (\<lambda>(num_bytes_sent, bytes, z, g).
                   if num_bytes_sent < 0
                   then let z = z\<lparr>zc_failure_counter := zc_failure_counter z + 1\<rparr>
                        in if kMaxTrial \<le> zc_failure_counter z then Inr (- 1, bytes, zc_mark_abort z, g)
                           else Inr (word_of_int num_bytes_sent, bytes, z, g)
                   else Inr (word_of_int num_bytes_sent, bytes, z\<lparr>zc_failure_counter := 0\<rparr>, g))"
    using True assms(2) unfolding send_one_chunk_def k_def [symmetric] c_def Let_def
    by (cases "g_copy_mode g") auto
  then show ?thesis
    using one z na
    by (auto simp: c zc_inv_def zc_is_valid_def zc_mark_abort_def zc_to_abort_def Let_def)
qed

lemma zc_run_spec:
  assumes "zc_inv z" and "g_copy_mode g \<noteq> kReadWrite" and "zc_run_ok ios z g"
  shows "\<exists>bytes z' g'. zc_run ios z g = Inr (bytes, z', g') \<and> zc_inv z' \<and> zc_source z' = zc_source z \<and>
           zc_is_valid z' = zc_is_valid z \<and> zc_started z' = zc_started z \<and>
           prefix bytes (drop (zc_offset z) (zc_source z)) \<and> (zc_to_abort z \<longrightarrow> zc_to_abort z' \<and> bytes = []) \<and>
           (zc_to_abort z' \<or> zc_offset z' = zc_offset z + length bytes)"
  using assms
proof (induction ios arbitrary: z g)
  case (Cons io ios)
  obtain ret bytes z1 g1 where 1: "send_one_chunk io z g = Inr (ret, bytes, z1, g1)" "zc_inv z1"
      "g_copy_mode g1 = g_copy_mode g" "zc_source z1 = zc_source z" "zc_is_valid z1 = zc_is_valid z" "zc_started z1 = zc_started z"
      "bytes = take (length bytes) (drop (zc_offset z) (zc_source z))" "zc_to_abort z \<longrightarrow> zc_to_abort z1 \<and> bytes = []"
      "zc_to_abort z1 \<or> zc_offset z1 = zc_offset z + length bytes \<and> zc_total_bytes z1 = zc_total_bytes z"
    using send_one_chunk_spec [OF Cons.prems(1,2), of io] Cons.prems(3) unfolding zc_run_ok.simps by blast
  obtain rest z2 g2 where 2: "zc_run ios z1 g1 = Inr (rest, z2, g2)" "zc_inv z2" "zc_source z2 = zc_source z1"
      "zc_is_valid z2 = zc_is_valid z1" "zc_started z2 = zc_started z1"
      "prefix rest (drop (zc_offset z1) (zc_source z1))" "zc_to_abort z1 \<longrightarrow> zc_to_abort z2 \<and> rest = []"
      "zc_to_abort z2 \<or> zc_offset z2 = zc_offset z1 + length rest"
  proof -
    have "g_copy_mode g1 \<noteq> kReadWrite" "zc_run_ok ios z1 g1" using Cons.prems(2,3) 1(1,3) by simp_all
    from Cons.IH [OF 1(2) this] show ?thesis using that by blast
  qed
  have split: "drop (zc_offset z) (zc_source z) = bytes @ drop (zc_offset z + length bytes) (zc_source z)"
    by (subst 1(7)) (metis append_take_drop_id drop_drop add.commute)
  have "prefix (bytes @ rest) (drop (zc_offset z) (zc_source z))"
  proof (cases "zc_to_abort z1")
    case True
    then have "rest = []" using 2(7) by simp
    then show ?thesis using 1(7) by (metis append_Nil2 take_is_prefix)
  next
    case False
    then have "zc_offset z1 = zc_offset z + length bytes" using 1(9) by simp
    then show ?thesis using 2(6) 1(4) unfolding split by simp
  qed
  then show ?case using 1 2 by auto
qed simp

section \<open>Properties\<close>

text \<open>
  C26: In the sendfile and mmap modes the target receives a prefix of the file, whatever the sequence of short
  transfers and failures: no byte is lost, repeated or reordered. If the copier reports that it has
  finished without having given up, the target has received exactly the file.
\<close>

theorem zero_copier_sends_prefix:
  assumes "ZeroCopier_init junk path (Some source) = z" and "g_copy_mode g \<noteq> kReadWrite" and "fd \<noteq> - 1"
    and "zc_run_ok ios (zc_start (zc_set_target_fd fd z)) g"
  shows "\<exists>bytes z' g'. zc_run ios (zc_start (zc_set_target_fd fd z)) g = Inr (bytes, z', g') \<and> prefix bytes source \<and>
           (zc_has_finished z' \<and> \<not> zc_to_abort z' \<longrightarrow> bytes = source)"
proof -
  let ?z = "zc_start (zc_set_target_fd fd z)"
  have z: "zc_inv ?z" "zc_offset ?z = 0" "zc_source ?z = source" "zc_is_valid ?z" "zc_started ?z"
    using assms(1,3)
    by (auto simp: ZeroCopier_init_def zc_inv_def zc_start_def zc_set_target_fd_def zc_is_valid_def)
  obtain bytes z' g' where r: "zc_run ios ?z g = Inr (bytes, z', g')" "zc_inv z'" "zc_source z' = source"
      "zc_is_valid z'" "zc_started z'" "prefix bytes source" "zc_to_abort z' \<or> zc_offset z' = length bytes"
    using zc_run_spec [OF z(1) assms(2,4)] z by auto
  have "bytes = source" if "zc_has_finished z'" "\<not> zc_to_abort z'"
  proof -
    have "length bytes = length source" using that r by (auto simp: zc_has_finished_def zc_inv_def split: if_splits)
    then show ?thesis using r(6) by (metis prefixE append_Nil2 append_eq_conv_conj take_all_iff order_refl)
  qed
  then show ?thesis using r by blast
qed

lemmas zc_eval = ZeroCopier_init_def zc_start_def zc_set_target_fd_def zc_io_ok_def zc_is_valid_def zc_remaining_bytes_def
  send_one_chunk_def send_one_chunk_zerocopy_def send_one_chunk_mmap_def send_one_chunk_rw_def zc_has_finished_def
  zc_to_abort_def zc_mark_abort_def zc_globals_init_def kMaxTrial_def Let_def

definition io_sends :: "int \<Rightarrow> zc_io" where
  "io_sends n = \<lparr> io_sent = n, io_read = 0, io_err = False, io_munmap_err = False \<rparr>"

theorem zero_copier_sends_prefix_witness:
  "\<exists>bytes z' g'. zc_run [io_sends 2, io_sends (- 1), io_sends 1]
      (zc_start (zc_set_target_fd 5 (ZeroCopier_init undefined ''f'' (Some ''abc'')))) zc_globals_init = Inr (bytes, z', g') \<and>
    zc_has_finished z' \<and> \<not> zc_to_abort z' \<and> bytes = ''abc''"
proof -
  let ?z = "ZeroCopier_init undefined ''f'' (Some ''abc'')" and ?ios = "[io_sends 2, io_sends (- 1), io_sends 1]"
  have "zc_run_ok ?ios (zc_start (zc_set_target_fd 5 ?z)) zc_globals_init"
    by (simp add: zc_eval io_sends_def)
  with zero_copier_sends_prefix [OF refl, of zc_globals_init 5 ?ios undefined "''f''" "''abc''"]
  obtain bytes z' g' where r: "zc_run ?ios (zc_start (zc_set_target_fd 5 ?z)) zc_globals_init = Inr (bytes, z', g')"
      "zc_has_finished z' \<and> \<not> zc_to_abort z' \<longrightarrow> bytes = ''abc''"
    by (auto simp: zc_globals_init_def)
  from r(1) have "zc_has_finished z' \<and> \<not> zc_to_abort z'" by (auto simp: zc_eval io_sends_def)
  then show ?thesis using r by blast
qed

text \<open>How many calls are left at most: each sends a byte and clears the failures, or adds a failure.\<close>

definition zc_fuel :: "zero_copier \<Rightarrow> nat" where
  "zc_fuel z = nat (100 * zc_remaining_bytes z - zc_failure_counter z)"

lemma zc_progress:
  assumes "zc_inv z" and "zc_is_valid z" "zc_started z" and "0 \<le> zc_failure_counter z" "zc_failure_counter z < 100"
    and "\<not> zc_has_finished z" and "g_copy_mode g = kZeroCopy" and "zc_io_ok io z g" and "io_sent io \<noteq> 0"
  shows "\<exists>ret bytes z'. send_one_chunk io z g = Inr (ret, bytes, z', g) \<and> zc_inv z' \<and> zc_is_valid z' \<and> zc_started z' \<and>
           (zc_has_finished z' \<or>
            0 \<le> zc_failure_counter z' \<and> zc_failure_counter z' < 100 \<and> zc_fuel z' < zc_fuel z)"
proof -
  have z: "zc_total_bytes z = length (zc_source z)" "zc_offset z < length (zc_source z)"
    using assms(1-3,6) by (auto simp: zc_inv_def zc_has_finished_def zc_to_abort_def)
  have sent: "io_sent io \<le> int (length (zc_source z)) - int (zc_offset z)"
    using assms(7,8) z by (auto simp: zc_io_ok_def zc_remaining_bytes_def Let_def)
  show ?thesis
  proof (cases "0 < io_sent io")
    case True
    let ?z = "z\<lparr> zc_offset := zc_offset z + nat (io_sent io), zc_failure_counter := 0 \<rparr>"
    have "\<exists>ret bytes. send_one_chunk io z g = Inr (ret, bytes, ?z, g)"
      using True z assms(2,3,7)
      by (auto simp: send_one_chunk_def send_one_chunk_zerocopy_def zc_remaining_bytes_def Let_def)
    moreover have "zc_fuel ?z < zc_fuel z"
      using True sent z assms(4,5) by (simp add: zc_fuel_def zc_remaining_bytes_def)
    moreover have "zc_inv ?z" "zc_is_valid ?z" "zc_started ?z"
      using sent z assms(2,3) by (auto simp: zc_inv_def zc_is_valid_def)
    ultimately show ?thesis by fastforce
  next
    case False
    let ?z = "z\<lparr> zc_failure_counter := zc_failure_counter z + 1 \<rparr>"
    have s: "send_one_chunk io z g =
        (if 100 \<le> zc_failure_counter z + 1 then Inr (- 1, [], zc_mark_abort ?z, g) else Inr (word_of_int (io_sent io), [], ?z, g))"
      using False assms(9) z assms(2,3,7)
      by (simp add: send_one_chunk_def send_one_chunk_zerocopy_def zc_remaining_bytes_def Let_def kMaxTrial_def)
    have "zc_inv (zc_mark_abort ?z)" "zc_is_valid (zc_mark_abort ?z)" "zc_started (zc_mark_abort ?z)" "zc_has_finished (zc_mark_abort ?z)"
      using assms(2,3) by (auto simp: zc_inv_def zc_is_valid_def zc_mark_abort_def zc_to_abort_def zc_has_finished_def)
    moreover have "zc_inv ?z" "zc_is_valid ?z" "zc_started ?z" "zc_fuel ?z < zc_fuel z"
      using assms(1-5) z by (auto simp: zc_inv_def zc_is_valid_def zc_to_abort_def zc_fuel_def zc_remaining_bytes_def)
    ultimately show ?thesis using s assms(4) by (cases "100 \<le> zc_failure_counter z + 1") auto
  qed
qed

lemma zc_finished_stays:
  assumes "zc_has_finished z" and "zc_inv z" and "zc_is_valid z" "zc_started z"
  shows "send_one_chunk io z g = Inr (0, [], z, g)"
  using assms by (auto simp: send_one_chunk_def zc_has_finished_def zc_remaining_bytes_def)

lemma zc_run_finished:
  assumes "zc_has_finished z" and "zc_inv z" and "zc_is_valid z" "zc_started z"
  shows "zc_run ios z g = Inr ([], z, g)"
  using assms by (induction ios) (simp_all add: zc_finished_stays)

lemma zc_run_finishes:
  assumes "zc_inv z" and "zc_is_valid z" "zc_started z" and "0 \<le> zc_failure_counter z" "zc_failure_counter z < 100"
    and "g_copy_mode g = kZeroCopy" and "zc_run_ok ios z g" and "\<forall>io \<in> set ios. io_sent io \<noteq> 0" and "zc_fuel z \<le> length ios"
  shows "\<exists>bytes z'. zc_run ios z g = Inr (bytes, z', g) \<and> zc_has_finished z'"
  using assms
proof (induction ios arbitrary: z)
  case Nil
  then have "zc_remaining_bytes z \<le> 0" by (auto simp: zc_fuel_def)
  then show ?case using Nil.prems(1-3) by (auto simp: zc_inv_def zc_to_abort_def zc_remaining_bytes_def zc_has_finished_def)
next
  case (Cons io ios)
  show ?case
  proof (cases "zc_has_finished z")
    case True
    then show ?thesis using zc_run_finished [of z "io # ios" g] Cons.prems(1-3) by blast
  next
    case False
    then obtain ret bytes z1 where 1: "send_one_chunk io z g = Inr (ret, bytes, z1, g)" "zc_inv z1" "zc_is_valid z1" "zc_started z1"
        "zc_has_finished z1 \<or> 0 \<le> zc_failure_counter z1 \<and> zc_failure_counter z1 < 100 \<and> zc_fuel z1 < zc_fuel z"
      using zc_progress [of z g io] Cons.prems by auto
    have ok: "zc_run_ok ios z1 g" using Cons.prems(7) 1(1) by simp
    have "\<exists>bytes z'. zc_run ios z1 g = Inr (bytes, z', g) \<and> zc_has_finished z'"
    proof (cases "zc_has_finished z1")
      case True
      then show ?thesis using zc_run_finished [of z1 ios g] 1(2-4) by blast
    next
      case False
      then have "0 \<le> zc_failure_counter z1" "zc_failure_counter z1 < 100" "zc_fuel z1 \<le> length ios"
        using 1(5) Cons.prems(9) by auto
      with Cons.IH [OF 1(2-4) _ _ Cons.prems(6) ok] Cons.prems(8) show ?thesis by simp
    qed
    then show ?thesis using 1(1) by auto
  qed
qed


lemma zc_run_ok_fail:
  "g_copy_mode g = kZeroCopy \<Longrightarrow> zc_run_ok (replicate n (io_sends (- 1))) z g"
proof (induction n arbitrary: z)
  case (Suc n)
  have "zc_io_ok (io_sends (- 1)) z g" using Suc.prems by (simp add: zc_io_ok_def io_sends_def Let_def)
  moreover have "\<exists>ret z'. send_one_chunk (io_sends (- 1)) z g = Inr (ret, [], z', g)"
    using Suc.prems by (simp add: send_one_chunk_def send_one_chunk_zerocopy_def io_sends_def Let_def)
  then obtain ret z' where "send_one_chunk (io_sends (- 1)) z g = Inr (ret, [], z', g)" by blast
  ultimately show ?case using Suc by simp
qed simp


text \<open>
  The read and write mode loses bytes. After a short \<^verbatim>\<open>write\<close> the bytes that were read but not written are
  skipped, because the file position has moved past them; the offset then never reaches the size of
  the file, and with the file position at the end every further call transfers nothing and leaves the
  copier unfinished, however often it is called.
\<close>

theorem zero_copier_rw_loses_bytes:
  assumes "g_copy_mode g = kReadWrite" and "zc_is_valid z" "zc_started z" and "zc_offset z < zc_total_bytes z"
    and "length (zc_source z) \<le> zc_read_pos z" and "zc_run_ok ios z g"
    and "\<forall>io \<in> set ios. \<not> io_err io \<and> 0 \<le> io_sent io"
    and "g_rw_buffer g = Some cap" and "g_chunk_size g \<le> cap"
  shows "\<exists>z'. zc_run ios z g = Inr ([], z', g) \<and> \<not> zc_has_finished z'"
  using assms
proof (induction ios arbitrary: z)
  case Nil
  then show ?case by (simp add: zc_has_finished_def)
next
  case (Cons io ios)
  have io: "io_read io = 0" "io_sent io = 0" "\<not> io_err io"
    using Cons.prems(1,5,6,7) by (auto simp: zc_io_ok_def Let_def)
  let ?z = "z\<lparr>zc_failure_counter := 0\<rparr>"
  have g: "g\<lparr>g_rw_buffer := Some cap\<rparr> = g" using Cons.prems(8) by (intro zc_globals.equality) simp_all
  have zr: "z\<lparr>zc_read_pos := zc_read_pos z + 0\<rparr> = z" by (intro zero_copier.equality) simp_all
  have step: "send_one_chunk io z g = Inr (0, [], ?z, g)"
    using Cons.prems(1-4,8,9) io g zr
    by (simp add: send_one_chunk_def send_one_chunk_rw_def zc_remaining_bytes_def Let_def min_def)
  have "\<exists>z'. zc_run ios ?z g = Inr ([], z', g) \<and> \<not> zc_has_finished z'"
    by (rule Cons.IH) (use Cons.prems step in \<open>simp_all add: zc_is_valid_def\<close>)
  then show ?case using step by auto
qed

theorem zero_copier_rw_loses_bytes_witness:
  "\<exists>z z'. zc_run [\<lparr> io_sent = 2, io_read = 4, io_err = False, io_munmap_err = False \<rparr>]
        (zc_start (zc_set_target_fd 5 (ZeroCopier_init undefined ''f'' (Some ''abcd''))))
        (zc_globals_init\<lparr>g_copy_mode := kReadWrite\<rparr>) =
        Inr (''ab'', z, zc_globals_init\<lparr> g_copy_mode := kReadWrite, g_rw_buffer := Some 1024 \<rparr>) \<and>
     zc_run [io_sends 0, io_sends 0] z (zc_globals_init\<lparr> g_copy_mode := kReadWrite, g_rw_buffer := Some 1024 \<rparr>) =
        Inr ([], z', zc_globals_init\<lparr> g_copy_mode := kReadWrite, g_rw_buffer := Some 1024 \<rparr>) \<and> \<not> zc_has_finished z'"
proof -
  let ?g = "zc_globals_init\<lparr> g_copy_mode := kReadWrite, g_rw_buffer := Some 1024 \<rparr>"
  define z where "z = \<lparr> zc_source_path = ''f'', zc_source = ''abcd'', zc_read_pos = 4, zc_target_fd = 5, zc_failure_counter = 0,
     zc_source_available = True, zc_total_bytes = 4, zc_offset = 2, zc_started = True \<rparr>"
  have "zc_run [\<lparr> io_sent = 2, io_read = 4, io_err = False, io_munmap_err = False \<rparr>]
        (zc_start (zc_set_target_fd 5 (ZeroCopier_init undefined ''f'' (Some ''abcd''))))
        (zc_globals_init\<lparr>g_copy_mode := kReadWrite\<rparr>) = Inr (''ab'', z, ?g)"
    by (simp add: zc_eval z_def)
  moreover have "zc_run_ok [io_sends 0, io_sends 0] z ?g" by (simp add: zc_eval z_def io_sends_def)
  with zero_copier_rw_loses_bytes [of ?g z "[io_sends 0, io_sends 0]" 1024]
  have "\<exists>z'. zc_run [io_sends 0, io_sends 0] z ?g = Inr ([], z', ?g) \<and> \<not> zc_has_finished z'"
    by (simp add: z_def zc_is_valid_def io_sends_def zc_globals_init_def)
  ultimately show ?thesis by blast
qed

end
