(* ===== verification/TcpConnection.thy ===== *)
theory TcpConnection
  imports Buffer Channel ZeroCopier Reactor
begin

text \<open>
  TcpConnection.h and TcpConnection.cc: one connection, its channel, its buffers and the file it may be
  sending. An operation returns the new connection and the list of what it does to the outside, in
  order: callbacks of the user, functors handed to the reactor, bytes that reach the socket, the
  half-close. Operations called from another thread hand a functor to the reactor, \<open>Queue_task\<close>, whose
  later execution is \<open>conn_task_run\<close>. The results of \<^verbatim>\<open>readv\<close>, of \<^verbatim>\<open>write\<close> (from the number of bytes offered) and
  of the calls behind the zero copier are arguments. \<open>Accepted\<close>, \<open>File_started\<close> and \<open>File_finished\<close> record
  what the code does to its own members, for the statements about the byte stream.
\<close>

section \<open>State\<close>

datatype conn_state = kDisconnected | kConnecting | kConnected | kDisconnecting
datatype sending_state = kSendingBuffer | kSendingFile | kNotSending | kSendingFinished

record tcp_conn =
  m_name :: string
  m_conn_state :: conn_state
  m_sending_state :: sending_state
  m_is_reading :: bool
  m_channel :: channel
  m_write_complete_callback :: bool    \<comment> \<open>whether it is set; likewise below\<close>
  m_high_watermark_callback :: bool
  m_highwater_mark :: nat
  m_input_buffer :: buffer
  m_output_buffer :: buffer
  m_zero_copier_ptr :: "zero_copier option"
  conn_zc_globals :: zc_globals        \<comment> \<open>the static members of the zero copier\<close>

datatype conn_task =
    Send_in_reactor "char list"
  | Shutdown_in_reactor
  | Shutdown_and_force_close_in_reactor_after real
  | Force_close_in_reactor
  | Force_close
  | Start_read_in_reactor
  | Stop_read_in_reactor

datatype conn_event =
    Conn_callback conn_state
  | Message_callback
  | Close_callback
  | Queue_write_complete
  | Queue_high_watermark nat
  | Accepted "char list"        \<comment> \<open>bytes appended to the output buffer\<close>
  | Write_bytes "char list"     \<comment> \<open>bytes of the output buffer the socket took\<close>
  | File_started                \<comment> \<open>a zero copier was installed\<close>
  | File_bytes "char list"      \<comment> \<open>bytes of the file the socket took\<close>
  | File_finished               \<comment> \<open>the zero copier was released\<close>
  | Shutdown_write
  | Queue_task conn_task
  | Run_after real conn_task

type_synonym conn_result = "(tcp_conn \<times> conn_event list) res"

definition cbind :: "conn_result \<Rightarrow> (tcp_conn \<Rightarrow> conn_result) \<Rightarrow> conn_result" where
  "cbind m f = rbind m (\<lambda>(c, evs). rbind (f c) (\<lambda>(c', evs'). Inr (c', evs @ evs')))"

text \<open>A change of the channel's interest, which the reactor passes to the poller.\<close>

definition conn_request :: "interest \<Rightarrow> tcp_conn \<Rightarrow> tcp_conn" where
  "conn_request r c = c\<lparr>m_channel := channel_request r (m_channel c)\<rparr>"

definition set_state :: "conn_state \<Rightarrow> tcp_conn \<Rightarrow> tcp_conn" where
  "set_state s c = c\<lparr>m_conn_state := s\<rparr>"

definition TcpConnection_init :: "string \<Rightarrow> int \<Rightarrow> bool \<Rightarrow> bool \<Rightarrow> zc_globals \<Rightarrow> tcp_conn" where
  "TcpConnection_init name sockfd write_complete high_watermark g =
     \<lparr> m_name = name, m_conn_state = kConnecting, m_sending_state = kNotSending, m_is_reading = True,
       m_channel = (Channel_init sockfd)\<lparr> m_read_callback := True, m_write_callback := True, m_close_callback := True,
                                         m_error_callback := True \<rparr>,
       m_write_complete_callback = write_complete, m_high_watermark_callback = high_watermark,
       m_highwater_mark = 64 * 1024 * 1024, m_input_buffer = Buffer_init kInitialSize,
       m_output_buffer = Buffer_init kInitialSize, m_zero_copier_ptr = None, conn_zc_globals = g \<rparr>"

definition TcpConnection_destroy :: "tcp_conn \<Rightarrow> unit res" where
  "TcpConnection_destroy c = massert (m_conn_state c = kDisconnected) ''m_conn_state == kDisconnected'' (Inr ())"

definition conn_connected :: "tcp_conn \<Rightarrow> bool" where
  "conn_connected c \<longleftrightarrow> m_conn_state c = kConnected"

definition conn_disconnected :: "tcp_conn \<Rightarrow> bool" where
  "conn_disconnected c \<longleftrightarrow> m_conn_state c = kDisconnected"

fun state_to_string :: "conn_state \<Rightarrow> string" where
  "state_to_string kConnecting = ''kConnecting''"
| "state_to_string kConnected = ''kConnected''"
| "state_to_string kDisconnecting = ''kDisconnecting''"
| "state_to_string kDisconnected = ''kDisconnected''"

section \<open>Sending\<close>

definition send_bytes_in_reactor :: "bool \<Rightarrow> char list \<Rightarrow> tcp_conn \<Rightarrow> conn_result" where
  "send_bytes_in_reactor in_thread data c =
     in_loop_thread in_thread
       (let remaining_num_bytes = length data
        in if m_conn_state c = kDisconnected then Inr (c, [])
           else massert (remaining_num_bytes \<le> length data) ''remaining_num_bytes <= total_num_bytes''
             (if 0 < remaining_num_bytes
              then let old_len = content_bytes_len (m_output_buffer c);
                       evs = (if m_highwater_mark c \<le> old_len + remaining_num_bytes \<and> old_len < m_highwater_mark c \<and>
                                 m_high_watermark_callback c
                              then [Queue_high_watermark (old_len + remaining_num_bytes)] else [])
                   in rbind (append_bytes data (m_output_buffer c)) (\<lambda>b.
                      let c = c\<lparr>m_output_buffer := b\<rparr>
                      in Inr (if is_writing (m_channel c) then c else conn_request Want_to_write c, evs @ [Accepted data]))
              else Inr (c, [])))"

definition send_in_reactor :: "bool \<Rightarrow> char list \<Rightarrow> tcp_conn \<Rightarrow> conn_result" where
  "send_in_reactor in_thread message c = send_bytes_in_reactor in_thread message c"

definition send_string_piece :: "bool \<Rightarrow> char list \<Rightarrow> tcp_conn \<Rightarrow> conn_result" where
  "send_string_piece in_thread message c =
     (if m_conn_state c = kConnected
      then if in_thread then send_in_reactor in_thread message c else Inr (c, [Queue_task (Send_in_reactor message)])
      else Inr (c, []))"

definition send :: "bool \<Rightarrow> char list \<Rightarrow> int \<Rightarrow> tcp_conn \<Rightarrow> conn_result" where
  "send in_thread data len c =
     mdefined (0 \<le> len \<and> nat len \<le> length data) ''len bytes at data'' (send_string_piece in_thread (take (nat len) data) c)"

definition send_buffer :: "bool \<Rightarrow> buffer \<Rightarrow> tcp_conn \<Rightarrow> (buffer \<times> tcp_conn \<times> conn_event list) res" where
  "send_buffer in_thread buf c =
     (if m_conn_state c = kConnected
      then if in_thread
           then rbind (send_bytes_in_reactor in_thread (contents buf) c) (\<lambda>(c, evs). Inr (retrieve_all buf, c, evs))
           else rbind (readout_all_as_string buf) (\<lambda>(s, buf). Inr (buf, c, [Queue_task (Send_in_reactor s)]))
      else Inr (buf, c, []))"

definition enable_zero_copy :: "zero_copier \<Rightarrow> tcp_conn \<Rightarrow> conn_result" where
  "enable_zero_copy z c =
     Inr (conn_request Want_to_write (c\<lparr>m_zero_copier_ptr := Some (zc_start (zc_set_target_fd (m_fd (m_channel c)) z))\<rparr>),
          [File_started])"

definition set_highwater_mark_callback :: "nat \<Rightarrow> tcp_conn \<Rightarrow> tcp_conn" where
  "set_highwater_mark_callback highWaterMark c = c\<lparr> m_high_watermark_callback := True, m_highwater_mark := highWaterMark \<rparr>"

section \<open>Closing\<close>

definition handle_close :: "bool \<Rightarrow> tcp_conn \<Rightarrow> conn_result" where
  "handle_close in_thread c =
     in_loop_thread in_thread
       (massert (m_conn_state c = kConnected \<or> m_conn_state c = kDisconnecting)
          ''m_conn_state == kConnected || m_conn_state == kDisconnecting''
          (let c = conn_request End_all (set_state kDisconnected c)
           in Inr (c, [Conn_callback (m_conn_state c), Close_callback])))"

definition shutdown_in_reactor :: "bool \<Rightarrow> tcp_conn \<Rightarrow> conn_result" where
  "shutdown_in_reactor in_thread c =
     in_loop_thread in_thread (Inr (c, if is_writing (m_channel c) then [] else [Shutdown_write]))"

definition shutdown :: "bool \<Rightarrow> tcp_conn \<Rightarrow> conn_result" where
  "shutdown in_thread c =
     (if m_conn_state c = kConnected
      then let c = set_state kDisconnecting c
           in if in_thread then shutdown_in_reactor in_thread c else Inr (c, [Queue_task Shutdown_in_reactor])
      else Inr (c, []))"

definition shutdown_and_force_close_in_reactor_after :: "bool \<Rightarrow> real \<Rightarrow> tcp_conn \<Rightarrow> conn_result" where
  "shutdown_and_force_close_in_reactor_after in_thread seconds c =
     in_loop_thread in_thread
       (Inr (c, (if is_writing (m_channel c) then [] else [Shutdown_write]) @ [Run_after seconds Force_close_in_reactor]))"

definition shutdown_and_force_close_after :: "bool \<Rightarrow> real \<Rightarrow> tcp_conn \<Rightarrow> conn_result" where
  "shutdown_and_force_close_after in_thread seconds c =
     (if m_conn_state c = kConnected
      then let c = set_state kDisconnecting c
           in if in_thread then shutdown_and_force_close_in_reactor_after in_thread seconds c
              else Inr (c, [Queue_task (Shutdown_and_force_close_in_reactor_after seconds)])
      else Inr (c, []))"

definition force_close :: "tcp_conn \<Rightarrow> conn_result" where
  "force_close c =
     (if m_conn_state c = kConnected \<or> m_conn_state c = kDisconnecting
      then Inr (set_state kDisconnecting c, [Queue_task Force_close_in_reactor]) else Inr (c, []))"

definition force_close_with_delay :: "real \<Rightarrow> tcp_conn \<Rightarrow> conn_result" where
  "force_close_with_delay seconds c =
     (if m_conn_state c = kConnected \<or> m_conn_state c = kDisconnecting
      then Inr (set_state kDisconnecting c, [Run_after seconds Force_close]) else Inr (c, []))"

definition force_close_in_reactor :: "bool \<Rightarrow> tcp_conn \<Rightarrow> conn_result" where
  "force_close_in_reactor in_thread c =
     in_loop_thread in_thread
       (if m_conn_state c = kConnected \<or> m_conn_state c = kDisconnecting then handle_close in_thread c else Inr (c, []))"

section \<open>Reading\<close>

definition start_read_in_reactor :: "bool \<Rightarrow> tcp_conn \<Rightarrow> conn_result" where
  "start_read_in_reactor in_thread c =
     in_loop_thread in_thread
       (if \<not> m_is_reading c \<or> \<not> is_reading (m_channel c)
        then Inr ((conn_request Wang_to_read c)\<lparr>m_is_reading := True\<rparr>, []) else Inr (c, []))"

definition start_read :: "bool \<Rightarrow> tcp_conn \<Rightarrow> conn_result" where
  "start_read in_thread c =
     (if in_thread then start_read_in_reactor in_thread c else Inr (c, [Queue_task Start_read_in_reactor]))"

definition stop_read_in_reactor :: "bool \<Rightarrow> tcp_conn \<Rightarrow> conn_result" where
  "stop_read_in_reactor in_thread c =
     in_loop_thread in_thread
       (if m_is_reading c \<or> is_reading (m_channel c)
        then Inr ((conn_request End_reading c)\<lparr>m_is_reading := False\<rparr>, []) else Inr (c, []))"

definition stop_read :: "bool \<Rightarrow> tcp_conn \<Rightarrow> conn_result" where
  "stop_read in_thread c =
     (if in_thread then stop_read_in_reactor in_thread c else Inr (c, [Queue_task Stop_read_in_reactor]))"

definition connect_established :: "bool \<Rightarrow> tcp_conn \<Rightarrow> conn_result" where
  "connect_established in_thread c =
     in_loop_thread in_thread
       (massert (m_conn_state c = kConnecting) ''m_conn_state == kConnecting''
          (let c = set_state kConnected c;
               c = conn_request Wang_to_read (c\<lparr>m_channel := tie (m_channel c)\<rparr>)
           in Inr (c, [Conn_callback (m_conn_state c)])))"

definition connect_destroyed :: "bool \<Rightarrow> tcp_conn \<Rightarrow> conn_result" where
  "connect_destroyed in_thread c =
     in_loop_thread in_thread
       (let (c, evs) = (if m_conn_state c = kConnected
                        then let c = conn_request End_all (set_state kDisconnected c) in (c, [Conn_callback (m_conn_state c)])
                        else (c, []))
        in massert (is_none_event (m_channel c)) ''is_none_event()''
             (Inr (c\<lparr>m_channel := (m_channel c)\<lparr>m_is_in_reactor := False\<rparr>\<rparr>, evs)))"

text \<open>\<^verbatim>\<open>handle_error\<close> reads \<^verbatim>\<open>SO_ERROR\<close> and logs it.\<close>

definition handle_error :: "tcp_conn \<Rightarrow> conn_result" where
  "handle_error c = Inr (c, [])"

definition handle_socket_readable :: "bool \<Rightarrow> (nat list \<Rightarrow> int + char list) \<Rightarrow> tcp_conn \<Rightarrow> conn_result" where
  "handle_socket_readable in_thread readv c =
     in_loop_thread in_thread
       (rbind (read_all_from readv (m_input_buffer c)) (\<lambda>(n, saved_errno, b).
          let c = c\<lparr>m_input_buffer := b\<rparr>
          in if 0 < n then Inr (c, [Message_callback])
             else if n = 0 then handle_close in_thread c
             else handle_error c))"

section \<open>Writing\<close>

definition write_socket_from_buffer :: "(nat \<Rightarrow> int) \<Rightarrow> tcp_conn \<Rightarrow> conn_result" where
  "write_socket_from_buffer wr c =
     (if content_bytes_len (m_output_buffer c) = 0 then Inr (c, [])
      else let n = wr (content_bytes_len (m_output_buffer c))
      in if n < 0 then Inr (c, [])
      else let bytes = take (nat n) (contents (m_output_buffer c))
           in rbind (retrieve (nat n) (m_output_buffer c)) (\<lambda>b. Inr (c\<lparr>m_output_buffer := b\<rparr>, [Write_bytes bytes])))"

definition transfer_sending_state :: "tcp_conn \<Rightarrow> tcp_conn res" where
  "transfer_sending_state c =
     (case m_sending_state c of
        kNotSending \<Rightarrow>
          Inr (if content_bytes_len (m_output_buffer c) \<noteq> 0 then c\<lparr>m_sending_state := kSendingBuffer\<rparr>
               else case m_zero_copier_ptr c of
                      None \<Rightarrow> c
                    | Some z \<Rightarrow> if zc_has_finished z then c else c\<lparr>m_sending_state := kSendingFile\<rparr>)
      | kSendingBuffer \<Rightarrow>
          Inr (if content_bytes_len (m_output_buffer c) = 0 then c\<lparr>m_sending_state := kNotSending\<rparr> else c)
      | kSendingFile \<Rightarrow>
          (case m_zero_copier_ptr c of
             None \<Rightarrow> Inl (Undefined ''null m_zero_copier_ptr'')
           | Some z \<Rightarrow> Inr (if zc_has_finished z then c\<lparr>m_sending_state := kNotSending\<rparr> else c))
      | kSendingFinished \<Rightarrow> Inr c)"

text \<open>The three parts of \<^verbatim>\<open>handle_socket_writable\<close>.\<close>

definition writable_buffer_part :: "(nat \<Rightarrow> int) \<Rightarrow> tcp_conn \<Rightarrow> conn_result" where
  "writable_buffer_part wr c =
     (if m_sending_state c = kNotSending \<or> m_sending_state c = kSendingBuffer
      then rbind (write_socket_from_buffer wr (c\<lparr>m_sending_state := kSendingBuffer\<rparr>)) (\<lambda>(c, evs).
           rbind (transfer_sending_state c) (\<lambda>c. Inr (c, evs)))
      else Inr (c, []))"

definition writable_file_part :: "zc_io \<Rightarrow> tcp_conn \<Rightarrow> conn_result" where
  "writable_file_part io c =
     (case m_zero_copier_ptr c of
        None \<Rightarrow> Inr (c, [])
      | Some z \<Rightarrow>
          if content_bytes_len (m_output_buffer c) = 0 \<and> (m_sending_state c = kNotSending \<or> m_sending_state c = kSendingFile)
          then rbind (send_one_chunk io z (conn_zc_globals c)) (\<lambda>(ret, bytes, z, g).
               rbind (transfer_sending_state
                        (c\<lparr> m_sending_state := kSendingFile, m_zero_copier_ptr := Some z, conn_zc_globals := g \<rparr>)) (\<lambda>c.
               Inr (if zc_has_finished z then c\<lparr>m_zero_copier_ptr := None\<rparr> else c, File_bytes bytes # (if zc_has_finished z then [File_finished] else []))))
          else Inr (c, []))"

definition writable_finish_part :: "bool \<Rightarrow> tcp_conn \<Rightarrow> conn_result" where
  "writable_finish_part in_thread c =
     (if m_sending_state c = kNotSending
      then let c = conn_request End_writing c; evs = (if m_write_complete_callback c then [Queue_write_complete] else [])
           in if m_conn_state c = kDisconnecting
              then rbind (shutdown_in_reactor in_thread c) (\<lambda>(c, evs'). Inr (c, evs @ evs'))
              else Inr (c, evs)
      else Inr (c, []))"

definition handle_socket_writable :: "bool \<Rightarrow> (nat \<Rightarrow> int) \<Rightarrow> zc_io \<Rightarrow> tcp_conn \<Rightarrow> conn_result" where
  "handle_socket_writable in_thread wr io c =
     in_loop_thread in_thread
       (if is_writing (m_channel c)
        then cbind (writable_buffer_part wr c) (\<lambda>c. cbind (writable_file_part io c) (writable_finish_part in_thread))
        else Inr (c, []))"

section \<open>Events and functors\<close>

text \<open>What the channel's dispatch calls, with the results of the system calls the handlers make.\<close>

fun conn_callback_run :: "(nat list \<Rightarrow> int + char list) \<Rightarrow> (nat \<Rightarrow> int) \<Rightarrow> zc_io \<Rightarrow> callback \<Rightarrow> tcp_conn \<Rightarrow> conn_result" where
  "conn_callback_run readv wr io CloseCb c = handle_close True c"
| "conn_callback_run readv wr io ErrorCb c = handle_error c"
| "conn_callback_run readv wr io (ReadCb t) c = handle_socket_readable True readv c"
| "conn_callback_run readv wr io WriteCb c = handle_socket_writable True wr io c"

fun conn_callbacks_run :: "(nat list \<Rightarrow> int + char list) \<Rightarrow> (nat \<Rightarrow> int) \<Rightarrow> zc_io \<Rightarrow> callback list \<Rightarrow> tcp_conn \<Rightarrow> conn_result" where
  "conn_callbacks_run readv wr io [] c = Inr (c, [])"
| "conn_callbacks_run readv wr io (cb # cbs) c = cbind (conn_callback_run readv wr io cb c) (conn_callbacks_run readv wr io cbs)"

definition conn_handle_event :: "timestamp \<Rightarrow> 32 word \<Rightarrow> (nat list \<Rightarrow> int + char list) \<Rightarrow> (nat \<Rightarrow> int) \<Rightarrow> zc_io \<Rightarrow> tcp_conn \<Rightarrow> conn_result" where
  "conn_handle_event t rv readv wr io c =
     (let c = c\<lparr>m_channel := set_revents rv (m_channel c)\<rparr>
      in conn_callbacks_run readv wr io (handle_event True t (m_channel c)) c)"

fun conn_task_run :: "conn_task \<Rightarrow> tcp_conn \<Rightarrow> conn_result" where
  "conn_task_run (Send_in_reactor s) c = send_in_reactor True s c"
| "conn_task_run Shutdown_in_reactor c = shutdown_in_reactor True c"
| "conn_task_run (Shutdown_and_force_close_in_reactor_after seconds) c = shutdown_and_force_close_in_reactor_after True seconds c"
| "conn_task_run Force_close_in_reactor c = force_close_in_reactor True c"
| "conn_task_run Force_close c = force_close c"
| "conn_task_run Start_read_in_reactor c = start_read_in_reactor True c"
| "conn_task_run Stop_read_in_reactor c = stop_read_in_reactor True c"

text \<open>Everything that can happen to a connection, by the thread it happens in where that matters.\<close>

datatype conn_op =
    Op_established
  | Op_destroyed
  | Op_event timestamp "32 word" "nat list \<Rightarrow> int + char list" "nat \<Rightarrow> int" zc_io
  | Op_task conn_task
  | Op_send bool "char list"
  | Op_shutdown bool
  | Op_shutdown_and_force_close bool real
  | Op_force_close
  | Op_force_close_with_delay real
  | Op_start_read bool
  | Op_stop_read bool
  | Op_zero_copy zero_copier

fun conn_op_run :: "conn_op \<Rightarrow> tcp_conn \<Rightarrow> conn_result" where
  "conn_op_run Op_established c = connect_established True c"
| "conn_op_run Op_destroyed c = connect_destroyed True c"
| "conn_op_run (Op_event t rv readv wr io) c = conn_handle_event t rv readv wr io c"
| "conn_op_run (Op_task k) c = conn_task_run k c"
| "conn_op_run (Op_send in_thread s) c = send_string_piece in_thread s c"
| "conn_op_run (Op_shutdown in_thread) c = shutdown in_thread c"
| "conn_op_run (Op_shutdown_and_force_close in_thread seconds) c = shutdown_and_force_close_after in_thread seconds c"
| "conn_op_run Op_force_close c = force_close c"
| "conn_op_run (Op_force_close_with_delay seconds) c = force_close_with_delay seconds c"
| "conn_op_run (Op_start_read in_thread) c = start_read in_thread c"
| "conn_op_run (Op_stop_read in_thread) c = stop_read in_thread c"
| "conn_op_run (Op_zero_copy z) c = enable_zero_copy z c"

fun conn_run :: "conn_op list \<Rightarrow> tcp_conn \<Rightarrow> conn_result" where
  "conn_run [] c = Inr (c, [])"
| "conn_run (op # ops) c = cbind (conn_op_run op c) (conn_run ops)"

text \<open>A sequence of writable events, by the results of their calls.\<close>

fun writable_events :: "((nat \<Rightarrow> int) \<times> zc_io) list \<Rightarrow> tcp_conn \<Rightarrow> conn_result" where
  "writable_events [] c = Inr (c, [])"
| "writable_events ((wr, io) # ws) c = cbind (handle_socket_writable True wr io c) (writable_events ws)"

section \<open>What a connection promises about its byte stream\<close>

text \<open>
  The specification: a queue of bytes, a file behind it, and the half-close. Bytes leave in the order they
  entered; bytes of the file leave only while the queue is empty; the half-close happens only when queue and
  file are done. Once the connection is down the specification says nothing more.
\<close>

datatype stream = Closed | Open "char list" bool

fun stream_step :: "stream \<Rightarrow> conn_event \<Rightarrow> stream option" where
  "stream_step Closed e = Some Closed"
| "stream_step (Open q f) (Accepted b) = Some (Open (q @ b) f)"
| "stream_step (Open q f) (Write_bytes b) = (if take (length b) q = b then Some (Open (drop (length b) q) f) else None)"
| "stream_step (Open q f) File_started = Some (Open q True)"
| "stream_step (Open q f) (File_bytes b) = (if q = [] \<and> f then Some (Open q f) else None)"
| "stream_step (Open q f) File_finished = (if f then Some (Open q False) else None)"
| "stream_step (Open q f) Shutdown_write = (if q = [] \<and> \<not> f then Some (Open q f) else None)"
| "stream_step (Open q f) (Conn_callback s) = Some (if s = kDisconnected then Closed else Open q f)"
| "stream_step (Open q f) e = Some (Open q f)"

fun stream_run :: "stream \<Rightarrow> conn_event list \<Rightarrow> stream option" where
  "stream_run s [] = Some s"
| "stream_run s (e # es) = Option.bind (stream_step s e) (\<lambda>s. stream_run s es)"

definition conn_stream :: "tcp_conn \<Rightarrow> stream" where
  "conn_stream c =
     (if m_conn_state c = kDisconnected then Closed
      else Open (contents (m_output_buffer c)) (m_zero_copier_ptr c \<noteq> None))"

text \<open>The invariant: unsent bytes, or a file, keep the write interest of an open connection alive.\<close>

definition conn_inv :: "tcp_conn \<Rightarrow> bool" where
  "conn_inv c \<longleftrightarrow>
     buf_inv (m_input_buffer c) \<and> buf_inv (m_output_buffer c) \<and> m_sending_state c \<noteq> kSendingFinished \<and>
     (m_sending_state c = kSendingFile \<longrightarrow> m_zero_copier_ptr c \<noteq> None) \<and>
     (m_conn_state c \<noteq> kDisconnected \<and> (contents (m_output_buffer c) \<noteq> [] \<or> m_zero_copier_ptr c \<noteq> None) \<longrightarrow>
        is_writing (m_channel c))"

text \<open>How far a connection has come, and how often its connection callback has run.\<close>

fun conn_phase :: "conn_state \<Rightarrow> nat" where
  "conn_phase kConnecting = 0"
| "conn_phase kConnected = 1"
| "conn_phase kDisconnecting = 1"
| "conn_phase kDisconnected = 2"

fun conn_rank :: "conn_state \<Rightarrow> nat" where
  "conn_rank kConnecting = 0"
| "conn_rank kConnected = 1"
| "conn_rank kDisconnecting = 2"
| "conn_rank kDisconnected = 3"

definition conn_callbacks :: "conn_event list \<Rightarrow> nat" where
  "conn_callbacks evs = length (filter (\<lambda>e. case e of Conn_callback s \<Rightarrow> True | _ \<Rightarrow> False) evs)"

text \<open>The contract every operation keeps whenever it returns.\<close>

definition conn_sim :: "tcp_conn \<Rightarrow> conn_result \<Rightarrow> bool" where
  "conn_sim c r \<longleftrightarrow>
     (\<forall>c' evs. r = Inr (c', evs) \<longrightarrow>
        conn_inv c' \<and> stream_run (conn_stream c) evs = Some (conn_stream c') \<and>
        conn_rank (m_conn_state c) \<le> conn_rank (m_conn_state c') \<and>
        conn_phase (m_conn_state c) + conn_callbacks evs = conn_phase (m_conn_state c'))"

lemma conn_simI:
  assumes "\<And>c' evs. r = Inr (c', evs) \<Longrightarrow>
     conn_inv c' \<and> stream_run (conn_stream c) evs = Some (conn_stream c') \<and>
     conn_rank (m_conn_state c) \<le> conn_rank (m_conn_state c') \<and>
     conn_phase (m_conn_state c) + conn_callbacks evs = conn_phase (m_conn_state c')"
  shows "conn_sim c r"
  using assms by (simp add: conn_sim_def)

lemma stream_run_append: "stream_run s (es @ es') = Option.bind (stream_run s es) (\<lambda>s. stream_run s es')"
  by (induction es arbitrary: s) (simp_all split: bind_split)

lemma conn_callbacks_append [simp]: "conn_callbacks (es @ es') = conn_callbacks es + conn_callbacks es'"
  by (simp add: conn_callbacks_def)

lemma conn_callbacks_simps [simp]:
  "conn_callbacks [] = 0"
  "conn_callbacks (e # es) = (case e of Conn_callback s \<Rightarrow> Suc (conn_callbacks es) | _ \<Rightarrow> conn_callbacks es)"
  by (simp_all add: conn_callbacks_def split: conn_event.split)

lemma conn_sim_bind:
  assumes "conn_sim c m" and "\<And>c'. conn_inv c' \<Longrightarrow> conn_sim c' (f c')"
  shows "conn_sim c (cbind m f)"
proof (rule conn_simI, goal_cases)
  case (1 c2 evs)
  then obtain c1 es1 es2 where 2: "m = Inr (c1, es1)" "f c1 = Inr (c2, es2)" "evs = es1 @ es2"
    by (auto simp: cbind_def rbind_def split: sum.splits)
  with assms(1) have *: "conn_inv c1" "stream_run (conn_stream c) es1 = Some (conn_stream c1)"
    "conn_rank (m_conn_state c) \<le> conn_rank (m_conn_state c1)"
    "conn_phase (m_conn_state c) + conn_callbacks es1 = conn_phase (m_conn_state c1)"
    by (simp_all add: conn_sim_def)
  show ?case using assms(2) [OF *(1)] * 2 by (simp add: conn_sim_def stream_run_append)
qed

subsection \<open>The channel under requests\<close>

lemma read_write_disjoint: "kReadEvent AND kWriteEvent = 0" "NOT kReadEvent AND kWriteEvent = kWriteEvent"
  by (simp_all add: event_defs)

lemma is_writing_request [simp]:
  "is_writing (channel_request r ch) =
     (case r of Want_to_write \<Rightarrow> True | End_writing \<Rightarrow> False | End_all \<Rightarrow> False | _ \<Rightarrow> is_writing ch)"
  using new_events_write [of "m_concerned_events ch"] read_write_disjoint
  by (cases r) (simp_all add: is_writing_def channel_request_def chan_set_events_def kNoneEvent_def
      and.assoc bit.conj_disj_distrib2)

lemma is_writing_frame [simp]:
  "is_writing (tie ch) = is_writing ch" "is_writing (set_revents rv ch) = is_writing ch"
  "is_writing (m_is_in_reactor_update f ch) = is_writing ch"
  by (simp_all add: is_writing_def tie_def set_revents_def)

lemma conn_request_simps [simp]:
  "m_channel (conn_request r c) = channel_request r (m_channel c)" "m_conn_state (conn_request r c) = m_conn_state c"
  "m_sending_state (conn_request r c) = m_sending_state c" "m_input_buffer (conn_request r c) = m_input_buffer c"
  "m_output_buffer (conn_request r c) = m_output_buffer c" "m_zero_copier_ptr (conn_request r c) = m_zero_copier_ptr c"
  "m_write_complete_callback (conn_request r c) = m_write_complete_callback c" "m_is_reading (conn_request r c) = m_is_reading c"
  "conn_zc_globals (conn_request r c) = conn_zc_globals c"
  by (simp_all add: conn_request_def)

lemma set_state_simps [simp]:
  "m_channel (set_state s c) = m_channel c" "m_conn_state (set_state s c) = s"
  "m_sending_state (set_state s c) = m_sending_state c" "m_input_buffer (set_state s c) = m_input_buffer c"
  "m_output_buffer (set_state s c) = m_output_buffer c" "m_zero_copier_ptr (set_state s c) = m_zero_copier_ptr c"
  "m_write_complete_callback (set_state s c) = m_write_complete_callback c" "m_is_reading (set_state s c) = m_is_reading c"
  "conn_zc_globals (set_state s c) = conn_zc_globals c"
  by (simp_all add: set_state_def)

lemma in_loop_thread_simps [simp]: "in_loop_thread True k = k" "in_loop_thread False k = mfatal ''abort_not_in_reactor_thread''"
  by (simp_all add: in_loop_thread_def)

lemma stream_run_Closed [simp]: "stream_run Closed es = Some Closed"
  by (induction es) simp_all

subsection \<open>Each operation keeps the contract\<close>

named_theorems conn_sims

lemma conn_sim_fatal [simp]: "conn_sim c (mfatal msg)" "conn_sim c (Inl e)"
  by (simp_all add: conn_sim_def mfatal_def)

lemma conn_sim_refl [simp]: "conn_inv c \<Longrightarrow> conn_sim c (Inr (c, []))"
  by (simp add: conn_sim_def)

lemma sim_in_loop [intro]: "conn_sim c k \<Longrightarrow> conn_sim c (in_loop_thread t k)"
  by (cases t) simp_all

lemma sim_send_bytes [conn_sims]: "conn_inv c \<Longrightarrow> conn_sim c (send_bytes_in_reactor t data c)"
proof -
  assume inv: "conn_inv c"
  then obtain b where b: "append_bytes data (m_output_buffer c) = Inr b" "buf_inv b"
    "contents b = contents (m_output_buffer c) @ data"
    using append_bytes_spec by (metis conn_inv_def)
  show ?thesis
    using inv b unfolding send_bytes_in_reactor_def
    by (intro sim_in_loop) (auto simp: conn_sim_def massert_def Let_def conn_inv_def conn_stream_def)
qed

lemma sim_handle_close [conn_sims]: "conn_inv c \<Longrightarrow> conn_sim c (handle_close t c)"
  unfolding handle_close_def
  by (intro sim_in_loop) (auto simp: conn_sim_def massert_def Let_def conn_inv_def conn_stream_def)

lemma sim_shutdown_in_reactor [conn_sims]: "conn_inv c \<Longrightarrow> conn_sim c (shutdown_in_reactor t c)"
  unfolding shutdown_in_reactor_def
  by (intro sim_in_loop) (auto simp: conn_sim_def conn_inv_def conn_stream_def)

lemma sim_shutdown_force_in_reactor [conn_sims]:
  "conn_inv c \<Longrightarrow> conn_sim c (shutdown_and_force_close_in_reactor_after t seconds c)"
  unfolding shutdown_and_force_close_in_reactor_after_def
  by (intro sim_in_loop) (auto simp: conn_sim_def conn_inv_def conn_stream_def)

lemma sim_disconnecting:
  assumes "conn_inv c" and "m_conn_state c = kConnected \<or> m_conn_state c = kDisconnecting"
    and "conn_sim (set_state kDisconnecting c) r"
  shows "conn_sim c r"
  using assms by (auto simp: conn_sim_def conn_stream_def)

lemma inv_disconnecting [simp]:
  "conn_inv c \<Longrightarrow> m_conn_state c = kConnected \<or> m_conn_state c = kDisconnecting \<Longrightarrow> conn_inv (set_state kDisconnecting c)"
  by (auto simp: conn_inv_def)

lemma sim_silent: "conn_inv c \<Longrightarrow> \<forall>e\<in>set evs. \<exists>k s. e = Queue_task k \<or> e = Run_after s k \<Longrightarrow> conn_sim c (Inr (c, evs))"
proof -
  assume "conn_inv c" and "\<forall>e\<in>set evs. \<exists>k s. e = Queue_task k \<or> e = Run_after s k"
  moreover from this(2) have "stream_run s evs = Some s \<and> conn_callbacks evs = 0" for s
    by (induction evs) (auto, (cases s; simp)+)
  ultimately show ?thesis by (simp add: conn_sim_def)
qed

lemma sim_shutdown [conn_sims]: "conn_inv c \<Longrightarrow> conn_sim c (shutdown t c)"
  by (auto simp: shutdown_def Let_def intro!: sim_disconnecting [of c] sim_shutdown_in_reactor sim_silent)

lemma sim_shutdown_force [conn_sims]: "conn_inv c \<Longrightarrow> conn_sim c (shutdown_and_force_close_after t seconds c)"
  by (auto simp: shutdown_and_force_close_after_def Let_def
      intro!: sim_disconnecting [of c] sim_shutdown_force_in_reactor sim_silent)

lemma sim_force_close [conn_sims]: "conn_inv c \<Longrightarrow> conn_sim c (force_close c)"
  by (auto simp: force_close_def intro!: sim_disconnecting [of c] sim_silent)

lemma sim_force_close_with_delay [conn_sims]: "conn_inv c \<Longrightarrow> conn_sim c (force_close_with_delay seconds c)"
  by (auto simp: force_close_with_delay_def intro!: sim_disconnecting [of c] sim_silent)

lemma sim_force_close_in_reactor [conn_sims]: "conn_inv c \<Longrightarrow> conn_sim c (force_close_in_reactor t c)"
  unfolding force_close_in_reactor_def by (intro sim_in_loop) (simp add: sim_handle_close)

lemma sim_send_string_piece [conn_sims]: "conn_inv c \<Longrightarrow> conn_sim c (send_string_piece t s c)"
  by (simp add: send_string_piece_def send_in_reactor_def sim_send_bytes sim_silent)

lemma sim_start_read [conn_sims]: "conn_inv c \<Longrightarrow> conn_sim c (start_read_in_reactor t c)" "conn_inv c \<Longrightarrow> conn_sim c (start_read t c)"
proof -
  show *: "conn_inv c \<Longrightarrow> conn_sim c (start_read_in_reactor t c)" for t
    unfolding start_read_in_reactor_def by (intro sim_in_loop) (auto simp: conn_sim_def conn_inv_def conn_stream_def)
  show "conn_inv c \<Longrightarrow> conn_sim c (start_read t c)" using * by (simp add: start_read_def sim_silent)
qed

lemma sim_stop_read [conn_sims]: "conn_inv c \<Longrightarrow> conn_sim c (stop_read_in_reactor t c)" "conn_inv c \<Longrightarrow> conn_sim c (stop_read t c)"
proof -
  show *: "conn_inv c \<Longrightarrow> conn_sim c (stop_read_in_reactor t c)" for t
    unfolding stop_read_in_reactor_def by (intro sim_in_loop) (auto simp: conn_sim_def conn_inv_def conn_stream_def)
  show "conn_inv c \<Longrightarrow> conn_sim c (stop_read t c)" using * by (simp add: stop_read_def sim_silent)
qed

lemma sim_established [conn_sims]: "conn_inv c \<Longrightarrow> conn_sim c (connect_established t c)"
  unfolding connect_established_def
  by (intro sim_in_loop) (auto simp: conn_sim_def massert_def Let_def conn_inv_def conn_stream_def)

lemma sim_destroyed [conn_sims]: "conn_inv c \<Longrightarrow> conn_sim c (connect_destroyed t c)"
  unfolding connect_destroyed_def
  by (intro sim_in_loop) (auto simp: conn_sim_def massert_def Let_def conn_inv_def conn_stream_def)

lemma sim_enable_zero_copy [conn_sims]: "conn_inv c \<Longrightarrow> conn_sim c (enable_zero_copy z c)"
  by (auto simp: enable_zero_copy_def conn_sim_def conn_inv_def conn_stream_def)

lemma read_all_from_inv:
  assumes "buf_inv b" and "read_all_from readv b = Inr (n, e, b')"
  shows "buf_inv b'"
proof (cases "readv (read_iovs b)")
  case (Inl x)
  then show ?thesis using assms by (simp add: read_all_from_def Let_def)
next
  case (Inr d)
  then show ?thesis using assms read_all_from_spec [of b readv d] by auto
qed

lemma conn_stream_input [simp]: "conn_stream (c\<lparr>m_input_buffer := b\<rparr>) = conn_stream c"
  by (simp add: conn_stream_def)

lemma sim_input: "conn_inv c \<Longrightarrow> buf_inv b \<Longrightarrow> conn_sim (c\<lparr>m_input_buffer := b\<rparr>) r \<Longrightarrow> conn_sim c r"
  by (simp add: conn_sim_def)

lemma sim_readable [conn_sims]: "conn_inv c \<Longrightarrow> conn_sim c (handle_socket_readable t readv c)"
proof -
  assume inv: "conn_inv c"
  then have b: "buf_inv (m_input_buffer c)" by (simp add: conn_inv_def)
  show ?thesis unfolding handle_socket_readable_def
  proof (rule sim_in_loop, cases "read_all_from readv (m_input_buffer c)")
    case (Inr r)
    obtain n e b' where r: "r = (n, e, b')" by (cases r)
    let ?c = "c\<lparr>m_input_buffer := b'\<rparr>"
    have b': "buf_inv b'" using read_all_from_inv b Inr r by blast
    then have "conn_inv ?c" using inv by (simp add: conn_inv_def)
    then have "conn_sim ?c (handle_close t ?c)" "conn_sim ?c (handle_error ?c)" "conn_sim ?c (Inr (?c, [Message_callback]))"
      by (simp_all add: sim_handle_close handle_error_def) (auto simp: conn_sim_def conn_stream_def)
    then show "conn_sim c (rbind (read_all_from readv (m_input_buffer c)) (\<lambda>(n, saved_errno, b).
          let c = c\<lparr>m_input_buffer := b\<rparr> in if 0 < n then Inr (c, [Message_callback])
             else if n = 0 then handle_close t c else handle_error c))"
      using Inr r sim_input [OF inv b'] by (simp add: Let_def)
  qed simp
qed

subsection \<open>The write handler\<close>

lemma content_len_0: "buf_inv b \<Longrightarrow> content_bytes_len b = 0 \<longleftrightarrow> contents b = []"
  by (simp flip: length_contents)

lemma retrieve_Inr:
  assumes "buf_inv b" and "retrieve n b = Inr b'"
  shows "buf_inv b' \<and> contents b = take n (contents b) @ contents b' \<and> n \<le> length (contents b)"
proof -
  have "n \<le> length (contents b)"
    using assms by (simp add: retrieve_def massert_def length_contents split: if_splits)
  then show ?thesis using retrieve_spec [OF assms(1)] assms(2) by (metis append_take_drop_id sum.inject(2))
qed

lemma write_socket_from_buffer_cases:
  assumes "buf_inv (m_output_buffer c)" and "write_socket_from_buffer wr c = Inr (c', evs)"
  obtains "c' = c" "evs = []"
  | b w where "c' = c\<lparr>m_output_buffer := b\<rparr>" "evs = [Write_bytes w]" "buf_inv b" "contents (m_output_buffer c) = w @ contents b"
proof (cases "content_bytes_len (m_output_buffer c) = 0 \<or> wr (content_bytes_len (m_output_buffer c)) < 0")
  case True
  with assms(2) have "c' = c" "evs = []" by (auto simp: write_socket_from_buffer_def Let_def split: if_splits)
  with that(1) show ?thesis .
next
  case False
  let ?b = "m_output_buffer c"
  define n where "n = nat (wr (content_bytes_len ?b))"
  from False assms(2) have "rbind (retrieve n ?b) (\<lambda>b. Inr (c\<lparr>m_output_buffer := b\<rparr>, [Write_bytes (take n (contents ?b))])) = Inr (c', evs)"
    by (simp add: write_socket_from_buffer_def Let_def n_def)
  then obtain b' where b': "retrieve n ?b = Inr b'" "c' = c\<lparr>m_output_buffer := b'\<rparr>" "evs = [Write_bytes (take n (contents ?b))]"
    by (cases "retrieve n ?b") simp_all
  with retrieve_Inr [OF assms(1) b'(1)] that(2) show ?thesis by blast
qed

text \<open>Between the parts of the handler the write interest is on; the last part may end it.\<close>

lemma sim_io:
  assumes "conn_inv c" and "is_writing (m_channel c)" and "m_conn_state c' = m_conn_state c"
    and "m_channel c' = m_channel c" and "m_input_buffer c' = m_input_buffer c" and "buf_inv (m_output_buffer c')"
    and "m_sending_state c' \<noteq> kSendingFinished" and "m_sending_state c' = kSendingFile \<longrightarrow> m_zero_copier_ptr c' \<noteq> None"
    and "stream_run (Open (contents (m_output_buffer c)) (m_zero_copier_ptr c \<noteq> None)) evs =
           Some (Open (contents (m_output_buffer c')) (m_zero_copier_ptr c' \<noteq> None))"
    and "conn_callbacks evs = 0"
  shows "conn_sim c (Inr (c', evs))"
  using assms unfolding conn_sim_def conn_stream_def conn_inv_def by simp

lemma transfer_from_buffer:
  assumes "m_sending_state c = kSendingBuffer" and "transfer_sending_state c = Inr c'"
  shows "c' = c\<lparr>m_sending_state := if content_bytes_len (m_output_buffer c) = 0 then kNotSending else kSendingBuffer\<rparr>"
proof -
  have "c\<lparr>m_sending_state := kSendingBuffer\<rparr> = c" using assms(1) by (intro tcp_conn.equality) simp_all
  with assms show ?thesis by (auto simp: transfer_sending_state_def)
qed

lemma transfer_from_file:
  assumes "m_sending_state c = kSendingFile" and "m_zero_copier_ptr c = Some z" and "transfer_sending_state c = Inr c'"
  shows "c' = c\<lparr>m_sending_state := if zc_has_finished z then kNotSending else kSendingFile\<rparr>"
proof -
  have "c\<lparr>m_sending_state := kSendingFile\<rparr> = c" using assms(1) by (intro tcp_conn.equality) simp_all
  with assms show ?thesis by (auto simp: transfer_sending_state_def)
qed

lemma sim_buffer_part:
  assumes "conn_inv c" and "is_writing (m_channel c)" and "writable_buffer_part wr c = Inr (c', evs)"
  shows "conn_sim c (Inr (c', evs)) \<and> is_writing (m_channel c') \<and> m_conn_state c' = m_conn_state c \<and>
    (m_sending_state c' = kNotSending \<longrightarrow> contents (m_output_buffer c') = [])"
proof (cases "m_sending_state c = kNotSending \<or> m_sending_state c = kSendingBuffer")
  case True
  let ?c = "c\<lparr>m_sending_state := kSendingBuffer\<rparr>"
  have inv: "buf_inv (m_output_buffer ?c)" "buf_inv (m_output_buffer c)" using assms(1) by (simp_all add: conn_inv_def)
  from True assms(3) have "rbind (write_socket_from_buffer wr ?c) (\<lambda>(c, evs). rbind (transfer_sending_state c) (\<lambda>c. Inr (c, evs))) =
      Inr (c', evs)" by (auto simp: writable_buffer_part_def)
  then obtain c1 where c1: "write_socket_from_buffer wr ?c = Inr (c1, evs)" "transfer_sending_state c1 = Inr c'"
    by (auto simp: rbind_def split: sum.splits)
  show ?thesis using inv(1) c1(1)
  proof (cases rule: write_socket_from_buffer_cases)
    case 1
    then have c': "c' = c\<lparr>m_sending_state := if content_bytes_len (m_output_buffer c) = 0 then kNotSending else kSendingBuffer\<rparr>"
      using transfer_from_buffer [OF _ c1(2)] by simp
    have "conn_sim c (Inr (c', evs))" by (rule sim_io) (use assms inv 1 c' in simp_all)
    then show ?thesis using c' assms(2) inv by (simp add: content_len_0)
  next
    case (2 b w)
    then have c': "c' = c\<lparr> m_output_buffer := b, m_sending_state := if content_bytes_len b = 0 then kNotSending else kSendingBuffer\<rparr>"
      using transfer_from_buffer [OF _ c1(2)] by simp
    have "conn_sim c (Inr (c', evs))" by (rule sim_io) (use assms inv 2 c' in simp_all)
    then show ?thesis using c' assms(2) 2(3) by (simp add: content_len_0)
  qed
next
  case False
  then show ?thesis using assms by (auto simp: writable_buffer_part_def)
qed

lemma sim_file_part:
  assumes "conn_inv c" and "is_writing (m_channel c)"
    and "m_sending_state c = kNotSending \<longrightarrow> contents (m_output_buffer c) = []"
    and "writable_file_part io c = Inr (c', evs)"
  shows "conn_sim c (Inr (c', evs)) \<and> is_writing (m_channel c') \<and> m_conn_state c' = m_conn_state c \<and>
    (m_sending_state c' = kNotSending \<longrightarrow> contents (m_output_buffer c') = [] \<and> m_zero_copier_ptr c' = None)"
proof (cases "m_zero_copier_ptr c")
  case None
  then show ?thesis using assms by (auto simp: writable_file_part_def)
next
  case (Some z)
  have inv: "buf_inv (m_output_buffer c)" using assms(1) by (simp add: conn_inv_def)
  show ?thesis
  proof (cases "content_bytes_len (m_output_buffer c) = 0 \<and> (m_sending_state c = kNotSending \<or> m_sending_state c = kSendingFile)")
    case True
    then obtain ret bytes z' g where *: "send_one_chunk io z (conn_zc_globals c) = Inr (ret, bytes, z', g)"
      using assms(4) Some by (cases "send_one_chunk io z (conn_zc_globals c)") (auto simp: writable_file_part_def)
    let ?c = "c\<lparr> m_sending_state := kSendingFile, m_zero_copier_ptr := Some z', conn_zc_globals := g \<rparr>"
    let ?s = "if zc_has_finished z' then kNotSending else kSendingFile"
    have "transfer_sending_state ?c = Inr (?c\<lparr>m_sending_state := ?s\<rparr>)" by (simp add: transfer_sending_state_def)
    then have c': "c' = ?c\<lparr> m_sending_state := ?s, m_zero_copier_ptr := if zc_has_finished z' then None else Some z' \<rparr>"
      "evs = File_bytes bytes # (if zc_has_finished z' then [File_finished] else [])"
      using assms(4) True Some * by (auto simp: writable_file_part_def)
    have "contents (m_output_buffer c) = []" using True inv by (simp add: content_len_0)
    then have "conn_sim c (Inr (c', evs))" by (intro sim_io) (use assms inv Some c' in simp_all)
    then show ?thesis using c' assms(2) \<open>contents (m_output_buffer c) = []\<close> by simp
  next
    case False
    then have "c' = c" "evs = []" using assms(4) Some by (auto simp: writable_file_part_def)
    moreover have "m_sending_state c \<noteq> kNotSending" using False assms(3) content_len_0 [OF inv] by blast
    ultimately show ?thesis using conn_sim_refl [OF assms(1)] assms(2) by simp
  qed
qed

lemma sim_finish_part:
  assumes "conn_inv c" and "m_sending_state c = kNotSending \<longrightarrow> contents (m_output_buffer c) = [] \<and> m_zero_copier_ptr c = None"
  shows "conn_sim c (writable_finish_part t c)"
  using assms
  by (cases t) (auto simp: writable_finish_part_def shutdown_in_reactor_def conn_sim_def conn_inv_def conn_stream_def Let_def
      mfatal_def)

lemma sim_writable [conn_sims]: "conn_inv c \<Longrightarrow> conn_sim c (handle_socket_writable t wr io c)"
proof -
  assume inv: "conn_inv c"
  show ?thesis unfolding handle_socket_writable_def
  proof (rule sim_in_loop, cases "is_writing (m_channel c)")
    case True
    have "conn_sim c (cbind (writable_buffer_part wr c) (\<lambda>c. cbind (writable_file_part io c) (writable_finish_part t)))"
    proof (rule conn_simI, goal_cases)
      case (1 c3 evs)
      then obtain c1 es1 c2 es2 es3 where s: "writable_buffer_part wr c = Inr (c1, es1)"
        "writable_file_part io c1 = Inr (c2, es2)" "writable_finish_part t c2 = Inr (c3, es3)" "evs = es1 @ es2 @ es3"
        by (auto simp: cbind_def rbind_def split: sum.splits)
      note b = sim_buffer_part [OF inv True s(1)]
      then have "conn_inv c1" by (simp add: conn_sim_def)
      with b s(2) have f: "conn_sim c1 (Inr (c2, es2))"
        "m_sending_state c2 = kNotSending \<longrightarrow> contents (m_output_buffer c2) = [] \<and> m_zero_copier_ptr c2 = None"
        using sim_file_part by blast+
      then have "conn_sim c2 (writable_finish_part t c2)" by (intro sim_finish_part) (simp_all add: conn_sim_def)
      with b f(1) s(3,4) show ?case by (auto simp: conn_sim_def stream_run_append)
    qed
    then show "conn_sim c (if is_writing (m_channel c) then cbind (writable_buffer_part wr c)
        (\<lambda>c. cbind (writable_file_part io c) (writable_finish_part t)) else Inr (c, []))" using True by simp
  qed (simp add: inv)
qed

subsection \<open>Runs\<close>

lemma sim_callbacks_run: "conn_inv c \<Longrightarrow> conn_sim c (conn_callbacks_run readv wr io cbs c)"
proof (induction cbs arbitrary: c)
  case (Cons cb cbs)
  have "conn_sim c (conn_callback_run readv wr io cb c)"
    using Cons.prems by (cases cb) (simp_all add: conn_sims handle_error_def)
  then show ?case using Cons.IH by (simp add: conn_sim_bind)
qed simp

lemma sim_handle_event [conn_sims]: "conn_inv c \<Longrightarrow> conn_sim c (conn_handle_event t rv readv wr io c)"
proof -
  assume inv: "conn_inv c"
  let ?c = "c\<lparr>m_channel := set_revents rv (m_channel c)\<rparr>"
  have "conn_inv ?c" using inv by (simp add: conn_inv_def)
  then have "conn_sim ?c (conn_handle_event t rv readv wr io c)"
    unfolding conn_handle_event_def Let_def by (rule sim_callbacks_run)
  moreover have "conn_stream ?c = conn_stream c" by (simp add: conn_stream_def)
  ultimately show ?thesis by (simp add: conn_sim_def)
qed

lemma sim_op: "conn_inv c \<Longrightarrow> conn_sim c (conn_op_run op c)"
proof (cases op)
  case (Op_task k)
  then show "conn_inv c \<Longrightarrow> ?thesis" by (cases k) (simp_all add: conn_sims send_in_reactor_def)
qed (simp_all add: conn_sims)

lemma sim_run: "conn_inv c \<Longrightarrow> conn_sim c (conn_run ops c)"
  by (induction ops arbitrary: c) (simp_all add: conn_sim_bind sim_op)

lemma inv_init [simp]: "conn_inv (TcpConnection_init name fd wc hw g)"
  by (simp add: conn_inv_def TcpConnection_init_def)

section \<open>Operations return\<close>

text \<open>
  When an operation is in order: the connection is established once, it is destroyed while connected or with
  no interest left, and events arrive while it is open. The kernel takes no more bytes than it is offered,
  and does not report a hang-up together with urgent data and nothing to read.
\<close>

fun conn_legal :: "conn_op \<Rightarrow> tcp_conn \<Rightarrow> bool" where
  "conn_legal Op_established c \<longleftrightarrow> m_conn_state c = kConnecting"
| "conn_legal Op_destroyed c \<longleftrightarrow> m_conn_state c = kConnected \<or> is_none_event (m_channel c)"
| "conn_legal (Op_event t rv readv wr io) c \<longleftrightarrow>
     (m_conn_state c = kConnected \<or> m_conn_state c = kDisconnecting) \<and> (\<forall>k. wr k \<le> int k) \<and>
     (rv AND POLLHUP = 0 \<or> rv AND POLLIN \<noteq> 0 \<or> rv AND (POLLPRI OR POLLRDHUP) = 0) \<and>
     (\<forall>z. m_zero_copier_ptr c = Some z \<longrightarrow>
        zc_inv z \<and> g_copy_mode (conn_zc_globals c) \<noteq> kReadWrite \<and> zc_io_ok io z (conn_zc_globals c))"
| "conn_legal op c \<longleftrightarrow> True"

definition returns :: "'a res \<Rightarrow> bool" where
  "returns r \<longleftrightarrow> (\<exists>x. r = Inr x)"

lemma returns_Inr [simp]: "returns (Inr x)"
  by (simp add: returns_def)

lemma returns_rbind: "m = Inr x \<Longrightarrow> returns (f x) \<Longrightarrow> returns (rbind m f)"
  by simp

lemma returns_cbind: "m = Inr (c, evs) \<Longrightarrow> returns (f c) \<Longrightarrow> returns (cbind m f)"
  by (auto simp: returns_def cbind_def)

lemma returns_send_bytes: "conn_inv c \<Longrightarrow> returns (send_bytes_in_reactor True data c)"
proof -
  assume "conn_inv c"
  then obtain b where "append_bytes data (m_output_buffer c) = Inr b"
    using append_bytes_spec by (metis conn_inv_def)
  then show ?thesis by (simp add: send_bytes_in_reactor_def massert_def Let_def)
qed

lemma write_socket_returns:
  assumes "buf_inv (m_output_buffer c)" and "\<forall>k. wr k \<le> int k"
  shows "returns (write_socket_from_buffer wr c)"
proof -
  let ?b = "m_output_buffer c"
  have "nat (wr (content_bytes_len ?b)) \<le> length (contents ?b)"
    using assms by (simp add: length_contents nat_le_iff)
  then obtain b where "retrieve (nat (wr (content_bytes_len ?b))) ?b = Inr b" using retrieve_spec [OF assms(1)] by blast
  then show ?thesis by (simp add: write_socket_from_buffer_def Let_def)
qed

lemma writable_returns:
  assumes "conn_inv c" and "\<forall>k. wr k \<le> int k"
    and zc: "\<forall>z. m_zero_copier_ptr c = Some z \<longrightarrow>
        zc_inv z \<and> g_copy_mode (conn_zc_globals c) \<noteq> kReadWrite \<and> zc_io_ok io z (conn_zc_globals c)"
  shows "returns (handle_socket_writable True wr io c)"
proof (cases "is_writing (m_channel c)")
  case True
  have "\<exists>c1 es1. writable_buffer_part wr c = Inr (c1, es1) \<and> m_zero_copier_ptr c1 = m_zero_copier_ptr c \<and>
      conn_zc_globals c1 = conn_zc_globals c"
  proof (cases "m_sending_state c = kNotSending \<or> m_sending_state c = kSendingBuffer")
    case True
    let ?c = "c\<lparr>m_sending_state := kSendingBuffer\<rparr>"
    have inv: "buf_inv (m_output_buffer ?c)" using assms(1) by (simp add: conn_inv_def)
    then obtain c1 es1 where w: "write_socket_from_buffer wr ?c = Inr (c1, es1)"
      using write_socket_returns assms(2) by (fastforce simp: returns_def)
    from inv w have c1: "m_sending_state c1 = kSendingBuffer" "m_zero_copier_ptr c1 = m_zero_copier_ptr c"
      "conn_zc_globals c1 = conn_zc_globals c"
      by (cases rule: write_socket_from_buffer_cases; simp)+
    show ?thesis using True w c1 by (auto simp: writable_buffer_part_def transfer_sending_state_def)
  qed (simp add: writable_buffer_part_def)
  then obtain c1 es1 where c1: "writable_buffer_part wr c = Inr (c1, es1)" "m_zero_copier_ptr c1 = m_zero_copier_ptr c"
      "conn_zc_globals c1 = conn_zc_globals c" by blast
  have "returns (writable_file_part io c1)"
  proof (cases "m_zero_copier_ptr c1")
    case (Some z)
    then have "zc_inv z \<and> g_copy_mode (conn_zc_globals c1) \<noteq> kReadWrite \<and> zc_io_ok io z (conn_zc_globals c1)"
      using zc c1(2,3) by simp
    then obtain ret bytes z' g' where "send_one_chunk io z (conn_zc_globals c1) = Inr (ret, bytes, z', g')"
      using send_one_chunk_spec [of z "conn_zc_globals c1" io] by blast
    then show ?thesis using Some by (simp add: writable_file_part_def transfer_sending_state_def)
  qed (simp add: writable_file_part_def)
  then obtain c2 es2 where c2: "writable_file_part io c1 = Inr (c2, es2)" by (auto simp: returns_def)
  have "returns (writable_finish_part True c2)" by (simp add: writable_finish_part_def shutdown_in_reactor_def Let_def)
  with True c1(1) c2 show ?thesis by (simp add: handle_socket_writable_def returns_cbind)
qed (simp add: handle_socket_writable_def)

text \<open>The read handler returns while the connection is open, and leaves the sending side alone.\<close>

lemma readable_result:
  assumes "conn_inv c" and "m_conn_state c = kConnected \<or> m_conn_state c = kDisconnecting"
  shows "\<exists>c' evs. handle_socket_readable True readv c = Inr (c', evs) \<and> conn_inv c' \<and>
    m_zero_copier_ptr c' = m_zero_copier_ptr c \<and> conn_zc_globals c' = conn_zc_globals c"
proof -
  have inv: "buf_inv (m_input_buffer c)" using assms(1) by (simp add: conn_inv_def)
  then obtain n e b where b: "read_all_from readv (m_input_buffer c) = Inr (n, e, b)"
    using read_all_from_spec [OF inv, of readv] by (cases "readv (read_iovs (m_input_buffer c))") (auto simp: read_all_from_def Let_def)
  with assms(2) obtain c' evs where r: "handle_socket_readable True readv c = Inr (c', evs)"
    "m_zero_copier_ptr c' = m_zero_copier_ptr c" "conn_zc_globals c' = conn_zc_globals c"
    by (cases "0 < n"; cases "n = 0") (auto simp: handle_socket_readable_def Let_def handle_close_def handle_error_def massert_def)
  then show ?thesis using sim_readable [OF assms(1), of True readv] by (simp add: conn_sim_def)
qed

lemma closed_writable: "\<not> is_writing (m_channel c) \<Longrightarrow> handle_socket_writable True wr io c = Inr (c, [])"
  by (simp add: handle_socket_writable_def)

lemma event_returns:
  assumes "conn_inv c" and "conn_legal (Op_event t rv readv wr io) c"
  shows "returns (conn_handle_event t rv readv wr io c)"
proof -
  let ?c = "c\<lparr>m_channel := set_revents rv (m_channel c)\<rparr>"
  have inv: "conn_inv ?c" and st: "m_conn_state ?c = kConnected \<or> m_conn_state ?c = kDisconnecting"
    using assms by (simp_all add: conn_inv_def)
  have wr: "returns (handle_socket_writable True wr io c')"
    if "conn_inv c'" "m_zero_copier_ptr c' = m_zero_copier_ptr c" "conn_zc_globals c' = conn_zc_globals c" for c'
    using that assms(2) by (intro writable_returns) simp_all
  obtain c1 es1 where c1: "handle_close True ?c = Inr (c1, es1)" "\<not> is_writing (m_channel c1)"
    using st by (auto simp: handle_close_def massert_def Let_def)
  obtain c2 es2 where c2: "handle_socket_readable True readv ?c = Inr (c2, es2)" "conn_inv c2"
    "m_zero_copier_ptr c2 = m_zero_copier_ptr c" "conn_zc_globals c2 = conn_zc_globals c"
    using readable_result [OF inv st, of readv] by auto
  have w2: "returns (handle_socket_writable True wr io c2)" "returns (handle_socket_writable True wr io ?c)"
    using wr c2 inv by simp_all
  have rd: "rv AND (POLLIN OR POLLPRI OR POLLRDHUP) = 0" if "rv AND POLLHUP \<noteq> 0" "rv AND POLLIN = 0"
    using that assms(2) by (simp add: bit.conj_disj_distrib or.assoc)
  have W: "returns (conn_callbacks_run readv wr io (if b then [WriteCb] else []) x)"
    if "returns (handle_socket_writable True wr io x)" for x b
    using that by (auto simp: returns_def cbind_def)
  have R: "returns (conn_callbacks_run readv wr io ((if b then [ReadCb t] else []) @ (if b' then [WriteCb] else [])) ?c)" for b b'
    using W [OF w2(1), of b'] W [OF w2(2), of b'] c2(1) by (cases b) (simp_all add: returns_cbind)
  have E: "returns (conn_callbacks_run readv wr io ((if b then [ErrorCb] else []) @ cbs) x)"
    if "returns (conn_callbacks_run readv wr io cbs x)" for b cbs x
    using that by (auto simp: returns_def cbind_def handle_error_def)
  have C: "returns (conn_callbacks_run readv wr io (CloseCb # (if b then [ErrorCb] else []) @ (if b' then [WriteCb] else [])) ?c)" for b b'
    using E [OF W, of c1 b b'] c1 by (simp add: returns_cbind closed_writable)
  show ?thesis
  proof (cases "rv AND POLLHUP \<noteq> 0 \<and> rv AND POLLIN = 0 \<and> m_close_callback (m_channel c)")
    case True
    then show ?thesis using C rd
      by (simp add: conn_handle_event_def handle_event_def handle_event_with_guard_def set_revents_def Let_def)
  next
    case False
    then have "handle_event True t (m_channel ?c) = [] @ (if rv AND (POLLERR OR POLLNVAL) \<noteq> 0 \<and> m_error_callback (m_channel c) then [ErrorCb] else []) @
        (if rv AND (POLLIN OR POLLPRI OR POLLRDHUP) \<noteq> 0 \<and> m_read_callback (m_channel c) then [ReadCb t] else []) @
         (if rv AND POLLOUT \<noteq> 0 \<and> m_write_callback (m_channel c) then [WriteCb] else [])"
      unfolding handle_event_def handle_event_with_guard_def set_revents_def Let_def by simp
    then show ?thesis unfolding conn_handle_event_def Let_def using E [OF R] by simp
  qed
qed

lemma op_returns:
  assumes "conn_inv c" and "conn_legal op c"
  shows "returns (conn_op_run op c)"
proof (cases op)
  case Op_established
  then show ?thesis using assms by (simp add: connect_established_def massert_def Let_def)
next
  case Op_destroyed
  then show ?thesis using assms
    by (auto simp: connect_destroyed_def massert_def Let_def is_none_event_def channel_request_def chan_set_events_def)
next
  case (Op_event t rv readv wr io)
  then show ?thesis using assms event_returns by simp
next
  case (Op_task k)
  then show ?thesis using assms(1)
    by (cases k) (simp_all add: send_in_reactor_def returns_send_bytes shutdown_in_reactor_def force_close_def handle_close_def
        shutdown_and_force_close_in_reactor_after_def force_close_in_reactor_def massert_def start_read_in_reactor_def
        stop_read_in_reactor_def Let_def)
next
  case (Op_send t s)
  then show ?thesis using assms(1) by (cases t) (simp_all add: send_string_piece_def send_in_reactor_def returns_send_bytes)
next
  case (Op_shutdown t)
  then show ?thesis by (cases t) (simp_all add: shutdown_def shutdown_in_reactor_def Let_def)
next
  case (Op_shutdown_and_force_close t x)
  then show ?thesis
    by (cases t) (simp_all add: shutdown_and_force_close_after_def shutdown_and_force_close_in_reactor_after_def Let_def)
next
  case (Op_start_read t)
  then show ?thesis by (cases t) (simp_all add: start_read_def start_read_in_reactor_def)
next
  case (Op_stop_read t)
  then show ?thesis by (cases t) (simp_all add: stop_read_def stop_read_in_reactor_def)
qed (simp_all add: force_close_def force_close_with_delay_def enable_zero_copy_def)

section \<open>Draining the output buffer\<close>

definition written_bytes :: "conn_event list \<Rightarrow> char list" where
  "written_bytes evs = concat (map (\<lambda>e. case e of Write_bytes b \<Rightarrow> b | _ \<Rightarrow> []) evs)"

lemma written_bytes_simps [simp]:
  "written_bytes [] = []" "written_bytes (es @ es') = written_bytes es @ written_bytes es'"
  "written_bytes (e # es) = (case e of Write_bytes b \<Rightarrow> b | _ \<Rightarrow> []) @ written_bytes es"
  by (simp_all add: written_bytes_def)

text \<open>With no file to send, a writable event either empties the buffer and ends the writing or keeps a shorter rest.\<close>

definition sending_buffer :: "tcp_conn \<Rightarrow> bool" where
  "sending_buffer c \<longleftrightarrow> conn_inv c \<and> m_zero_copier_ptr c = None \<and> is_writing (m_channel c)"

lemma writable_progress:
  assumes "sending_buffer c" and "\<forall>k>0. 0 < wr k" and "\<forall>k. wr k \<le> int k"
  shows "\<exists>c' evs. handle_socket_writable True wr io c = Inr (c', evs) \<and> m_conn_state c' = m_conn_state c \<and>
     contents (m_output_buffer c) = written_bytes evs @ contents (m_output_buffer c') \<and>
     (if contents (m_output_buffer c') = []
      then \<not> is_writing (m_channel c') \<and> (m_conn_state c = kDisconnecting \<longrightarrow> Shutdown_write \<in> set evs)
      else sending_buffer c' \<and> length (contents (m_output_buffer c')) < length (contents (m_output_buffer c)))"
proof -
  let ?b = "m_output_buffer c"
  let ?c = "c\<lparr>m_sending_state := kSendingBuffer\<rparr>"
  have inv: "buf_inv ?b" "conn_inv c" "is_writing (m_channel c)" and zc: "m_zero_copier_ptr c = None"
    and st: "m_sending_state c = kNotSending \<or> m_sending_state c = kSendingBuffer"
    using assms(1) by (auto simp: sending_buffer_def conn_inv_def) (metis sending_state.exhaust)+
  define n where "n = nat (wr (content_bytes_len ?b))"
  have n: "n \<le> length (contents ?b)" "contents ?b \<noteq> [] \<Longrightarrow> 0 < n"
    using assms(2,3) inv(1) by (simp_all add: n_def length_contents nat_le_iff flip: content_len_0)
  obtain b where b: "retrieve n ?b = Inr b" "buf_inv b" "contents b = drop n (contents ?b)"
    using retrieve_spec [OF inv(1) n(1)] by blast
  define c1 where "c1 = c\<lparr> m_output_buffer := if contents ?b = [] then ?b else b,
     m_sending_state := if n = length (contents ?b) then kNotSending else kSendingBuffer \<rparr>"
  have p1: "writable_buffer_part wr c = Inr (c1, if contents ?b = [] then [] else [Write_bytes (take n (contents ?b))])"
  proof (cases "contents ?b = []")
    case True
    then show ?thesis using st inv(1) n(1)
      by (simp add: writable_buffer_part_def write_socket_from_buffer_def content_len_0 transfer_sending_state_def c1_def)
  next
    case False
    then have "write_socket_from_buffer wr ?c = Inr (?c\<lparr>m_output_buffer := b\<rparr>, [Write_bytes (take n (contents ?b))])"
      using n(2) b(1) inv(1) by (simp add: write_socket_from_buffer_def content_len_0 Let_def n_def)
    moreover have "content_bytes_len b = 0 \<longleftrightarrow> n = length (contents ?b)" using b n(1) by (auto simp: content_len_0)
    ultimately show ?thesis using False st
      by (auto simp: writable_buffer_part_def transfer_sending_state_def c1_def)
  qed
  have p2: "writable_file_part io c1 = Inr (c1, [])" by (simp add: writable_file_part_def c1_def zc)
  have "conn_sim c (handle_socket_writable True wr io c)" by (rule sim_writable [OF inv(2)])
  then show ?thesis
    using inv p1 p2 n b zc
    by (auto simp: handle_socket_writable_def cbind_def writable_finish_part_def shutdown_in_reactor_def Let_def
        conn_sim_def sending_buffer_def c1_def)
qed

lemma idle_events: "\<not> is_writing (m_channel c) \<Longrightarrow> writable_events ws c = Inr (c, [])"
  by (induction ws) (auto simp: closed_writable cbind_def)

lemma drain_events:
  assumes "sending_buffer c" and "\<forall>(wr, io)\<in>set ws. (\<forall>k>0. 0 < wr k) \<and> (\<forall>k. wr k \<le> int k)"
    and "length (contents (m_output_buffer c)) \<le> length ws" and "ws \<noteq> []"
  shows "\<exists>c' evs. writable_events ws c = Inr (c', evs) \<and> m_conn_state c' = m_conn_state c \<and>
     contents (m_output_buffer c') = [] \<and> written_bytes evs = contents (m_output_buffer c) \<and> \<not> is_writing (m_channel c') \<and>
     (m_conn_state c = kDisconnecting \<longrightarrow> Shutdown_write \<in> set evs)"
  using assms
proof (induction ws arbitrary: c)
  case (Cons w ws)
  obtain wr io where w: "w = (wr, io)" by (cases w)
  from Cons.prems w have "\<forall>k>0. 0 < wr k" "\<forall>k. wr k \<le> int k" by auto
  from writable_progress [OF Cons.prems(1) this, of io]
  obtain c1 es1 where c1: "handle_socket_writable True wr io c = Inr (c1, es1)" "m_conn_state c1 = m_conn_state c"
    "contents (m_output_buffer c) = written_bytes es1 @ contents (m_output_buffer c1)"
    "if contents (m_output_buffer c1) = []
      then \<not> is_writing (m_channel c1) \<and> (m_conn_state c = kDisconnecting \<longrightarrow> Shutdown_write \<in> set es1)
      else sending_buffer c1 \<and> length (contents (m_output_buffer c1)) < length (contents (m_output_buffer c))"
    by blast
  show ?case
  proof (cases "contents (m_output_buffer c1) = []")
    case True
    then show ?thesis using c1 w idle_events [of c1 ws] by (simp add: cbind_def)
  next
    case False
    then have p: "sending_buffer c1" "length (contents (m_output_buffer c1)) \<le> length ws" using c1(4) Cons.prems(3) by auto
    moreover have "ws \<noteq> []" using p(2) False by auto
    ultimately obtain c' evs where "writable_events ws c1 = Inr (c', evs)" "m_conn_state c' = m_conn_state c1"
      "contents (m_output_buffer c') = []" "written_bytes evs = contents (m_output_buffer c1)" "\<not> is_writing (m_channel c')"
      "m_conn_state c1 = kDisconnecting \<longrightarrow> Shutdown_write \<in> set evs"
      using Cons.IH [of c1] Cons.prems(2) by auto
    then show ?thesis using c1 w by (simp add: cbind_def)
  qed
qed simp

section \<open>Properties\<close>

fun conn_legal_run :: "conn_op list \<Rightarrow> tcp_conn \<Rightarrow> bool" where
  "conn_legal_run [] c \<longleftrightarrow> True"
| "conn_legal_run (op # ops) c \<longleftrightarrow>
     conn_legal op c \<and> (case conn_op_run op c of Inr (c', evs) \<Rightarrow> conn_legal_run ops c' | Inl e \<Rightarrow> False)"

lemma run_returns: "conn_inv c \<Longrightarrow> conn_legal_run ops c \<Longrightarrow> returns (conn_run ops c)"
proof (induction ops arbitrary: c)
  case (Cons op ops)
  then obtain c1 es1 where c1: "conn_op_run op c = Inr (c1, es1)" by (auto split: sum.splits)
  moreover have "conn_inv c1" using sim_op [OF Cons.prems(1), of op] c1 by (simp add: conn_sim_def)
  ultimately show ?case using Cons by (simp add: returns_cbind)
qed simp

text \<open>A small session: established, one send, a shutdown from the loop and a writable event.\<close>

definition reads_nothing :: "nat list \<Rightarrow> int + char list" where "reads_nothing iovs = Inl 11"
definition reads_end :: "nat list \<Rightarrow> int + char list" where "reads_end iovs = Inr []"
definition takes_all :: "nat \<Rightarrow> int" where "takes_all k = int k"
definition takes_one :: "nat \<Rightarrow> int" where "takes_one k = min 1 (int k)"

definition sample_conn :: tcp_conn where
  "sample_conn = TcpConnection_init ''c'' 5 False False zc_globals_init"

definition sample_ops :: "conn_op list" where
  "sample_ops = [Op_established, Op_send True ''hi'', Op_shutdown True, Op_event 1 POLLOUT reads_nothing takes_all (io_sends 0)]"

definition sample_up :: tcp_conn where
  "sample_up = conn_request Wang_to_read ((set_state kConnected sample_conn)\<lparr>m_channel := tie (m_channel sample_conn)\<rparr>)"

lemma sample_up_simps [simp]:
  "m_conn_state sample_up = kConnected" "m_output_buffer sample_up = Buffer_init kInitialSize"
  "m_input_buffer sample_up = Buffer_init kInitialSize" "m_zero_copier_ptr sample_up = None"
  "m_sending_state sample_up = kNotSending" "\<not> is_writing (m_channel sample_up)" "\<not> is_none_event (m_channel sample_up)"
  "m_high_watermark_callback sample_up = False" "m_write_callback (m_channel sample_up)" "m_tied (m_channel sample_up)"
  "m_fd (m_channel sample_up) = 5" "conn_zc_globals sample_up = zc_globals_init" "conn_inv sample_up"
  by (simp_all add: sample_up_def sample_conn_def TcpConnection_init_def conn_inv_def is_writing_def Channel_init_def tie_def
      channel_request_def chan_set_events_def is_none_event_def event_defs conn_request_def set_state_def)

lemma sample_conn_state [simp]: "m_conn_state sample_conn = kConnecting"
  by (simp add: sample_conn_def TcpConnection_init_def)

lemma established_sample: "connect_established True sample_conn = Inr (sample_up, [Conn_callback kConnected])"
  by (simp add: connect_established_def sample_up_def massert_def Let_def)

lemma sent_sample:
  obtains c where "send_string_piece True ''hi'' sample_up = Inr (c, [Accepted ''hi''])" "conn_inv c"
    "m_conn_state c = kConnected" "contents (m_output_buffer c) = ''hi''" "m_zero_copier_ptr c = None" "is_writing (m_channel c)"
proof -
  obtain b where b: "append_bytes ''hi'' (Buffer_init kInitialSize) = Inr b" "buf_inv b" "contents b = ''hi''"
    using append_bytes_spec [of "Buffer_init kInitialSize" "''hi''"] by auto
  let ?c = "conn_request Want_to_write (sample_up\<lparr>m_output_buffer := b\<rparr>)"
  have "send_string_piece True ''hi'' sample_up = Inr (?c, [Accepted ''hi''])"
    using b(1) by (simp add: send_string_piece_def send_in_reactor_def send_bytes_in_reactor_def massert_def Let_def)
  moreover have "conn_inv ?c" using sample_up_simps(13) b(2) by (simp add: conn_inv_def)
  ultimately show thesis using that b by simp
qed

lemma event_POLLOUT:
  assumes "m_write_callback (m_channel c)"
  shows "conn_handle_event t POLLOUT readv wr io c =
     handle_socket_writable True wr io (c\<lparr>m_channel := set_revents POLLOUT (m_channel c)\<rparr>)"
proof -
  have "handle_event True t (set_revents POLLOUT (m_channel c)) = [WriteCb]"
    using assms by (simp add: handle_event_def handle_event_with_guard_def set_revents_def event_defs)
  moreover have "cbind m (conn_callbacks_run readv wr io []) = m" for m by (cases m) (auto simp: cbind_def)
  ultimately show ?thesis by (simp add: conn_handle_event_def Let_def)
qed

lemma write_callback_request [simp]: "m_write_callback (channel_request r ch) = m_write_callback ch"
  by (simp add: channel_request_def chan_set_events_def)

lemma shutdown_sample:
  obtains c where "conn_run [Op_established, Op_send True ''hi'', Op_shutdown True] sample_conn =
      Inr (c, [Conn_callback kConnected, Accepted ''hi''])" "conn_legal_run sample_ops sample_conn"
    "conn_inv c" "m_conn_state c = kDisconnecting" "contents (m_output_buffer c) = ''hi''" "m_zero_copier_ptr c = None"
    "is_writing (m_channel c)"
proof -
  obtain c where c: "send_string_piece True ''hi'' sample_up = Inr (c, [Accepted ''hi''])" "conn_inv c"
    "m_conn_state c = kConnected" "contents (m_output_buffer c) = ''hi''" "m_zero_copier_ptr c = None" "is_writing (m_channel c)"
    by (rule sent_sample)
  let ?c = "set_state kDisconnecting c"
  have sh: "shutdown True c = Inr (?c, [])" using c by (simp add: shutdown_def shutdown_in_reactor_def)
  have op: "conn_legal (Op_event 1 POLLOUT reads_nothing takes_all (io_sends 0)) ?c"
    using c by (simp add: takes_all_def event_defs)
  then have "returns (conn_handle_event 1 POLLOUT reads_nothing takes_all (io_sends 0) ?c)"
    using c by (intro event_returns) simp_all
  then have "conn_legal_run sample_ops sample_conn"
    using op c sh by (auto simp: sample_ops_def established_sample returns_def)
  moreover have "conn_run [Op_established, Op_send True ''hi'', Op_shutdown True] sample_conn =
      Inr (?c, [Conn_callback kConnected, Accepted ''hi''])"
    using c sh by (simp add: established_sample cbind_def)
  ultimately show thesis using that c by simp
qed



text \<open>
  C11: The states of a connection only advance, from connecting over connected and disconnecting to disconnected,
  and the connection callback runs exactly once when the connection comes up and exactly once when it goes
  down, whatever combination of peer close, forced close, shutdown and destruction brings it down.
\<close>

theorem tcp_callbacks_once:
  assumes "conn_run ops (TcpConnection_init name fd wc hw g) = Inr (c, evs)" and "conn_run ops' c = Inr (c', evs')"
  shows "conn_callbacks evs = conn_phase (m_conn_state c) \<and> conn_callbacks (evs @ evs') = conn_phase (m_conn_state c') \<and>
         conn_rank (m_conn_state c) \<le> conn_rank (m_conn_state c')"
proof -
  have "m_conn_state (TcpConnection_init name fd wc hw g) = kConnecting" by (simp add: TcpConnection_init_def)
  moreover from sim_run [of "TcpConnection_init name fd wc hw g" ops] assms(1)
  have "conn_inv c" "conn_phase (m_conn_state (TcpConnection_init name fd wc hw g)) + conn_callbacks evs = conn_phase (m_conn_state c)"
    by (simp_all add: conn_sim_def)
  ultimately show ?thesis using sim_run [of c ops'] assms(2) by (simp add: conn_sim_def)
qed

theorem tcp_callbacks_once_witness:
  "\<exists>c c' evs'. conn_run [Op_established, Op_send True ''hi'', Op_shutdown True] sample_conn =
      Inr (c, [Conn_callback kConnected, Accepted ''hi'']) \<and>
     conn_run [Op_task Force_close_in_reactor] c = Inr (c', evs') \<and> m_conn_state c' = kDisconnected \<and>
     conn_callbacks ([Conn_callback kConnected, Accepted ''hi''] @ evs') = 2"
proof -
  obtain c where c: "conn_run [Op_established, Op_send True ''hi'', Op_shutdown True] sample_conn =
      Inr (c, [Conn_callback kConnected, Accepted ''hi''])" "m_conn_state c = kDisconnecting"
    by (rule shutdown_sample)
  obtain c' evs' where c': "conn_run [Op_task Force_close_in_reactor] c = Inr (c', evs')" "m_conn_state c' = kDisconnected"
    using c(2) by (auto simp: force_close_in_reactor_def handle_close_def massert_def Let_def cbind_def)
  have "conn_callbacks ([Conn_callback kConnected, Accepted ''hi''] @ evs') = 2"
    using tcp_callbacks_once [OF c(1) [unfolded sample_conn_def] c'(1)] c'(2) by simp
  then show ?thesis using c c' by blast
qed

text \<open>
  C10: With no file to send, the output buffer drains: as many writable events that take at least one byte each
  as the buffer has bytes write the whole buffer, end the write interest, and send the half-close
  when the connection is shutting down.
\<close>

theorem tcp_output_drains:
  assumes "conn_inv c" and "m_zero_copier_ptr c = None" and "is_writing (m_channel c)"
    and "\<forall>(wr, io)\<in>set ws. (\<forall>k>0. 0 < wr k) \<and> (\<forall>k. wr k \<le> int k)"
    and "length (contents (m_output_buffer c)) \<le> length ws" and "ws \<noteq> []"
  shows "\<exists>c' evs. writable_events ws c = Inr (c', evs) \<and> contents (m_output_buffer c') = [] \<and>
     written_bytes evs = contents (m_output_buffer c) \<and> \<not> is_writing (m_channel c') \<and>
     (m_conn_state c = kDisconnecting \<longrightarrow> Shutdown_write \<in> set evs)"
  using drain_events [of c ws] assms by (auto simp: sending_buffer_def)

theorem tcp_output_drains_witness:
  "\<exists>c c' evs. conn_run [Op_established, Op_send True ''hi'', Op_shutdown True] sample_conn =
      Inr (c, [Conn_callback kConnected, Accepted ''hi'']) \<and>
     writable_events [(takes_one, io_sends 0), (takes_one, io_sends 0)] c = Inr (c', evs) \<and>
     written_bytes evs = ''hi'' \<and> Shutdown_write \<in> set evs"
proof -
  obtain c where c: "conn_run [Op_established, Op_send True ''hi'', Op_shutdown True] sample_conn =
      Inr (c, [Conn_callback kConnected, Accepted ''hi''])" "conn_inv c" "m_conn_state c = kDisconnecting"
    "contents (m_output_buffer c) = ''hi''" "m_zero_copier_ptr c = None" "is_writing (m_channel c)"
    by (rule shutdown_sample)
  with tcp_output_drains [of c "[(takes_one, io_sends 0), (takes_one, io_sends 0)]"]
  have "\<exists>c' evs. writable_events [(takes_one, io_sends 0), (takes_one, io_sends 0)] c = Inr (c', evs) \<and>
     written_bytes evs = ''hi'' \<and> Shutdown_write \<in> set evs"
    by (auto simp: takes_one_def simp del: writable_events.simps)
  with c(1) show ?thesis by blast
qed

text \<open>
  A connection that is in the middle of a file when bytes are sent makes no more progress: the buffer is
  written only while no file is being sent, and the file is continued only while the buffer is empty.
  However many writable events arrive, nothing is written and nothing changes.
\<close>

theorem tcp_file_stalls:
  assumes "conn_inv c" and "m_sending_state c = kSendingFile" and "contents (m_output_buffer c) \<noteq> []"
  shows "writable_events ws c = Inr (c, [])"
proof -
  have "content_bytes_len (m_output_buffer c) \<noteq> 0" using assms by (simp add: conn_inv_def content_len_0)
  then have "handle_socket_writable True wr io c = Inr (c, [])" for wr io
    using assms(2)
    by (simp add: handle_socket_writable_def writable_buffer_part_def writable_file_part_def writable_finish_part_def cbind_def
        split: option.split)
  then show ?thesis by (induction ws) (auto simp: cbind_def)
qed

theorem tcp_file_stalls_witness:
  "\<exists>c evs. conn_run [Op_established, Op_zero_copy (ZeroCopier_init undefined ''f'' (Some ''abcd'')),
        Op_event 1 POLLOUT reads_nothing takes_all (io_sends 2), Op_send True ''x''] sample_conn = Inr (c, evs) \<and>
     contents (m_output_buffer c) = ''x'' \<and>
     writable_events [(takes_all, io_sends 2), (takes_all, io_sends 2)] c = Inr (c, [])"
proof -
  let ?ops = "[Op_established, Op_zero_copy (ZeroCopier_init undefined ''f'' (Some ''abcd'')),
        Op_event 1 POLLOUT reads_nothing takes_all (io_sends 2), Op_send True ''x'']"
  obtain b where b: "append_bytes ''x'' (Buffer_init kInitialSize) = Inr b" "contents b = ''x''"
    using append_bytes_spec [of "Buffer_init kInitialSize" "''x''"] by auto
  have len: "content_bytes_len (Buffer_init kInitialSize) = 0" by (simp add: Buffer_init_asserts)
  obtain c evs where c: "conn_run ?ops sample_conn = Inr (c, evs)" "m_sending_state c = kSendingFile" "m_output_buffer c = b"
    using b(1) len
    by (simp add: established_sample enable_zero_copy_def cbind_def event_POLLOUT Let_def handle_socket_writable_def writable_buffer_part_def
        write_socket_from_buffer_def transfer_sending_state_def writable_file_part_def writable_finish_part_def
        zc_eval io_sends_def send_string_piece_def send_in_reactor_def send_bytes_in_reactor_def massert_def)
  have "conn_inv c" using sim_run [of sample_conn ?ops] c(1)
    by (simp add: conn_sim_def sample_conn_def del: conn_run.simps)
  then have "writable_events [(takes_all, io_sends 2), (takes_all, io_sends 2)] c = Inr (c, [])"
    using tcp_file_stalls [of c] c(2,3) b(2) by (simp del: writable_events.simps)
  with c b show ?thesis by blast
qed

text \<open>
  A connection closed by the timer of \<^verbatim>\<open>shutdown_and_force_close_after\<close> fails an assertion when the end of the
  peer's stream is reported in the same round: the timer closes it at once, and the read handler that follows
  closes it again. Destroying a connection that is shutting down fails an assertion, too, because its
  interest is dropped only in the connected state.
\<close>

theorem tcp_double_close_fails:
  assumes "m_conn_state c = kDisconnecting" and "buf_inv (m_input_buffer c)" and "readv (read_iovs (m_input_buffer c)) = Inr []"
  shows "(\<exists>c' evs. conn_task_run Force_close_in_reactor c = Inr (c', evs) \<and>
            handle_socket_readable True readv c' =
              Inl (AssertFailed ''m_conn_state == kConnected || m_conn_state == kDisconnecting'')) \<and>
         (\<not> is_none_event (m_channel c) \<longrightarrow> connect_destroyed True c = Inl (AssertFailed ''is_none_event()''))"
proof -
  obtain b where "read_all_from readv (m_input_buffer c) = Inr (0, None, b)"
    using read_all_from_spec [of "m_input_buffer c" readv "[]"] assms(2,3) by auto
  then show ?thesis using assms(1)
    by (auto simp: force_close_in_reactor_def handle_close_def massert_def Let_def handle_socket_readable_def connect_destroyed_def)
qed

theorem tcp_double_close_fails_witness:
  "\<exists>c. conn_run [Op_established, Op_shutdown_and_force_close True 1] sample_conn =
      Inr (c, [Conn_callback kConnected, Shutdown_write, Run_after 1 Force_close_in_reactor]) \<and>
     (\<exists>c' evs. conn_task_run Force_close_in_reactor c = Inr (c', evs) \<and>
       handle_socket_readable True reads_end c' =
         Inl (AssertFailed ''m_conn_state == kConnected || m_conn_state == kDisconnecting'')) \<and>
     connect_destroyed True c = Inl (AssertFailed ''is_none_event()'')"
proof -
  let ?c = "set_state kDisconnecting sample_up"
  have "conn_run [Op_established, Op_shutdown_and_force_close True 1] sample_conn =
      Inr (?c, [Conn_callback kConnected, Shutdown_write, Run_after 1 Force_close_in_reactor])"
    by (simp add: established_sample cbind_def shutdown_and_force_close_after_def
        shutdown_and_force_close_in_reactor_after_def Let_def)
  moreover note tcp_double_close_fails [of ?c reads_end]
  ultimately show ?thesis by (simp add: reads_end_def)
qed

end
