(* ===== verification/Sorted_Map.thy ===== *)
theory Sorted_Map
  imports Main
begin

text \<open>
  \<^verbatim>\<open>std::map\<close> as an association list in the order of its keys: subscripting with assignment, \<^verbatim>\<open>find\<close> and \<^verbatim>\<open>erase\<close>. The
  headers of a response and the connections of a server are such maps.
\<close>

fun map_put :: "('k :: linorder) \<Rightarrow> 'v \<Rightarrow> ('k \<times> 'v) list \<Rightarrow> ('k \<times> 'v) list" where
  "map_put k v [] = [(k, v)]"
| "map_put k v ((k', v') # m) =
     (if k = k' then (k, v) # m else if k < k' then (k, v) # (k', v') # m else (k', v') # map_put k v m)"

definition map_find :: "('k :: linorder) \<Rightarrow> ('k \<times> 'v) list \<Rightarrow> 'v option" where
  "map_find k m = map_of m k"

definition map_erase :: "('k :: linorder) \<Rightarrow> ('k \<times> 'v) list \<Rightarrow> nat \<times> ('k \<times> 'v) list" where
  "map_erase k m = (length (filter (\<lambda>e. fst e = k) m), filter (\<lambda>e. fst e \<noteq> k) m)"

definition map_inv :: "(('k :: linorder) \<times> 'v) list \<Rightarrow> bool" where
  "map_inv m \<longleftrightarrow> sorted (map fst m) \<and> distinct (map fst m)"

lemma map_inv_Cons: "map_inv (e # m) \<longleftrightarrow> (\<forall>k\<in>fst ` set m. fst e < k) \<and> map_inv m"
  by (auto simp: map_inv_def order.strict_iff_order)

lemma map_inv_Nil [simp]: "map_inv []"
  by (simp add: map_inv_def)

lemma keys_put: "fst ` set (map_put k v m) = insert k (fst ` set m)"
  by (induction k v m rule: map_put.induct) auto

lemma map_inv_put [simp]: "map_inv m \<Longrightarrow> map_inv (map_put k v m)"
  by (induction k v m rule: map_put.induct) (auto simp: map_inv_Cons keys_put)

lemma map_inv_erase [simp]: "map_inv m \<Longrightarrow> map_inv (snd (map_erase k m))"
  by (induction m) (auto simp: map_erase_def map_inv_Cons)

lemma find_put: "map_find k' (map_put k v m) = (if k' = k then Some v else map_find k' m)"
  by (induction k v m rule: map_put.induct) (auto simp: map_find_def)

lemma find_erase: "map_find k' (snd (map_erase k m)) = (if k' = k then None else map_find k' m)"
  by (induction m) (auto simp: map_find_def map_erase_def)

lemma erase_count: "map_inv m \<Longrightarrow> fst (map_erase k m) = (if map_find k m = None then 0 else 1)"
proof (induction m)
  case (Cons e m)
  show ?case
  proof (cases "fst e = k")
    case True
    then have "filter (\<lambda>e. fst e = k) m = []"
      using Cons.prems True by (force simp: map_inv_Cons filter_empty_conv)
    then show ?thesis using True by (cases e) (simp add: map_erase_def map_find_def)
  next
    case False
    then show ?thesis using Cons by (cases e) (simp add: map_erase_def map_find_def map_inv_Cons)
  qed
qed (simp add: map_erase_def map_find_def)

end
