(* ===== verification/Http.thy ===== *)
theory Http
  imports TcpConnection Cformat Timestamp Sorted_Map "HOL-Library.List_Lexorder" "HOL-Library.Char_ord"
begin

text \<open>
  The HTTP server of flute/net/http: HttpRequest.h, HttpContext.h and HttpContext.cc (the incremental parser of a
  request), HttpResponse.h and HttpResponse.cc (the serialisation of a response) and HttpServer.cc (the
  callbacks that tie them to a connection). A range of characters between two pointers into the buffer is the list
  of those characters. The parser's loop is a partial function: not returning is the value \<open>None\<close>. The
  response callback of the user is an argument. Of the log lines nothing is modelled.
\<close>

section \<open>Requests\<close>

datatype http_method = kInvalid | kGet | kPost | kHead | kPut | kDelete
datatype http_version = kUnknown | kHttp10 | kHttp11

record http_request =
  req_method :: http_method
  req_version :: http_version
  req_path :: string
  req_query :: string
  req_receive_time :: timestamp
  req_headers :: "string \<rightharpoonup> string"

definition HttpRequest_init :: http_request where
  "HttpRequest_init =
     \<lparr> req_method = kInvalid, req_version = kUnknown, req_path = [], req_query = [], req_receive_time = ts_invalid,
       req_headers = Map.empty \<rparr>"

definition set_method :: "string \<Rightarrow> http_request \<Rightarrow> (bool \<times> http_request) res" where
  "set_method m r =
     massert (req_method r = kInvalid) ''m_method == kInvalid''
       (let meth = (if m = ''GET'' then kGet else if m = ''POST'' then kPost else if m = ''HEAD'' then kHead
                    else if m = ''PUT'' then kPut else if m = ''DELETE'' then kDelete else kInvalid)
        in Inr (meth \<noteq> kInvalid, r\<lparr>req_method := meth\<rparr>))"

fun method_string :: "http_method \<Rightarrow> string" where
  "method_string kGet = ''GET''"
| "method_string kPost = ''POST''"
| "method_string kHead = ''HEAD''"
| "method_string kPut = ''PUT''"
| "method_string kDelete = ''DELETE''"
| "method_string kInvalid = ''UNKNOWN''"

text \<open>\<^verbatim>\<open>isspace\<close> in the C locale.\<close>

definition cpp_isspace :: "char \<Rightarrow> bool" where
  "cpp_isspace c \<longleftrightarrow> (let n = of_char c :: nat in n = 32 \<or> 9 \<le> n \<and> n \<le> 13)"

text \<open>\<open>line\<close> is the range from \<^verbatim>\<open>start\<close> to \<^verbatim>\<open>end\<close>, \<open>colon\<close> an index into it.\<close>

definition add_header :: "string \<Rightarrow> nat \<Rightarrow> http_request \<Rightarrow> http_request" where
  "add_header line colon r =
     (let field = take colon line;
          value1 = dropWhile cpp_isspace (drop (colon + 1) line);
          value2 = rev (dropWhile cpp_isspace (rev value1))
      in r\<lparr>req_headers := (req_headers r)(field \<mapsto> value2)\<rparr>)"

definition get_header :: "string \<Rightarrow> http_request \<Rightarrow> string" where
  "get_header field r = (case req_headers r field of Some v \<Rightarrow> v | None \<Rightarrow> [])"

section \<open>Parsing\<close>

datatype parse_state = kExpectRequestLine | kExpectHeaders | kExpectBody | kGotAll

record http_context =
  ctx_state :: parse_state
  ctx_request :: http_request

definition HttpContext_init :: http_context where
  "HttpContext_init = \<lparr> ctx_state = kExpectRequestLine, ctx_request = HttpRequest_init \<rparr>"

definition got_all :: "http_context \<Rightarrow> bool" where
  "got_all ctx \<longleftrightarrow> ctx_state ctx = kGotAll"

definition http_reset :: "http_context \<Rightarrow> http_context" where
  "http_reset ctx = \<lparr> ctx_state = kExpectRequestLine, ctx_request = HttpRequest_init \<rparr>"

definition process_request_line :: "string \<Rightarrow> http_request \<Rightarrow> (bool \<times> http_request) res" where
  "process_request_line line r =
     (let space = cpp_find (CHR '' '') line
      in if space = length line then Inr (False, r)
         else rbind (set_method (take space line) r) (\<lambda>(ok, r).
           if \<not> ok then Inr (False, r)
           else let line = drop (space + 1) line; space = cpp_find (CHR '' '') line
           in if space = length line then Inr (False, r)
              else let target = take space line; question = cpp_find (CHR ''?'') target;
                       r = (if question \<noteq> length target
                            then r\<lparr> req_path := take question target, req_query := drop question target \<rparr>
                            else r\<lparr> req_path := target \<rparr>);
                       version = drop (space + 1) line
              in if length version = 8 \<and> take 7 version = ''HTTP/1.''
                 then if last version = CHR ''1'' then Inr (True, r\<lparr>req_version := kHttp11\<rparr>)
                      else if last version = CHR ''0'' then Inr (True, r\<lparr>req_version := kHttp10\<rparr>)
                      else Inr (False, r)
                 else Inr (False, r)))"

partial_function (option) parse_loop ::
    "timestamp \<Rightarrow> bool \<Rightarrow> http_context \<Rightarrow> buffer \<Rightarrow> (bool \<times> http_context \<times> buffer) res option" where
  "parse_loop t ok ctx b =
     (case ctx_state ctx of
        kExpectRequestLine \<Rightarrow>
          (case find_CRLF b of
             None \<Rightarrow> Some (Inr (ok, ctx, b))
           | Some crlf \<Rightarrow>
               (case process_request_line (bytes_between b (m_read_idx b) crlf) (ctx_request ctx) of
                  Inl e \<Rightarrow> Some (Inl e)
                | Inr (ok, r) \<Rightarrow>
                    if ok
                    then (case retrieve_until (crlf + 2) b of
                            Inl e \<Rightarrow> Some (Inl e)
                          | Inr b \<Rightarrow> parse_loop t ok \<lparr> ctx_state = kExpectHeaders, ctx_request = r\<lparr>req_receive_time := t\<rparr> \<rparr> b)
                    else Some (Inr (ok, ctx\<lparr>ctx_request := r\<rparr>, b))))
      | kExpectHeaders \<Rightarrow>
          (case find_CRLF b of
             None \<Rightarrow> Some (Inr (ok, ctx, b))
           | Some crlf \<Rightarrow>
               (let line = bytes_between b (m_read_idx b) crlf; colon = cpp_find (CHR '':'') line
                in if colon \<noteq> length line
                   then (case retrieve_until (crlf + 2) b of
                           Inl e \<Rightarrow> Some (Inl e)
                         | Inr b \<Rightarrow> parse_loop t ok (ctx\<lparr>ctx_request := add_header line colon (ctx_request ctx)\<rparr>) b)
                   else (case retrieve_until (crlf + 2) b of
                           Inl e \<Rightarrow> Some (Inl e)
                         | Inr b \<Rightarrow> Some (Inr (ok, ctx\<lparr>ctx_state := kGotAll\<rparr>, b)))))
      | kExpectBody \<Rightarrow> parse_loop t ok ctx b
      | kGotAll \<Rightarrow> Some (Inr (False, ctx, b)))"

definition parse_request :: "timestamp \<Rightarrow> http_context \<Rightarrow> buffer \<Rightarrow> (bool \<times> http_context \<times> buffer) res option" where
  "parse_request t ctx b = parse_loop t False ctx b"

section \<open>Responses\<close>

datatype body_type = kHtml | kJPEG | kUnSupported
datatype status_code = kUnknownStatus | k200Ok | k301MovedPermanently | k400BadRequest | k404NotFound

fun status_int :: "status_code \<Rightarrow> int" where
  "status_int kUnknownStatus = 0"
| "status_int k200Ok = 200"
| "status_int k301MovedPermanently = 301"
| "status_int k400BadRequest = 400"
| "status_int k404NotFound = 404"

text \<open>The headers of a response are iterated in the order of their keys: a sorted association list.\<close>

record http_response =
  resp_headers :: "(string \<times> string) list"
  resp_status_code :: status_code
  resp_status_message :: string
  resp_zero_copier_ptr :: "zero_copier option"
  resp_will_close :: bool
  resp_body :: string
  resp_body_type :: body_type

definition HttpResponse_init :: "bool \<Rightarrow> http_response" where
  "HttpResponse_init close =
     \<lparr> resp_headers = [], resp_status_code = kUnknownStatus, resp_status_message = [], resp_zero_copier_ptr = None,
       resp_will_close = close, resp_body = [], resp_body_type = kHtml \<rparr>"

definition resp_add_header :: "string \<Rightarrow> string \<Rightarrow> http_response \<Rightarrow> http_response" where
  "resp_add_header key value r = r\<lparr>resp_headers := map_put key value (resp_headers r)\<rparr>"

definition set_status_code :: "status_code \<Rightarrow> http_response \<Rightarrow> http_response" where
  "set_status_code code r = r\<lparr>resp_status_code := code\<rparr>"

definition set_status_message :: "string \<Rightarrow> http_response \<Rightarrow> http_response" where
  "set_status_message message r = r\<lparr>resp_status_message := message\<rparr>"

definition set_close_conn :: "bool \<Rightarrow> http_response \<Rightarrow> http_response" where
  "set_close_conn on r = r\<lparr>resp_will_close := on\<rparr>"

definition set_content_type :: "string \<Rightarrow> http_response \<Rightarrow> http_response" where
  "set_content_type contentType r = resp_add_header ''Content-Type'' contentType r"

definition set_body :: "string \<Rightarrow> http_response \<Rightarrow> http_response" where
  "set_body body r = r\<lparr> resp_body := body, resp_body_type := kHtml, resp_zero_copier_ptr := None \<rparr>"

text \<open>\<open>z\<close> is the copier that \<^verbatim>\<open>new ZeroCopier(path)\<close> constructs.\<close>

definition set_zerocopy :: "zero_copier \<Rightarrow> http_response \<Rightarrow> http_response" where
  "set_zerocopy z r = r\<lparr> resp_zero_copier_ptr := Some z, resp_body_type := kJPEG, resp_body := [] \<rparr>"

definition content_length :: "http_response \<Rightarrow> nat res" where
  "content_length r =
     (case resp_body_type r of
        kHtml \<Rightarrow> Inr (length (resp_body r))
      | kJPEG \<Rightarrow> (case resp_zero_copier_ptr r of
                   None \<Rightarrow> Inl (Undefined ''null m_zero_copier_ptr'')
                 | Some z \<Rightarrow> Inr (zc_total_bytes z))
      | kUnSupported \<Rightarrow> Inr 0)"

fun append_all :: "string list \<Rightarrow> buffer \<Rightarrow> buffer res" where
  "append_all [] b = Inr b"
| "append_all (s # ss) b = rbind (append_bytes s b) (append_all ss)"

definition conn_header_pieces :: "http_response \<Rightarrow> string list res" where
  "conn_header_pieces r =
     (if resp_will_close r then Inr [''Connection: close'' @ kCRLF]
      else rbind (content_length r) (\<lambda>n.
           Inr [snprintf 32 (''Content-Length: '' @ dec_int (int n) @ kCRLF), ''Connection: Keep-Alive'' @ kCRLF]))"

definition append_to_buffer :: "http_response \<Rightarrow> buffer \<Rightarrow> buffer res" where
  "append_to_buffer r b =
     rbind (append_all [snprintf 32 (''HTTP/1.1 '' @ dec_int (status_int (resp_status_code r)) @ '' ''),
                        resp_status_message r, kCRLF] b) (\<lambda>b.
     rbind (conn_header_pieces r) (\<lambda>conn_headers.
     rbind (append_all conn_headers b)
       (append_all (concat (map (\<lambda>(k, v). [k, '': '', v, kCRLF]) (resp_headers r)) @ [kCRLF, resp_body r]))))"

definition response_404 :: http_response where
  "response_404 = set_status_message ''Not Found'' (set_status_code k404NotFound (HttpResponse_init True))"

definition response_400 :: http_response where
  "response_400 = set_status_message ''Bad Request'' (set_status_code k400BadRequest (HttpResponse_init True))"

section \<open>The server\<close>

definition dummy_404_callback :: "http_request \<Rightarrow> http_response \<Rightarrow> http_response" where
  "dummy_404_callback req resp = set_close_conn True (set_status_message ''Not Found'' (set_status_code k404NotFound resp))"

text \<open>\<^verbatim>\<open>on_connection\<close>: the context pointer of the connection, a new context when the connection comes up.\<close>

definition on_connection :: "tcp_conn \<Rightarrow> http_context option \<Rightarrow> http_context option" where
  "on_connection c ctx = (if conn_connected c then Some HttpContext_init else ctx)"

definition send_response :: "http_response \<Rightarrow> tcp_conn \<Rightarrow> conn_result" where
  "send_response r c =
     rbind (append_to_buffer r (Buffer_init kInitialSize)) (\<lambda>b.
     rbind (send_buffer True b c) (\<lambda>(b, c, evs). Inr (c, evs)))"

definition on_good_request :: "(http_request \<Rightarrow> http_response \<Rightarrow> http_response) \<Rightarrow> http_request \<Rightarrow> tcp_conn \<Rightarrow> conn_result" where
  "on_good_request cb req c =
     (let connection = get_header ''Connection'' req;
          close = (connection = ''close'' \<or> req_version req = kHttp10 \<and> connection \<noteq> ''Keep-Alive'');
          response = cb req (HttpResponse_init close)
      in cbind (send_response response c) (\<lambda>c.
         cbind (if resp_body_type response = kJPEG
                then case resp_zero_copier_ptr response of
                       None \<Rightarrow> Inl (Undefined ''null m_zero_copier_ptr'')
                     | Some z \<Rightarrow> enable_zero_copy z c
                else Inr (c, [])) (\<lambda>c.
         if resp_will_close response then shutdown True c else Inr (c, []))))"

definition on_bad_request :: "tcp_conn \<Rightarrow> conn_result" where
  "on_bad_request c = cbind (send_response response_400 c) (shutdown True)"

definition default_on_request ::
    "(http_request \<Rightarrow> http_response \<Rightarrow> http_response) \<Rightarrow> timestamp \<Rightarrow> http_context \<Rightarrow> tcp_conn \<Rightarrow>
     (http_context \<times> tcp_conn \<times> conn_event list) res option" where
  "default_on_request cb t ctx c =
     (if peek_last_as_string (m_input_buffer c) 4 \<noteq> kCRLF @ kCRLF then Some (Inr (ctx, c, []))
      else case parse_request t ctx (m_input_buffer c) of
             None \<Rightarrow> None
           | Some res \<Rightarrow> Some (rbind res (\<lambda>(ok, ctx, buf).
               let c = c\<lparr>m_input_buffer := buf\<rparr>
               in rbind (if ok then Inr (c, []) else on_bad_request c) (\<lambda>(c, evs).
                  if got_all ctx
                  then rbind (on_good_request cb (ctx_request ctx) c) (\<lambda>(c, evs'). Inr (http_reset ctx, c, evs @ evs'))
                  else Inr (ctx, c, evs)))))"

section \<open>Lines\<close>

lemma cpp_search_line: "CHR 0x0D \<notin> set line \<Longrightarrow> cpp_search kCRLF (line @ kCRLF @ rest) = length line"
proof (induction line)
  case Nil
  then show ?case by (simp add: kCRLF_def)
next
  case (Cons c line)
  then have "take (length kCRLF) (c # line @ kCRLF @ rest) \<noteq> kCRLF" by (auto simp: kCRLF_def)
  with Cons show ?case by simp
qed

text \<open>A line that is at the front of a buffer is found and consumed.\<close>

lemma crlf_line:
  assumes "buf_inv b" and "contents b = line @ kCRLF @ rest" and "CHR 0x0D \<notin> set line"
  obtains p b' where "find_CRLF b = Some p" "bytes_between b (m_read_idx b) p = line"
    "retrieve_until (p + 2) b = Inr b'" "buf_inv b'" "contents b' = rest"
proof -
  let ?p = "m_read_idx b + length line"
  have len: "length line + 2 + length rest = m_write_idx b - m_read_idx b" "m_read_idx b \<le> m_write_idx b"
    using length_contents [OF assms(1)] assms(1,2) by (auto simp: content_bytes_len_def kCRLF_def buf_inv_def)
  then have two: "?p + 2 \<le> m_write_idx b" by linarith
  have f: "find_CRLF b = Some ?p"
    using cpp_search_line [OF assms(3), of rest] assms(2) len by (simp add: find_CRLF_def Let_def)
  moreover have "bytes_between b (m_read_idx b) ?p = line"
    using bytes_between_prefix [OF assms(1), of "length line"] assms(2) length_contents [OF assms(1)] by simp
  moreover obtain b' where "retrieve_until (?p + 2) b = Inr b'" "buf_inv b'" "contents b' = rest"
    using retrieve_until_spec [OF assms(1), of "?p + 2"] two assms(2) by (auto simp: kCRLF_def)
  ultimately show thesis using that by blast
qed

text \<open>Whatever line end is found, consuming it leaves what follows.\<close>

lemma crlf_found:
  assumes "buf_inv b" and "find_CRLF b = Some p"
  obtains line rest b' where "contents b = line @ kCRLF @ rest" "bytes_between b (m_read_idx b) p = line"
    "retrieve_until (p + 2) b = Inr b'" "buf_inv b'" "contents b' = rest"
proof -
  note hit = find_CRLF_Some [OF assms]
  obtain b' where b': "retrieve_until (p + 2) b = Inr b'" "buf_inv b'" "contents b' = drop (p + 2 - m_read_idx b) (contents b)"
    using retrieve_until_spec [OF assms(1), of "p + 2"] hit by auto
  have "bytes_between b (m_read_idx b) (m_read_idx b + (p - m_read_idx b)) = take (p - m_read_idx b) (contents b)"
    using hit by (intro bytes_between_prefix [OF assms(1)]) (auto simp: content_bytes_len_def intro!: diff_le_mono)
  then have "bytes_between b (m_read_idx b) p = take (p - m_read_idx b) (contents b)"
    using hit by (metis le_add_diff_inverse)
  from that [OF conjunct2 [OF conjunct2 [OF hit]] this b'] show thesis .
qed

section \<open>The parser returns\<close>

lemma returns_if: "returns a \<Longrightarrow> returns b \<Longrightarrow> returns (if P then a else b)"
  by simp

lemma process_request_line_returns:
  assumes "req_method r = kInvalid"
  shows "\<exists>ok r'. process_request_line line r = Inr (ok, r')"
proof -
  have "\<exists>x. set_method m r = Inr x" for m using assms by (simp add: set_method_def Let_def)
  then obtain ok r' where "set_method (take (cpp_find (CHR '' '') line) line) r = Inr (ok, r')" by (metis surj_pair)
  note set = this
  have "returns (process_request_line line r)"
    unfolding process_request_line_def Let_def
    apply (intro returns_if returns_Inr)
    apply (rule returns_rbind [OF set])
    apply (simp only: prod.case)
    apply (intro returns_if returns_Inr)
    done
  then show ?thesis by (auto simp: returns_def)
qed

text \<open>One turn of the loop, by what it meets.\<close>

lemma parse_stops:
  "ctx_state ctx = kGotAll \<Longrightarrow> parse_loop t ok ctx b = Some (Inr (False, ctx, b))"
  "ctx_state ctx = kExpectRequestLine \<or> ctx_state ctx = kExpectHeaders \<Longrightarrow> find_CRLF b = None \<Longrightarrow>
     parse_loop t ok ctx b = Some (Inr (ok, ctx, b))"
  by (subst parse_loop.simps, auto)+

lemma parse_request_line:
  assumes "ctx_state ctx = kExpectRequestLine" and "find_CRLF b = Some p" and "bytes_between b (m_read_idx b) p = line"
    and "retrieve_until (p + 2) b = Inr b'"
  shows "parse_loop t ok ctx b =
     (case process_request_line line (ctx_request ctx) of
        Inl e \<Rightarrow> Some (Inl e)
      | Inr (ok, r) \<Rightarrow>
          if ok then parse_loop t True \<lparr> ctx_state = kExpectHeaders, ctx_request = r\<lparr>req_receive_time := t\<rparr> \<rparr> b'
          else Some (Inr (False, ctx\<lparr>ctx_request := r\<rparr>, b)))"
  using assms by (subst parse_loop.simps) (simp split: sum.split)

lemma parse_header_line:
  assumes "ctx_state ctx = kExpectHeaders" and "find_CRLF b = Some p" and "bytes_between b (m_read_idx b) p = line"
    and "retrieve_until (p + 2) b = Inr b'"
  shows "parse_loop t ok ctx b =
     (if cpp_find (CHR '':'') line \<noteq> length line
      then parse_loop t ok (ctx\<lparr>ctx_request := add_header line (cpp_find (CHR '':'') line) (ctx_request ctx)\<rparr>) b'
      else Some (Inr (ok, ctx\<lparr>ctx_state := kGotAll\<rparr>, b')))"
  using assms by (subst parse_loop.simps) simp

definition parse_ready :: "http_context \<Rightarrow> bool" where
  "parse_ready ctx \<longleftrightarrow>
     ctx_state ctx \<noteq> kExpectBody \<and> (ctx_state ctx = kExpectRequestLine \<longrightarrow> req_method (ctx_request ctx) = kInvalid)"

lemma parse_loop_returns:
  assumes "buf_inv b" and "parse_ready ctx"
  shows "\<exists>ok' ctx' b' used. parse_loop t ok ctx b = Some (Inr (ok', ctx', b')) \<and> buf_inv b' \<and>
     contents b = used @ contents b' \<and> ctx_state ctx' \<noteq> kExpectBody"
  using assms
proof (induction "length (contents b)" arbitrary: b ctx ok rule: less_induct)
  case less
  show ?case
  proof (cases "find_CRLF b")
    case None
    then show ?thesis using less.prems
      by (cases "ctx_state ctx") (auto simp: parse_stops parse_ready_def)
  next
    case (Some p)
    obtain line rest b' where l: "contents b = line @ kCRLF @ rest" "bytes_between b (m_read_idx b) p = line"
      "retrieve_until (p + 2) b = Inr b'" "buf_inv b'" "contents b' = rest"
      using crlf_found [OF less.prems(1) Some] by blast
    have rec: "\<exists>ok' ctx' b'' used. parse_loop t ok ctx2 b' = Some (Inr (ok', ctx', b'')) \<and> buf_inv b'' \<and>
       contents b = used @ contents b'' \<and> ctx_state ctx' \<noteq> kExpectBody" if r: "parse_ready ctx2" for ctx2 ok
    proof -
      have "length (contents b') < length (contents b)" using l by (simp add: kCRLF_def)
      from less.hyps [OF this l(4) r] obtain ok' ctx' b'' used where
        "parse_loop t ok ctx2 b' = Some (Inr (ok', ctx', b''))" "buf_inv b''" "contents b' = used @ contents b''"
        "ctx_state ctx' \<noteq> kExpectBody" by blast
      moreover from this l have "contents b = (line @ kCRLF @ used) @ contents b''" by simp
      ultimately show ?thesis by blast
    qed
    show ?thesis
    proof (cases "ctx_state ctx")
      case kExpectRequestLine
      with less.prems obtain ok' r where r: "process_request_line line (ctx_request ctx) = Inr (ok', r)"
        using process_request_line_returns [of "ctx_request ctx" line] by (auto simp: parse_ready_def)
      show ?thesis
        using rec [of "\<lparr> ctx_state = kExpectHeaders, ctx_request = r\<lparr>req_receive_time := t\<rparr> \<rparr>" True] kExpectRequestLine Some l r less.prems(1)
        by (cases ok') (auto simp: parse_request_line parse_ready_def)
    next
      case kExpectHeaders
      then show ?thesis
        using rec [of "ctx\<lparr>ctx_request := add_header line (cpp_find (CHR '':'') line) (ctx_request ctx)\<rparr>" ok] Some l less.prems(1)
        by (auto simp: parse_header_line parse_ready_def)
    next
      case kExpectBody
      then show ?thesis using less.prems by (simp add: parse_ready_def)
    next
      case kGotAll
      then show ?thesis using less.prems(1) by (auto simp: parse_stops)
    qed
  qed
qed

section \<open>Printing a request\<close>

text \<open>The wire format of a request; the parser is shown to invert it.\<close>

fun version_string :: "http_version \<Rightarrow> string" where
  "version_string kHttp10 = ''HTTP/1.0''"
| "version_string kHttp11 = ''HTTP/1.1''"
| "version_string kUnknown = []"

definition render_header :: "string \<times> string \<Rightarrow> string" where
  "render_header h = fst h @ '': '' @ snd h"

definition render_headers :: "(string \<times> string) list \<Rightarrow> string" where
  "render_headers hs = concat (map (\<lambda>h. render_header h @ kCRLF) hs) @ kCRLF"

definition render_request :: "http_method \<Rightarrow> string \<Rightarrow> http_version \<Rightarrow> (string \<times> string) list \<Rightarrow> string" where
  "render_request m target v hs = method_string m @ '' '' @ target @ '' '' @ version_string v @ kCRLF @ render_headers hs"

definition header_ok :: "string \<times> string \<Rightarrow> bool" where
  "header_ok h \<longleftrightarrow>
     CHR '':'' \<notin> set (fst h) \<and> CHR 0x0D \<notin> set (fst h) \<and> CHR 0x0D \<notin> set (snd h) \<and>
     (snd h \<noteq> [] \<longrightarrow> \<not> cpp_isspace (hd (snd h)) \<and> \<not> cpp_isspace (last (snd h)))"

definition request_ok :: "http_method \<Rightarrow> string \<Rightarrow> http_version \<Rightarrow> (string \<times> string) list \<Rightarrow> bool" where
  "request_ok m target v hs \<longleftrightarrow>
     m \<noteq> kInvalid \<and> v \<noteq> kUnknown \<and> CHR '' '' \<notin> set target \<and> CHR 0x0D \<notin> set target \<and> list_all header_ok hs"

definition request_of :: "timestamp \<Rightarrow> http_method \<Rightarrow> string \<Rightarrow> http_version \<Rightarrow> (string \<times> string) list \<Rightarrow> http_request" where
  "request_of t m target v hs =
     \<lparr> req_method = m, req_version = v, req_path = takeWhile (\<lambda>c. c \<noteq> CHR ''?'') target,
       req_query = dropWhile (\<lambda>c. c \<noteq> CHR ''?'') target, req_receive_time = t, req_headers = map_of (rev hs) \<rparr>"

lemma process_rendered_line:
  assumes "m \<noteq> kInvalid" and "v \<noteq> kUnknown" and "CHR '' '' \<notin> set target"
  shows "process_request_line (method_string m @ '' '' @ target @ '' '' @ version_string v) HttpRequest_init =
     Inr (True, request_of ts_invalid m target v [])"
proof -
  let ?line = "method_string m @ '' '' @ target @ '' '' @ version_string v"
  have m: "CHR '' '' \<notin> set (method_string m)" by (cases m) auto
  have sp: "cpp_find (CHR '' '') ?line = length (method_string m)" using cpp_find_append [OF m] by simp
  have sp2: "cpp_find (CHR '' '') (target @ '' '' @ version_string v) = length target"
    using cpp_find_append [OF assms(3)] by simp
  have meth: "set_method (method_string m) HttpRequest_init = Inr (True, HttpRequest_init\<lparr>req_method := m\<rparr>)"
    using assms(1) by (cases m) (simp_all add: set_method_def HttpRequest_init_def)
  have q: "(cpp_find (CHR ''?'') target \<noteq> length target) = (dropWhile (\<lambda>c. c \<noteq> CHR ''?'') target \<noteq> [])"
    by (auto simp: cpp_find_eq_length_iff)
  have tk: "take (cpp_find (CHR ''?'') target) target = takeWhile (\<lambda>c. c \<noteq> CHR ''?'') target"
    "drop (cpp_find (CHR ''?'') target) target = dropWhile (\<lambda>c. c \<noteq> CHR ''?'') target"
    by (simp_all add: cpp_find_takeWhile takeWhile_eq_take [symmetric] dropWhile_eq_drop [symmetric])
  have ver: "length (version_string v) = 8" "take 7 (version_string v) = ''HTTP/1.''"
    using assms(2) by (cases v; simp)+
  have "process_request_line ?line HttpRequest_init =
     (let r = (if dropWhile (\<lambda>c. c \<noteq> CHR ''?'') target \<noteq> []
               then HttpRequest_init\<lparr> req_method := m, req_path := takeWhile (\<lambda>c. c \<noteq> CHR ''?'') target,
                        req_query := dropWhile (\<lambda>c. c \<noteq> CHR ''?'') target \<rparr>
               else HttpRequest_init\<lparr> req_method := m, req_path := target \<rparr>)
      in if last (version_string v) = CHR ''1'' then Inr (True, r\<lparr>req_version := kHttp11\<rparr>)
         else if last (version_string v) = CHR ''0'' then Inr (True, r\<lparr>req_version := kHttp10\<rparr>) else Inr (False, r))"
    using sp sp2 meth q tk ver by (simp add: process_request_line_def Let_def)
  note step = this
  show ?thesis
  proof (cases "CHR ''?'' \<in> set target")
    case True
    then have "dropWhile (\<lambda>c. c \<noteq> CHR ''?'') target \<noteq> []" by auto
    with step show ?thesis using assms(2) by (cases v) (simp_all add: HttpRequest_init_def request_of_def)
  next
    case False
    then have e: "takeWhile (\<lambda>c. c \<noteq> CHR ''?'') target = target" "dropWhile (\<lambda>c. c \<noteq> CHR ''?'') target = []"
      by (auto simp: takeWhile_eq_all_conv)
    show ?thesis using step assms(2) unfolding request_of_def e by (cases v) (simp_all add: HttpRequest_init_def)
  qed
qed

lemma add_rendered_header:
  assumes "header_ok h"
  shows "add_header (render_header h) (cpp_find (CHR '':'') (render_header h)) r =
     r\<lparr>req_headers := (req_headers r)(fst h \<mapsto> snd h)\<rparr>"
proof -
  have c: "cpp_find (CHR '':'') (render_header h) = length (fst h)"
    using assms cpp_find_append [of "CHR '':''" "fst h"] by (simp add: header_ok_def render_header_def)
  have "cpp_isspace (CHR '' '')" by (simp add: cpp_isspace_def)
  then have "dropWhile cpp_isspace ('' '' @ snd h) = snd h"
    using assms by (cases "snd h") (simp_all add: header_ok_def)
  moreover have "rev (dropWhile cpp_isspace (rev (snd h))) = snd h"
    using assms by (cases "snd h" rule: rev_cases) (simp_all add: header_ok_def)
  ultimately show ?thesis using c by (simp add: add_header_def render_header_def)
qed

lemma parse_rendered_headers:
  assumes "buf_inv b" and "contents b = render_headers hs @ rest" and "list_all header_ok hs"
    and "ctx_state ctx = kExpectHeaders"
  shows "\<exists>b'. parse_loop t ok ctx b = Some (Inr (ok,
       \<lparr> ctx_state = kGotAll, ctx_request = (ctx_request ctx)\<lparr>req_headers := req_headers (ctx_request ctx) ++ map_of (rev hs)\<rparr> \<rparr>, b')) \<and>
     buf_inv b' \<and> contents b' = rest"
  using assms
proof (induction hs arbitrary: b ctx)
  case Nil
  then obtain p b' where l: "find_CRLF b = Some p" "bytes_between b (m_read_idx b) p = []"
    "retrieve_until (p + 2) b = Inr b'" "buf_inv b'" "contents b' = rest"
    using crlf_line [of b "[]" rest] by (auto simp: render_headers_def)
  have "ctx\<lparr>ctx_state := kGotAll\<rparr> = \<lparr> ctx_state = kGotAll, ctx_request = (ctx_request ctx)\<lparr>req_headers := req_headers (ctx_request ctx)\<rparr> \<rparr>"
    by simp
  with l Nil.prems(4) show ?case by (simp add: parse_header_line)
next
  case (Cons h hs)
  let ?line = "render_header h" and ?c = "cpp_find (CHR '':'') (render_header h)"
  have ok: "header_ok h" "list_all header_ok hs" using Cons.prems(3) by simp_all
  have "CHR 0x0D \<notin> set ?line" using ok(1) by (auto simp: header_ok_def render_header_def)
  then obtain p b1 where l: "find_CRLF b = Some p" "bytes_between b (m_read_idx b) p = ?line"
    "retrieve_until (p + 2) b = Inr b1" "buf_inv b1" "contents b1 = render_headers hs @ rest"
    using crlf_line [of b ?line "render_headers hs @ rest"] Cons.prems(1,2) by (auto simp: render_headers_def)
  have c: "?c \<noteq> length ?line"
    using ok(1) cpp_find_append [of "CHR '':''" "fst h"] by (simp add: header_ok_def render_header_def)
  let ?ctx = "ctx\<lparr>ctx_request := add_header ?line ?c (ctx_request ctx)\<rparr>"
  define M where "M = (req_headers (ctx_request ctx))(fst h \<mapsto> snd h)"
  have "parse_loop t ok ctx b = parse_loop t ok ?ctx b1"
    using l c Cons.prems(4) by (simp add: parse_header_line)
  moreover have "req_headers (ctx_request ctx) ++ map_of (rev (h # hs)) = M ++ map_of (rev hs)"
    unfolding M_def by (cases h) (simp add: map_add_assoc)
  moreover have "?ctx = ctx\<lparr>ctx_request := (ctx_request ctx)\<lparr>req_headers := M\<rparr>\<rparr>"
    unfolding M_def add_rendered_header [OF ok(1)] ..
  ultimately show ?case
    using Cons.IH [OF l(4,5) ok(2), of "ctx\<lparr>ctx_request := (ctx_request ctx)\<lparr>req_headers := M\<rparr>\<rparr>"] Cons.prems(4) by simp
qed

lemma parse_rendered:
  assumes "buf_inv b" and "contents b = render_request m target v hs @ rest" and "request_ok m target v hs"
  shows "\<exists>b'. parse_request t HttpContext_init b =
       Some (Inr (True, \<lparr> ctx_state = kGotAll, ctx_request = request_of t m target v hs \<rparr>, b')) \<and>
     buf_inv b' \<and> contents b' = rest"
proof -
  let ?line = "method_string m @ '' '' @ target @ '' '' @ version_string v"
  have "CHR 0x0D \<notin> set ?line" using assms(3) by (cases m; cases v) (simp_all add: request_ok_def)
  then obtain p b1 where l: "find_CRLF b = Some p" "bytes_between b (m_read_idx b) p = ?line"
    "retrieve_until (p + 2) b = Inr b1" "buf_inv b1" "contents b1 = render_headers hs @ rest"
    using crlf_line [of b ?line "render_headers hs @ rest"] assms(1,2) by (auto simp: render_request_def)
  let ?ctx = "\<lparr> ctx_state = kExpectHeaders, ctx_request = (request_of ts_invalid m target v [])\<lparr>req_receive_time := t\<rparr> \<rparr>"
  have "process_request_line ?line HttpRequest_init = Inr (True, request_of ts_invalid m target v [])"
    using assms(3) by (intro process_rendered_line) (simp_all add: request_ok_def)
  then have "parse_request t HttpContext_init b = parse_loop t True ?ctx b1"
    using parse_request_line [OF _ l(1-3), of HttpContext_init t False] by (simp add: parse_request_def HttpContext_init_def)
  moreover have "list_all header_ok hs" using assms(3) by (simp add: request_ok_def)
  ultimately show ?thesis using parse_rendered_headers [OF l(4,5), of ?ctx t True]
    by (simp add: request_of_def)
qed

section \<open>Responses on the wire\<close>

lemma append_all_spec: "buf_inv b \<Longrightarrow> \<exists>b'. append_all ss b = Inr b' \<and> buf_inv b' \<and> contents b' = contents b @ concat ss"
proof (induction ss arbitrary: b)
  case (Cons s ss)
  obtain b1 where b1: "append_bytes s b = Inr b1" "buf_inv b1" "contents b1 = contents b @ s"
    using append_bytes_spec [OF Cons.prems] by blast
  then show ?case using Cons.IH [of b1] by auto
qed simp

definition render_response :: "http_response \<Rightarrow> string list \<Rightarrow> string" where
  "render_response r conn_headers =
     ''HTTP/1.1 '' @ dec_int (status_int (resp_status_code r)) @ '' '' @ resp_status_message r @ kCRLF @ concat conn_headers @
     concat (map (\<lambda>(k, v). k @ '': '' @ v @ kCRLF) (resp_headers r)) @ kCRLF @ resp_body r"

lemma dec_status: "dec_int 200 = ''200''" "dec_int 400 = ''400''"
  by code_simp+

lemma status_line: "snprintf 32 (''HTTP/1.1 '' @ dec_int (status_int c) @ '' '') = ''HTTP/1.1 '' @ dec_int (status_int c) @ '' ''"
  by (cases c) (simp_all add: snprintf_def dec_int_def dec_nat.simps)

lemma append_to_buffer_spec:
  assumes "buf_inv b" and "conn_header_pieces r = Inr ch"
  shows "\<exists>b'. append_to_buffer r b = Inr b' \<and> buf_inv b' \<and> contents b' = contents b @ render_response r ch"
proof -
  let ?s1 = "[snprintf 32 (''HTTP/1.1 '' @ dec_int (status_int (resp_status_code r)) @ '' ''), resp_status_message r, kCRLF]"
  let ?s3 = "concat (map (\<lambda>(k, v). [k, '': '', v, kCRLF]) (resp_headers r)) @ [kCRLF, resp_body r]"
  obtain b1 where b1: "append_all ?s1 b = Inr b1" "buf_inv b1" "contents b1 = contents b @ concat ?s1"
    using append_all_spec [OF assms(1)] by blast
  obtain b2 where b2: "append_all ch b1 = Inr b2" "buf_inv b2" "contents b2 = contents b1 @ concat ch"
    using append_all_spec [OF b1(2)] by blast
  obtain b3 where b3: "append_all ?s3 b2 = Inr b3" "buf_inv b3" "contents b3 = contents b2 @ concat ?s3"
    using append_all_spec [OF b2(2)] by blast
  have "concat (concat (map (\<lambda>(k, v). [k, '': '', v, kCRLF]) hs)) = concat (map (\<lambda>(k, v). k @ '': '' @ v @ kCRLF) hs)" for hs
    by (induction hs) auto
  then show ?thesis using b1 b2 b3 assms(2) status_line [of "resp_status_code r"]
    by (simp add: append_to_buffer_def render_response_def)
qed

lemma conn_header_pieces_html:
  assumes "resp_body_type r = kHtml" and "length (resp_body r) < 10 ^ 13"
  shows "conn_header_pieces r = Inr (if resp_will_close r then [''Connection: close'' @ kCRLF]
     else [''Content-Length: '' @ dec_nat (length (resp_body r)) @ kCRLF, ''Connection: Keep-Alive'' @ kCRLF])"
  using assms length_dec_nat [of "length (resp_body r)" 13]
  by (simp add: conn_header_pieces_def content_length_def snprintf_def dec_int_def kCRLF_def)

lemma send_response_spec:
  assumes "conn_inv c" and "m_conn_state c = kConnected" and "conn_header_pieces r = Inr ch"
    and "length (contents (m_output_buffer c)) + length (render_response r ch) < m_highwater_mark c"
  shows "\<exists>c'. send_response r c = Inr (c', [Accepted (render_response r ch)]) \<and> conn_inv c' \<and> m_conn_state c' = kConnected \<and>
     is_writing (m_channel c') \<and> m_input_buffer c' = m_input_buffer c \<and> m_zero_copier_ptr c' = m_zero_copier_ptr c \<and>
     contents (m_output_buffer c') = contents (m_output_buffer c) @ render_response r ch"
proof -
  let ?d = "render_response r ch"
  obtain b where b: "append_to_buffer r (Buffer_init kInitialSize) = Inr b" "buf_inv b" "contents b = ?d"
    using append_to_buffer_spec [OF Buffer_init_inv assms(3)] by auto
  have out: "buf_inv (m_output_buffer c)" using assms(1) by (simp add: conn_inv_def)
  then obtain ob where ob: "append_bytes ?d (m_output_buffer c) = Inr ob" "contents ob = contents (m_output_buffer c) @ ?d"
    using append_bytes_spec by blast
  have "?d \<noteq> []" by (simp add: render_response_def)
  then have s: "send_bytes_in_reactor True ?d c =
      Inr (if is_writing (m_channel c) then c\<lparr>m_output_buffer := ob\<rparr> else conn_request Want_to_write (c\<lparr>m_output_buffer := ob\<rparr>), [Accepted ?d])"
    using assms(2,4) ob out by (simp add: send_bytes_in_reactor_def massert_def Let_def length_contents)
  have "conn_sim c (send_bytes_in_reactor True ?d c)" by (rule sim_send_bytes [OF assms(1)])
  then show ?thesis using s b ob assms(2)
    by (auto simp: send_response_def send_buffer_def conn_sim_def)
qed

section \<open>Properties\<close>

text \<open>
  C12: Parsing inverts printing. A request in wire format, with any method, target, version and headers of the right
  shape and with any bytes behind it, is parsed completely: the context holds the method, the version, the path and
  the query split at the question mark, the time of receipt and, for each field, the last value given; the
  bytes behind the request stay in the buffer.
\<close>

theorem http_request_roundtrip:
  assumes "buf_inv b" and "contents b = render_request m target v hs @ rest" and "request_ok m target v hs"
  shows "\<exists>b'. parse_request t HttpContext_init b =
       Some (Inr (True, \<lparr> ctx_state = kGotAll, ctx_request = request_of t m target v hs \<rparr>, b')) \<and>
     buf_inv b' \<and> contents b' = rest"
  using assms by (rule parse_rendered)

definition sample_request :: string where
  "sample_request = render_request kGet ''/a?x=1'' kHttp11 [(''Host'', ''h''), (''Connection'', ''close'')]"

lemma sample_request_ok: "request_ok kGet ''/a?x=1'' kHttp11 [(''Host'', ''h''), (''Connection'', ''close'')]"
  by (simp add: request_ok_def header_ok_def cpp_isspace_def)

theorem http_request_roundtrip_witness:
  "\<exists>b b'. append_bytes (sample_request @ ''GET'') (Buffer_init kInitialSize) = Inr b \<and>
     parse_request 7 HttpContext_init b =
       Some (Inr (True, \<lparr> ctx_state = kGotAll, ctx_request = \<lparr> req_method = kGet, req_version = kHttp11, req_path = ''/a'',
          req_query = ''?x=1'', req_receive_time = 7, req_headers = [''Host'' \<mapsto> ''h'', ''Connection'' \<mapsto> ''close''] \<rparr> \<rparr>, b')) \<and>
     contents b' = ''GET''"
proof -
  obtain b where b: "append_bytes (sample_request @ ''GET'') (Buffer_init kInitialSize) = Inr b" "buf_inv b"
    "contents b = sample_request @ ''GET''"
    using append_bytes_spec [of "Buffer_init kInitialSize" "sample_request @ ''GET''"] by auto
  have "request_of 7 kGet ''/a?x=1'' kHttp11 [(''Host'', ''h''), (''Connection'', ''close'')] =
    \<lparr> req_method = kGet, req_version = kHttp11, req_path = ''/a'', req_query = ''?x=1'', req_receive_time = 7,
       req_headers = [''Host'' \<mapsto> ''h'', ''Connection'' \<mapsto> ''close''] \<rparr>"
    by (auto simp: request_of_def)
  with http_request_roundtrip [OF b(2) b(3) [unfolded sample_request_def] sample_request_ok, of 7] b(1) show ?thesis by auto
qed



lemma ends_with_empty_line:
  assumes "buf_inv b" and "contents b = pre @ kCRLF @ kCRLF"
  shows "peek_last_as_string b 4 = kCRLF @ kCRLF"
  using peek_last_as_string_spec [OF assms(1), of 4] assms(2) by (simp add: kCRLF_def)

lemma render_request_end: "\<exists>pre. render_request m target v hs = pre @ kCRLF @ kCRLF"
  by (cases hs rule: rev_cases) (auto simp: render_request_def render_headers_def)

lemma shutdown_writing:
  "m_conn_state c = kConnected \<Longrightarrow> is_writing (m_channel c) \<Longrightarrow> shutdown True c = Inr (set_state kDisconnecting c, [])"
  by (simp add: shutdown_def shutdown_in_reactor_def)

text \<open>
  C6: A request is answered. When the input of a connection is exactly one request in wire format, the server
  parses it, calls the response callback with it, queues the serialised response behind what is still to be
  sent, consumes the input, is ready for the next request, and begins the shutdown exactly when the
  response asks for it. The announced content length of an open connection is the length of the body.
\<close>

theorem http_request_answered:
  assumes "conn_inv c" and "m_conn_state c = kConnected"
    and "contents (m_input_buffer c) = render_request m target v hs" and "request_ok m target v hs"
    and "resp = cb (request_of t m target v hs)
           (HttpResponse_init (map_of (rev hs) ''Connection'' = Some ''close'' \<or>
              v = kHttp10 \<and> map_of (rev hs) ''Connection'' \<noteq> Some ''Keep-Alive''))"
    and "resp_body_type resp = kHtml" and "length (resp_body resp) < 10 ^ 13"
    and "wire = render_response resp (if resp_will_close resp then [''Connection: close'' @ kCRLF]
           else [''Content-Length: '' @ dec_nat (length (resp_body resp)) @ kCRLF, ''Connection: Keep-Alive'' @ kCRLF])"
    and "length (contents (m_output_buffer c)) + length wire < m_highwater_mark c"
  shows "\<exists>c'. default_on_request cb t HttpContext_init c = Some (Inr (HttpContext_init, c', [Accepted wire])) \<and>
     contents (m_input_buffer c') = [] \<and> contents (m_output_buffer c') = contents (m_output_buffer c) @ wire \<and>
     m_conn_state c' = (if resp_will_close resp then kDisconnecting else kConnected)"
proof -
  let ?ctx = "\<lparr> ctx_state = kGotAll, ctx_request = request_of t m target v hs \<rparr>"
  have inp: "buf_inv (m_input_buffer c)" using assms(1) by (simp add: conn_inv_def)
  obtain b where b: "parse_request t HttpContext_init (m_input_buffer c) = Some (Inr (True, ?ctx, b))"
    "buf_inv b" "contents b = []"
    using parse_rendered [OF inp _ assms(4), of "[]" t] assms(3) by auto
  let ?c = "c\<lparr>m_input_buffer := b\<rparr>"
  have "conn_inv ?c" using assms(1) b(2) by (simp add: conn_inv_def)
  then obtain c1 where c1: "send_response resp ?c = Inr (c1, [Accepted wire])" "m_conn_state c1 = kConnected"
    "is_writing (m_channel c1)" "m_input_buffer c1 = b" "contents (m_output_buffer c1) = contents (m_output_buffer c) @ wire"
    using send_response_spec [of ?c resp] conn_header_pieces_html [OF assms(6,7)] assms(2,8,9) by auto
  have "get_header ''Connection'' (request_of t m target v hs) = ''close'' \<longleftrightarrow> map_of (rev hs) ''Connection'' = Some ''close''"
    "get_header ''Connection'' (request_of t m target v hs) \<noteq> ''Keep-Alive'' \<longleftrightarrow> map_of (rev hs) ''Connection'' \<noteq> Some ''Keep-Alive''"
    by (simp_all add: get_header_def request_of_def split: option.split)
  then have "on_good_request cb (request_of t m target v hs) ?c =
      Inr (if resp_will_close resp then set_state kDisconnecting c1 else c1, [Accepted wire])"
    using c1 assms(5,6) by (simp add: on_good_request_def Let_def cbind_def shutdown_writing request_of_def)
  moreover have "peek_last_as_string (m_input_buffer c) 4 = kCRLF @ kCRLF"
    using ends_with_empty_line [OF inp] render_request_end assms(3) by metis
  ultimately show ?thesis using b c1 by (simp add: default_on_request_def got_all_def http_reset_def HttpContext_init_def)
qed

definition hello :: "http_request \<Rightarrow> http_response \<Rightarrow> http_response" where
  "hello req resp = set_body ''hello'' (set_status_message ''OK'' (set_status_code k200Ok resp))"

theorem http_request_answered_witness:
  "\<exists>b c'. append_bytes sample_request (Buffer_init kInitialSize) = Inr b \<and>
     default_on_request hello 7 HttpContext_init (sample_up\<lparr>m_input_buffer := b\<rparr>) =
       Some (Inr (HttpContext_init, c',
         [Accepted (''HTTP/1.1 200 OK'' @ kCRLF @ ''Connection: close'' @ kCRLF @ kCRLF @ ''hello'')])) \<and>
     m_conn_state c' = kDisconnecting"
proof -
  obtain b where b: "append_bytes sample_request (Buffer_init kInitialSize) = Inr b" "buf_inv b" "contents b = sample_request"
    using append_bytes_spec [of "Buffer_init kInitialSize" sample_request] by auto
  let ?c = "sample_up\<lparr>m_input_buffer := b\<rparr>"
  have "conn_inv ?c" using sample_up_simps(13) b(2) by (simp add: conn_inv_def)
  moreover have "m_highwater_mark ?c = 64 * 1024 * 1024"
    by (simp add: sample_up_def conn_request_def set_state_def sample_conn_def TcpConnection_init_def)
  moreover have "contents (m_input_buffer ?c) =
      render_request kGet ''/a?x=1'' kHttp11 [(''Host'', ''h''), (''Connection'', ''close'')]"
    using b(3) by (simp add: sample_request_def)
  ultimately have "\<exists>c'. default_on_request hello 7 HttpContext_init ?c = Some (Inr (HttpContext_init, c',
         [Accepted (''HTTP/1.1 200 OK'' @ kCRLF @ ''Connection: close'' @ kCRLF @ kCRLF @ ''hello'')])) \<and>
     m_conn_state c' = kDisconnecting"
    using http_request_answered [OF _ _ _ sample_request_ok refl _ _ refl, of ?c hello 7]
    by (auto simp: hello_def set_body_def set_status_message_def set_status_code_def HttpResponse_init_def render_response_def
        dec_status kCRLF_def)
  with b(1) show ?thesis by blast
qed

text \<open>
  C39: A bad request line with a known method makes the server abort on the next message. The first message is
  answered with status 400 and the connection begins to shut down, but the method stays set and the line stays in
  the buffer; when the peer sends any further bytes that end in an empty line, the parser reads the line
  again and the assertion that no method is set fails.
\<close>

theorem http_bad_request_aborts:
  assumes "conn_inv c" and "m_conn_state c = kConnected"
    and "contents (m_input_buffer c) = method_string m @ '' '' @ target @ kCRLF @ kCRLF"
    and "m \<noteq> kInvalid" and "CHR '' '' \<notin> set target" and "CHR 0x0D \<notin> set target"
    and "length (contents (m_output_buffer c)) + 64 < m_highwater_mark c"
  shows "\<exists>ctx' c'. default_on_request cb t HttpContext_init c =
        Some (Inr (ctx', c', [Accepted (''HTTP/1.1 400 Bad Request'' @ kCRLF @ ''Connection: close'' @ kCRLF @ kCRLF)])) \<and>
     conn_inv c' \<and> m_conn_state c' = kDisconnecting \<and>
     (\<forall>b more t'. buf_inv b \<and> contents b = contents (m_input_buffer c') @ more @ kCRLF @ kCRLF \<longrightarrow>
        default_on_request cb t' ctx' (c'\<lparr>m_input_buffer := b\<rparr>) = Some (Inl (AssertFailed ''m_method == kInvalid'')))"
proof -
  let ?line = "method_string m @ '' '' @ target"
  let ?r = "HttpRequest_init\<lparr>req_method := m\<rparr>"
  let ?ctx = "HttpContext_init\<lparr>ctx_request := ?r\<rparr>"
  have m: "CHR '' '' \<notin> set (method_string m)" "CHR 0x0D \<notin> set ?line" using assms(6) by (cases m; simp)+
  have sp: "cpp_find (CHR '' '') ?line = length (method_string m)" using cpp_find_append [OF m(1)] by simp
  have set: "set_method (method_string m) r = (if req_method r = kInvalid then Inr (True, r\<lparr>req_method := m\<rparr>)
      else Inl (AssertFailed ''m_method == kInvalid''))" for r
    using assms(4) by (cases m) (simp_all add: set_method_def massert_def)
  have bad: "process_request_line ?line HttpRequest_init = Inr (False, ?r)"
    using sp set [of HttpRequest_init] assms(5)
    by (simp add: process_request_line_def Let_def cpp_find_eq_length_iff HttpRequest_init_def)
  have again: "process_request_line ?line ?r = Inl (AssertFailed ''m_method == kInvalid'')"
    using sp set [of ?r] assms(4) by (simp add: process_request_line_def Let_def)
  have turn: "parse_request t' ctx b = (case process_request_line ?line (ctx_request ctx) of
        Inl e \<Rightarrow> Some (Inl e) | Inr (ok, r) \<Rightarrow> if ok then parse_request t' ctx b else Some (Inr (False, ctx\<lparr>ctx_request := r\<rparr>, b)))"
    if pre: "buf_inv b" "contents b = ?line @ kCRLF @ rest" "ctx_state ctx = kExpectRequestLine" for t' ctx b rest
  proof -
    obtain p b' where "find_CRLF b = Some p" "bytes_between b (m_read_idx b) p = ?line" "retrieve_until (p + 2) b = Inr b'"
      using crlf_line [OF pre(1,2) m(2)] by blast
    then show ?thesis unfolding parse_request_def
      using parse_request_line [OF pre(3), of b p ?line b'] by (auto split: sum.splits)
  qed
  have inp: "buf_inv (m_input_buffer c)" using assms(1) by (simp add: conn_inv_def)
  have p1: "parse_request t HttpContext_init (m_input_buffer c) = Some (Inr (False, ?ctx, m_input_buffer c))"
    using turn [OF inp, of kCRLF HttpContext_init t] assms(3) bad by (simp add: HttpContext_init_def)
  have p2: "parse_request t' ?ctx b = Some (Inl (AssertFailed ''m_method == kInvalid''))"
    if "buf_inv b" "contents b = contents (m_input_buffer c) @ more" for t' b more
    using turn [OF that(1), of "kCRLF @ more" ?ctx t'] that(2) assms(3) again by (simp add: HttpContext_init_def)
  let ?w = "''HTTP/1.1 400 Bad Request'' @ kCRLF @ ''Connection: close'' @ kCRLF @ kCRLF"
  have w: "render_response response_400 [''Connection: close'' @ kCRLF] = ?w"
    "conn_header_pieces response_400 = Inr [''Connection: close'' @ kCRLF]" "length ?w = 47"
    by (simp_all add: render_response_def response_400_def set_status_message_def set_status_code_def HttpResponse_init_def
        dec_status conn_header_pieces_def kCRLF_def)
  obtain c1 where c1: "send_response response_400 c = Inr (c1, [Accepted ?w])" "m_conn_state c1 = kConnected"
    "is_writing (m_channel c1)" "m_input_buffer c1 = m_input_buffer c" "conn_inv c1"
    using send_response_spec [OF assms(1,2) w(2)] w assms(7) by (auto simp: kCRLF_def)
  have "default_on_request cb t HttpContext_init c = Some (Inr (?ctx, set_state kDisconnecting c1, [Accepted ?w]))"
    using p1 c1 ends_with_empty_line [OF inp, of "?line"] assms(3)
    by (simp add: default_on_request_def on_bad_request_def cbind_def shutdown_writing got_all_def HttpContext_init_def)
  moreover have "default_on_request cb t' ?ctx ((set_state kDisconnecting c1)\<lparr>m_input_buffer := b\<rparr>) = Some (Inl (AssertFailed ''m_method == kInvalid''))"
    if "buf_inv b" "contents b = contents (m_input_buffer c) @ more @ kCRLF @ kCRLF" for b more t'
    using p2 [OF that] ends_with_empty_line [OF that(1), of "contents (m_input_buffer c) @ more"] that(2)
    by (simp add: default_on_request_def)
  ultimately show ?thesis using c1(4) by (intro exI [of _ ?ctx] exI [of _ "set_state kDisconnecting c1"]) (auto simp: c1(2,5))
qed

theorem http_bad_request_aborts_witness:
  "\<exists>b ctx' c' b'. append_bytes (''GET /'' @ kCRLF @ kCRLF) (Buffer_init kInitialSize) = Inr b \<and>
     default_on_request hello 7 HttpContext_init (sample_up\<lparr>m_input_buffer := b\<rparr>) =
       Some (Inr (ctx', c', [Accepted (''HTTP/1.1 400 Bad Request'' @ kCRLF @ ''Connection: close'' @ kCRLF @ kCRLF)])) \<and>
     append_bytes (kCRLF @ kCRLF) (m_input_buffer c') = Inr b' \<and>
     default_on_request hello 8 ctx' (c'\<lparr>m_input_buffer := b'\<rparr>) = Some (Inl (AssertFailed ''m_method == kInvalid''))"
proof -
  obtain b where b: "append_bytes (''GET /'' @ kCRLF @ kCRLF) (Buffer_init kInitialSize) = Inr b" "buf_inv b"
    "contents b = ''GET /'' @ kCRLF @ kCRLF"
    using append_bytes_spec [of "Buffer_init kInitialSize" "''GET /'' @ kCRLF @ kCRLF"] by auto
  let ?c = "sample_up\<lparr>m_input_buffer := b\<rparr>"
  have "conn_inv ?c" using sample_up_simps(13) b(2) by (simp add: conn_inv_def)
  moreover have "m_highwater_mark ?c = 64 * 1024 * 1024"
    by (simp add: sample_up_def conn_request_def set_state_def sample_conn_def TcpConnection_init_def)
  ultimately obtain ctx' c' where inv: "conn_inv c'" and r: "default_on_request hello 7 HttpContext_init ?c = Some (Inr (ctx', c',
      [Accepted (''HTTP/1.1 400 Bad Request'' @ kCRLF @ ''Connection: close'' @ kCRLF @ kCRLF)]))"
    "\<forall>b more t'. buf_inv b \<and> contents b = contents (m_input_buffer c') @ more @ kCRLF @ kCRLF \<longrightarrow>
        default_on_request hello t' ctx' (c'\<lparr>m_input_buffer := b\<rparr>) = Some (Inl (AssertFailed ''m_method == kInvalid''))"
    using http_bad_request_aborts [of ?c kGet "''/''" hello 7] b(3) by auto
  from inv obtain b' where "append_bytes (kCRLF @ kCRLF) (m_input_buffer c') = Inr b'" "buf_inv b'"
    "contents b' = contents (m_input_buffer c') @ [] @ kCRLF @ kCRLF"
    using append_bytes_spec [of "m_input_buffer c'" "kCRLF @ kCRLF"] by (auto simp: conn_inv_def)
  then show ?thesis using b(1) r by blast
qed

end
