(* ===== verification/Connector.thy ===== *)
theory Connector
  imports Channel TimerQueue
begin

text \<open>
  Connector.h and Connector.cc: the client side of a connection attempt, with its retries. The results of
  \<^verbatim>\<open>socket\<close>, \<^verbatim>\<open>connect\<close>, \<^verbatim>\<open>getsockopt\<close> and of the self-connect test are arguments; what an operation hands to the
  outside is a list of events. The second part puts the connector into its reactor: queued functors, pending
  retry timers and the events of its channel, as actions in any order.
\<close>

section \<open>State\<close>

datatype connect_state = kDisconnected | kConnecting | kConnected

definition kMaxRetryDelayMs :: int where "kMaxRetryDelayMs = 30 * 1000"
definition kInitRetryDelayMs :: int where "kInitRetryDelayMs = 500"

record connector =
  m_is_connected :: bool
  m_state :: connect_state
  m_conn_channel :: "channel option"
  m_retry_delay_ms :: int

datatype connector_event =
    Close_fd int                \<comment> \<open>\<^verbatim>\<open>socket_ops::close\<close>\<close>
  | New_conn_callback int
  | Retry_timer int             \<comment> \<open>\<^verbatim>\<open>run_after\<close> of \<^verbatim>\<open>start_in_reactor\<close>, in milliseconds\<close>
  | Queue_reset_channel
  | Queue_start_in_reactor
  | Queue_stop_in_reactor

type_synonym connector_result = "(connector \<times> connector_event list) res"

definition kbind :: "connector_result \<Rightarrow> (connector \<Rightarrow> connector_result) \<Rightarrow> connector_result" where
  "kbind m f = rbind m (\<lambda>(k, evs). rbind (f k) (\<lambda>(k', evs'). Inr (k', evs @ evs')))"

definition Connector_init :: connector where
  "Connector_init =
     \<lparr> m_is_connected = False, m_state = kDisconnected, m_conn_channel = None, m_retry_delay_ms = kInitRetryDelayMs \<rparr>"

definition Connector_destroy :: "connector \<Rightarrow> unit res" where
  "Connector_destroy k = massert (m_conn_channel k = None) ''!m_channel'' (Inr ())"

section \<open>Operations\<close>

definition connecting :: "int \<Rightarrow> connector \<Rightarrow> connector_result" where
  "connecting sockfd k =
     (let k = k\<lparr>m_state := kConnecting\<rparr>
      in massert (m_conn_channel k = None) ''!m_channel''
           (let ch = (Channel_init sockfd)\<lparr> m_write_callback := True, m_error_callback := True \<rparr>
            in Inr (k\<lparr>m_conn_channel := Some (channel_request Want_to_write ch)\<rparr>, [])))"

definition retry :: "int \<Rightarrow> connector \<Rightarrow> connector_result" where
  "retry sockfd k =
     (let k = k\<lparr>m_state := kDisconnected\<rparr>
      in if m_is_connected k
         then Inr (k\<lparr>m_retry_delay_ms := min (m_retry_delay_ms k * 2) kMaxRetryDelayMs\<rparr>,
                   [Close_fd sockfd, Retry_timer (m_retry_delay_ms k)])
         else Inr (k, [Close_fd sockfd]))"

definition EPERM :: int where "EPERM = 1"
definition EINTR :: int where "EINTR = 4"
definition EBADF :: int where "EBADF = 9"
definition EAGAIN :: int where "EAGAIN = 11"
definition EACCES :: int where "EACCES = 13"
definition EFAULT :: int where "EFAULT = 14"
definition ENOTSOCK :: int where "ENOTSOCK = 88"
definition EAFNOSUPPORT :: int where "EAFNOSUPPORT = 97"
definition EADDRINUSE :: int where "EADDRINUSE = 98"
definition EADDRNOTAVAIL :: int where "EADDRNOTAVAIL = 99"
definition ENETUNREACH :: int where "ENETUNREACH = 101"
definition EISCONN :: int where "EISCONN = 106"
definition ECONNREFUSED :: int where "ECONNREFUSED = 111"
definition EALREADY :: int where "EALREADY = 114"
definition EINPROGRESS :: int where "EINPROGRESS = 115"

lemmas errno_defs = EPERM_def EINTR_def EBADF_def EAGAIN_def EACCES_def EFAULT_def ENOTSOCK_def EAFNOSUPPORT_def
  EADDRINUSE_def EADDRNOTAVAIL_def ENETUNREACH_def EISCONN_def ECONNREFUSED_def EALREADY_def EINPROGRESS_def

text \<open>\<open>sockfd\<close> is what \<^verbatim>\<open>socket\<close> returns, \<open>savedErrno\<close> the outcome of \<^verbatim>\<open>connect\<close>.\<close>

definition connect :: "int \<Rightarrow> int \<Rightarrow> connector \<Rightarrow> connector_result" where
  "connect sockfd savedErrno k =
     (if sockfd < 0 then mfatal ''socket_ops::create_sockfd_nonblocking_or_abort''
      else if savedErrno \<in> {0, EINPROGRESS, EINTR, EISCONN} then connecting sockfd k
      else if savedErrno \<in> {EAGAIN, EADDRINUSE, EADDRNOTAVAIL, ECONNREFUSED, ENETUNREACH} then retry sockfd k
      else if savedErrno \<in> {EACCES, EPERM, EAFNOSUPPORT, EALREADY, EBADF, EFAULT, ENOTSOCK} then Inr (k, [Close_fd sockfd])
      else Inr (k, [Close_fd sockfd]))"

definition start_in_reactor :: "bool \<Rightarrow> int \<Rightarrow> int \<Rightarrow> connector \<Rightarrow> connector_result" where
  "start_in_reactor in_thread sockfd savedErrno k =
     in_loop_thread in_thread
       (massert (m_state k = kDisconnected) ''m_state == kDisconnected''
          (if m_is_connected k then connect sockfd savedErrno k else Inr (k, [])))"

definition start :: "bool \<Rightarrow> int \<Rightarrow> int \<Rightarrow> connector \<Rightarrow> connector_result" where
  "start in_thread sockfd savedErrno k =
     (let k = k\<lparr>m_is_connected := True\<rparr>
      in if in_thread then start_in_reactor in_thread sockfd savedErrno k else Inr (k, [Queue_start_in_reactor]))"

definition stop :: "connector \<Rightarrow> connector_result" where
  "stop k = Inr (k\<lparr>m_is_connected := False\<rparr>, [Queue_stop_in_reactor])"

definition restart :: "bool \<Rightarrow> int \<Rightarrow> int \<Rightarrow> connector \<Rightarrow> connector_result" where
  "restart in_thread sockfd savedErrno k =
     in_loop_thread in_thread
       (start_in_reactor in_thread sockfd savedErrno
          (k\<lparr> m_state := kDisconnected, m_retry_delay_ms := kInitRetryDelayMs, m_is_connected := True \<rparr>))"

definition remove_and_reset_channel :: "connector \<Rightarrow> (int \<times> connector \<times> connector_event list) res" where
  "remove_and_reset_channel k =
     (case m_conn_channel k of
        None \<Rightarrow> Inl (Undefined ''null m_channel'')
      | Some ch \<Rightarrow>
          let ch = channel_request End_all ch
          in massert (is_none_event ch) ''is_none_event()''
               (Inr (m_fd ch, k\<lparr>m_conn_channel := Some (ch\<lparr>m_is_in_reactor := False\<rparr>)\<rparr>, [Queue_reset_channel])))"

definition reset_channel :: "connector \<Rightarrow> connector" where
  "reset_channel k = k\<lparr>m_conn_channel := None\<rparr>"

definition stop_in_reactor :: "bool \<Rightarrow> connector \<Rightarrow> connector_result" where
  "stop_in_reactor in_thread k =
     in_loop_thread in_thread
       (if m_state k = kConnecting
        then rbind (remove_and_reset_channel (k\<lparr>m_state := kDisconnected\<rparr>)) (\<lambda>(sockfd, k, evs).
             rbind (retry sockfd k) (\<lambda>(k, evs'). Inr (k, evs @ evs')))
        else Inr (k, []))"

text \<open>\<open>err\<close> is the pending error of the socket, \<open>self_connect\<close> the outcome of \<^verbatim>\<open>isSelfConnect\<close>.\<close>

definition handle_write :: "int \<Rightarrow> bool \<Rightarrow> connector \<Rightarrow> connector_result" where
  "handle_write err self_connect k =
     (if m_state k = kConnecting
      then rbind (remove_and_reset_channel k) (\<lambda>(sockfd, k, evs).
           rbind (if err \<noteq> 0 then retry sockfd k
                  else if self_connect then retry sockfd k
                  else let k = k\<lparr>m_state := kConnected\<rparr>
                       in if m_is_connected k then Inr (k, [New_conn_callback sockfd]) else Inr (k, [Close_fd sockfd]))
             (\<lambda>(k, evs'). Inr (k, evs @ evs')))
      else massert (m_state k = kDisconnected) ''m_state == kDisconnected'' (Inr (k, [])))"

definition handle_error :: "connector \<Rightarrow> connector_result" where
  "handle_error k =
     (if m_state k = kConnecting
      then rbind (remove_and_reset_channel k) (\<lambda>(sockfd, k, evs).
           rbind (retry sockfd k) (\<lambda>(k, evs'). Inr (k, evs @ evs')))
      else Inr (k, []))"

section \<open>The connector in its reactor\<close>

datatype connector_task = Reset_channel | Start_in_reactor | Stop_in_reactor

record connector_world =
  w_connector :: connector
  w_queue :: "connector_task list"   \<comment> \<open>functors handed to the reactor, oldest first\<close>
  w_timers :: nat                    \<comment> \<open>retry timers that have not fired\<close>
  w_log :: "connector_event list"

fun task_of :: "connector_event \<Rightarrow> connector_task list" where
  "task_of Queue_reset_channel = [Reset_channel]"
| "task_of Queue_start_in_reactor = [Start_in_reactor]"
| "task_of Queue_stop_in_reactor = [Stop_in_reactor]"
| "task_of e = []"

fun is_timer :: "connector_event \<Rightarrow> bool" where
  "is_timer (Retry_timer ms) = True"
| "is_timer e = False"

definition world_after :: "connector_world \<Rightarrow> connector_result \<Rightarrow> connector_world res" where
  "world_after w r =
     rbind r (\<lambda>(k, evs). Inr (w\<lparr> w_connector := k, w_queue := w_queue w @ concat (map task_of evs),
                               w_timers := w_timers w + length (filter is_timer evs), w_log := w_log w @ evs \<rparr>))"

text \<open>
  The actions: calls of the user, the reactor running its oldest functor, a retry timer firing, and an event of
  the connector's channel, whose error callback comes before its write callback. A retry timer is due half a
  second or more after the round that started it, so the channel's reset, queued in that round, has run.
\<close>

datatype connector_action =
    A_start bool int int
  | A_stop
  | A_restart int int
  | A_functor int int
  | A_timer int int
  | A_event bool bool int bool

definition channel_active :: "connector \<Rightarrow> bool" where
  "channel_active k \<longleftrightarrow> (case m_conn_channel k of None \<Rightarrow> False | Some ch \<Rightarrow> m_is_in_reactor ch)"

fun action_enabled :: "connector_action \<Rightarrow> connector_world \<Rightarrow> bool" where
  "action_enabled (A_functor s e) w \<longleftrightarrow> w_queue w \<noteq> []"
| "action_enabled (A_timer s e) w \<longleftrightarrow> 0 < w_timers w \<and> Reset_channel \<notin> set (w_queue w)"
| "action_enabled (A_event er out err self) w \<longleftrightarrow> channel_active (w_connector w)"
| "action_enabled (A_restart s e) w \<longleftrightarrow> m_state (w_connector w) = kConnected \<and> Reset_channel \<notin> set (w_queue w)"
| "action_enabled a w \<longleftrightarrow> True"

fun connector_step :: "connector_action \<Rightarrow> connector_world \<Rightarrow> connector_world res" where
  "connector_step (A_start in_thread s e) w = world_after w (start in_thread s e (w_connector w))"
| "connector_step A_stop w = world_after w (stop (w_connector w))"
| "connector_step (A_restart s e) w = world_after w (restart True s e (w_connector w))"
| "connector_step (A_functor s e) w =
     (let w' = w\<lparr>w_queue := tl (w_queue w)\<rparr>
      in case hd (w_queue w) of
           Reset_channel \<Rightarrow> Inr (w'\<lparr>w_connector := reset_channel (w_connector w')\<rparr>)
         | Start_in_reactor \<Rightarrow> world_after w' (start_in_reactor True s e (w_connector w'))
         | Stop_in_reactor \<Rightarrow> world_after w' (stop_in_reactor True (w_connector w')))"
| "connector_step (A_timer s e) w = world_after (w\<lparr>w_timers := w_timers w - 1\<rparr>) (start_in_reactor True s e (w_connector w))"
| "connector_step (A_event er out err self) w =
     world_after w (kbind (if er then handle_error (w_connector w) else Inr (w_connector w, []))
                      (\<lambda>k. if out then handle_write err self k else Inr (k, [])))"

fun connector_run :: "connector_action list \<Rightarrow> connector_world \<Rightarrow> connector_world res" where
  "connector_run [] w = Inr w"
| "connector_run (a # as) w = (if action_enabled a w then rbind (connector_step a w) (connector_run as) else connector_run as w)"

definition world_init :: connector_world where
  "world_init = \<lparr> w_connector = Connector_init, w_queue = [], w_timers = 0, w_log = [] \<rparr>"

section \<open>Invariant\<close>

definition connector_idle :: "connector_world \<Rightarrow> bool" where
  "connector_idle w \<longleftrightarrow>
     w_timers w = 0 \<and> m_state (w_connector w) = kDisconnected \<and> Start_in_reactor \<notin> set (w_queue w) \<and>
     Reset_channel \<notin> set (w_queue w)"

text \<open>At most one attempt is under way: a pending timer, a queued start, or a state other than disconnected.\<close>

definition attempts :: "connector_world \<Rightarrow> nat" where
  "attempts w =
     w_timers w + count_list (w_queue w) Start_in_reactor + (if m_state (w_connector w) = kDisconnected then 0 else 1)"

definition connector_inv :: "connector \<Rightarrow> bool" where
  "connector_inv k \<longleftrightarrow>
     (channel_active k \<longleftrightarrow> m_state k = kConnecting) \<and> kInitRetryDelayMs \<le> m_retry_delay_ms k \<and> m_retry_delay_ms k \<le> kMaxRetryDelayMs"

definition world_inv :: "connector_world \<Rightarrow> bool" where
  "world_inv w \<longleftrightarrow>
     attempts w \<le> 1 \<and> connector_inv (w_connector w) \<and>
     (m_conn_channel (w_connector w) \<noteq> None \<and> m_state (w_connector w) \<noteq> kConnecting \<longrightarrow> Reset_channel \<in> set (w_queue w)) \<and>
     (Reset_channel \<in> set (w_queue w) \<longrightarrow> m_state (w_connector w) \<noteq> kConnecting \<and> Start_in_reactor \<notin> set (w_queue w))"

fun action_legal :: "connector_action \<Rightarrow> connector_world \<Rightarrow> bool" where
  "action_legal (A_start t s e) w \<longleftrightarrow> connector_idle w \<and> 0 \<le> s"
| "action_legal (A_restart s e) w \<longleftrightarrow> 0 \<le> s"
| "action_legal (A_functor s e) w \<longleftrightarrow> 0 \<le> s"
| "action_legal (A_timer s e) w \<longleftrightarrow> 0 \<le> s"
| "action_legal a w \<longleftrightarrow> True"

text \<open>An attempt from the disconnected state ends connecting, or disconnected with at most one timer.\<close>

lemma start_in_reactor_cases:
  assumes "0 \<le> s" and "m_state k = kDisconnected" and "m_conn_channel k = None" and "connector_inv k"
  obtains k' evs where "start_in_reactor True s e k = Inr (k', evs)" "connector_inv k'" "concat (map task_of evs) = []"
    "m_state k' = kConnecting \<and> filter is_timer evs = [] \<or>
     m_state k' = kDisconnected \<and> m_conn_channel k' = None \<and> length (filter is_timer evs) \<le> 1"
proof (cases "m_is_connected k")
  case False
  with assms show ?thesis by (intro that [of k "[]"]) (simp_all add: start_in_reactor_def in_loop_thread_def massert_def)
next
  case True
  have c: "start_in_reactor True s e k = connect s e k"
    using True assms(2) by (simp add: start_in_reactor_def in_loop_thread_def)
  consider "connect s e k = connecting s k" | "connect s e k = retry s k" | "connect s e k = Inr (k, [Close_fd s])"
    using assms(1) unfolding connect_def by (metis not_less)
  then show ?thesis
  proof cases
    case 1
    obtain k' where "connecting s k = Inr (k', [])" "connector_inv k'" "m_state k' = kConnecting"
      using assms(3,4)
      by (auto simp: connecting_def Let_def connector_inv_def channel_active_def channel_request_def chan_set_events_def)
    then show ?thesis using that [of k' "[]"] c 1 by simp
  next
    case 2
    have "retry s k = Inr (k\<lparr> m_state := kDisconnected, m_retry_delay_ms := min (m_retry_delay_ms k * 2) kMaxRetryDelayMs \<rparr>,
        [Close_fd s, Retry_timer (m_retry_delay_ms k)])"
      using True by (simp add: retry_def Let_def)
    then show ?thesis using that assms(2-4) c 2
      by (auto simp: connector_inv_def channel_active_def kMaxRetryDelayMs_def kInitRetryDelayMs_def)
  next
    case 3
    then show ?thesis using that [of k "[Close_fd s]"] assms c by simp
  qed
qed

text \<open>Taking the channel of a running attempt down.\<close>

lemma remove_channel_result:
  assumes "channel_active k"
  obtains fd ch where "remove_and_reset_channel k = Inr (fd, k\<lparr>m_conn_channel := Some ch\<rparr>, [Queue_reset_channel])"
    "\<not> m_is_in_reactor ch"
  using assms
  by (auto simp: channel_active_def remove_and_reset_channel_def Let_def massert_def is_none_event_def channel_request_def
      chan_set_events_def split: option.splits)

lemma retry_cases:
  assumes "kInitRetryDelayMs \<le> m_retry_delay_ms k" and "m_retry_delay_ms k \<le> kMaxRetryDelayMs" and "\<not> channel_active k"
  shows "\<exists>k' evs. retry fd k = Inr (k', evs) \<and> connector_inv k' \<and> concat (map task_of evs) = [] \<and>
    m_state k' = kDisconnected \<and> m_conn_channel k' = m_conn_channel k \<and> length (filter is_timer evs) \<le> 1"
proof (cases "m_is_connected k")
  case True
  let ?k = "k\<lparr> m_state := kDisconnected, m_retry_delay_ms := min (m_retry_delay_ms k * 2) kMaxRetryDelayMs \<rparr>"
  have "retry fd k = Inr (?k, [Close_fd fd, Retry_timer (m_retry_delay_ms k)])" using True by (simp add: retry_def)
  moreover have "connector_inv ?k"
    using assms by (auto simp: connector_inv_def channel_active_def kMaxRetryDelayMs_def kInitRetryDelayMs_def)
  ultimately show ?thesis by (intro exI conjI) (assumption | simp)+
next
  case False
  let ?k = "k\<lparr>m_state := kDisconnected\<rparr>"
  have "retry fd k = Inr (?k, [Close_fd fd])" using False by (simp add: retry_def)
  moreover have "connector_inv ?k" using assms by (auto simp: connector_inv_def channel_active_def)
  ultimately show ?thesis by (intro exI conjI) (assumption | simp)+
qed

definition attempt_ended :: "connector \<Rightarrow> connector_result \<Rightarrow> bool" where
  "attempt_ended k r \<longleftrightarrow>
     (\<exists>k' evs. r = Inr (k', evs) \<and> connector_inv k' \<and> concat (map task_of evs) = [Reset_channel] \<and> m_conn_channel k' \<noteq> None \<and>
        (m_state k' = kDisconnected \<and> length (filter is_timer evs) \<le> 1 \<or> m_state k' = kConnected \<and> filter is_timer evs = []))"

lemma attempt_endedI:
  assumes "connector_inv k" and "m_state k = kConnecting"
    and "\<And>fd k1. \<not> channel_active k1 \<Longrightarrow> m_conn_channel k1 \<noteq> None \<Longrightarrow> m_retry_delay_ms k1 = m_retry_delay_ms k \<Longrightarrow>
       \<exists>k' evs. f fd k1 = Inr (k', evs) \<and> connector_inv k' \<and> concat (map task_of evs) = [] \<and> m_conn_channel k' \<noteq> None \<and>
        (m_state k' = kDisconnected \<and> length (filter is_timer evs) \<le> 1 \<or> m_state k' = kConnected \<and> filter is_timer evs = [])"
    and "k0 = k \<or> k0 = k\<lparr>m_state := kDisconnected\<rparr>"
  shows "attempt_ended k (rbind (remove_and_reset_channel k0) (\<lambda>(sockfd, k, evs). rbind (f sockfd k) (\<lambda>(k, evs'). Inr (k, evs @ evs'))))"
proof -
  have "channel_active k0" using assms(1,2,4) by (auto simp: connector_inv_def channel_active_def)
  then obtain fd ch where r: "remove_and_reset_channel k0 = Inr (fd, k0\<lparr>m_conn_channel := Some ch\<rparr>, [Queue_reset_channel])"
    "\<not> m_is_in_reactor ch" by (rule remove_channel_result)
  moreover have "m_retry_delay_ms k0 = m_retry_delay_ms k" using assms(4) by auto
  ultimately obtain k' evs where "f fd (k0\<lparr>m_conn_channel := Some ch\<rparr>) = Inr (k', evs)" "connector_inv k'"
    "concat (map task_of evs) = []" "m_conn_channel k' \<noteq> None"
    "m_state k' = kDisconnected \<and> length (filter is_timer evs) \<le> 1 \<or> m_state k' = kConnected \<and> filter is_timer evs = []"
    using assms(3) [of "k0\<lparr>m_conn_channel := Some ch\<rparr>" fd] by (auto simp: channel_active_def)
  then show ?thesis using r by (auto simp: attempt_ended_def)
qed

lemma retry_ends:
  assumes "connector_inv k" and "\<not> channel_active k1" and "m_conn_channel k1 \<noteq> None" and "m_retry_delay_ms k1 = m_retry_delay_ms k"
  shows "\<exists>k' evs. retry fd k1 = Inr (k', evs) \<and> connector_inv k' \<and> concat (map task_of evs) = [] \<and> m_conn_channel k' \<noteq> None \<and>
        (m_state k' = kDisconnected \<and> length (filter is_timer evs) \<le> 1 \<or> m_state k' = kConnected \<and> filter is_timer evs = [])"
  using assms retry_cases [of k1 fd] by (auto simp: connector_inv_def)

lemma stop_ends:
  assumes "connector_inv k" and "m_state k = kConnecting"
  shows "attempt_ended k (stop_in_reactor True k)"
proof -
  have "stop_in_reactor True k = rbind (remove_and_reset_channel (k\<lparr>m_state := kDisconnected\<rparr>))
      (\<lambda>(sockfd, k, evs). rbind (retry sockfd k) (\<lambda>(k, evs'). Inr (k, evs @ evs')))"
    using assms(2) by (simp add: stop_in_reactor_def in_loop_thread_def)
  moreover have "attempt_ended k \<dots>"
    by (rule attempt_endedI [OF assms]) (rule retry_ends [OF assms(1)], assumption+, simp)
  ultimately show ?thesis by simp
qed

lemma error_ends:
  assumes "connector_inv k" and "m_state k = kConnecting"
  shows "attempt_ended k (handle_error k)"
proof -
  have "attempt_ended k (rbind (remove_and_reset_channel k)
      (\<lambda>(sockfd, k, evs). rbind (retry sockfd k) (\<lambda>(k, evs'). Inr (k, evs @ evs'))))"
    by (rule attempt_endedI [OF assms]) (rule retry_ends [OF assms(1)], assumption+, simp)
  then show ?thesis using assms(2) by (simp add: handle_error_def)
qed

lemma write_ends:
  assumes "connector_inv k" and "m_state k = kConnecting"
  shows "attempt_ended k (handle_write err self k)"
proof -
  let ?f = "\<lambda>sockfd k. if err \<noteq> 0 then retry sockfd k else if self then retry sockfd k
      else let k = k\<lparr>m_state := kConnected\<rparr> in if m_is_connected k then Inr (k, [New_conn_callback sockfd]) else Inr (k, [Close_fd sockfd])"
  have "\<exists>k' evs. ?f fd k1 = Inr (k', evs) \<and> connector_inv k' \<and> concat (map task_of evs) = [] \<and> m_conn_channel k' \<noteq> None \<and>
        (m_state k' = kDisconnected \<and> length (filter is_timer evs) \<le> 1 \<or> m_state k' = kConnected \<and> filter is_timer evs = [])"
    if "\<not> channel_active k1" "m_conn_channel k1 \<noteq> None" "m_retry_delay_ms k1 = m_retry_delay_ms k" for fd k1
  proof (cases "err \<noteq> 0 \<or> self")
    case True
    then show ?thesis using retry_ends [OF assms(1) that, of fd] by auto
  next
    case False
    have "connector_inv (k1\<lparr>m_state := kConnected\<rparr>)" using that assms(1) by (auto simp: connector_inv_def channel_active_def)
    then show ?thesis using False that(2) by (cases "m_is_connected k1") simp_all
  qed
  then have "attempt_ended k (rbind (remove_and_reset_channel k)
      (\<lambda>(sockfd, k, evs). rbind (?f sockfd k) (\<lambda>(k, evs'). Inr (k, evs @ evs'))))"
    by (intro attempt_endedI [OF assms]) simp_all
  then show ?thesis using assms(2) by (simp add: handle_write_def)
qed

section \<open>Every action keeps the invariant\<close>

definition world_ok :: "connector_world res \<Rightarrow> bool" where
  "world_ok r \<longleftrightarrow> (\<exists>w. r = Inr w \<and> world_inv w)"

text \<open>An attempt starts in a world without one, or takes over from the one that triggered it.\<close>

lemma start_keeps:
  assumes "0 \<le> s" and "connector_inv k" and "m_state k = kDisconnected" and "m_conn_channel k = None"
    and "w_timers w = 0" and "Start_in_reactor \<notin> set (w_queue w)" and "Reset_channel \<notin> set (w_queue w)"
  shows "world_ok (world_after w (start_in_reactor True s e k))"
proof -
  obtain k' evs where "start_in_reactor True s e k = Inr (k', evs)" "connector_inv k'" "concat (map task_of evs) = []"
    "m_state k' = kConnecting \<and> filter is_timer evs = [] \<or>
     m_state k' = kDisconnected \<and> m_conn_channel k' = None \<and> length (filter is_timer evs) \<le> 1"
    using start_in_reactor_cases [OF assms(1,3,4,2)] by blast
  moreover have "count_list (w_queue w) Start_in_reactor = 0" using assms(6) by (simp add: count_list_0)
  ultimately show ?thesis using assms(5-7)
    by (auto simp: world_ok_def world_after_def world_inv_def attempts_def simp del: concat_eq_Nil_conv)
qed

text \<open>An attempt that ends leaves its channel to be reset.\<close>

lemma end_keeps:
  assumes "attempt_ended k r" and "w_timers w = 0" and "Start_in_reactor \<notin> set (w_queue w)"
  shows "world_ok (world_after w r)"
proof -
  obtain k' evs where "r = Inr (k', evs)" "connector_inv k'" "concat (map task_of evs) = [Reset_channel]" "m_conn_channel k' \<noteq> None"
    "m_state k' = kDisconnected \<and> length (filter is_timer evs) \<le> 1 \<or> m_state k' = kConnected \<and> filter is_timer evs = []"
    using assms(1) by (auto simp: attempt_ended_def)
  moreover have "count_list (w_queue w) Start_in_reactor = 0" using assms(3) by (simp add: count_list_0)
  ultimately show ?thesis using assms(2,3)
    by (auto simp: world_ok_def world_after_def world_inv_def attempts_def count_list_append)
qed

lemma idle_channel:
  assumes "world_inv w" and "m_state (w_connector w) \<noteq> kConnecting" and "Reset_channel \<notin> set (w_queue w)"
  shows "m_conn_channel (w_connector w) = None"
  using assms by (auto simp: world_inv_def)

lemma connecting_alone:
  assumes "world_inv w" and "m_state (w_connector w) = kConnecting"
  shows "w_timers w = 0" "Start_in_reactor \<notin> set (w_queue w)" "Reset_channel \<notin> set (w_queue w)"
  using assms by (auto simp: world_inv_def attempts_def simp flip: count_list_0)

lemma connector_inv_flag [simp]: "connector_inv (k\<lparr>m_is_connected := b\<rparr>) = connector_inv k"
  by (simp add: connector_inv_def channel_active_def)

lemma event_keeps:
  assumes "world_inv w" and "channel_active (w_connector w)"
  shows "world_ok (connector_step (A_event er out err self) w)"
proof -
  let ?k = "w_connector w"
  have k: "connector_inv ?k" "m_state ?k = kConnecting" using assms by (auto simp: world_inv_def connector_inv_def)
  note alone = connecting_alone [OF assms(1) k(2)]
  have w: "attempt_ended ?k (handle_write err self ?k)" by (rule write_ends [OF k])
  have id: "kbind r (\<lambda>k. Inr (k, [])) = r" for r by (cases r) (auto simp: kbind_def)
  have e: "attempt_ended ?k (kbind (handle_error ?k) (\<lambda>k. if out then handle_write err self k else Inr (k, [])))"
  proof -
    from error_ends [OF k] obtain k' evs where *: "handle_error ?k = Inr (k', evs)" "connector_inv k'"
      "concat (map task_of evs) = [Reset_channel]" "m_conn_channel k' \<noteq> None"
      "m_state k' = kDisconnected \<and> length (filter is_timer evs) \<le> 1 \<or> m_state k' = kConnected \<and> filter is_timer evs = []"
      by (auto simp: attempt_ended_def)
    moreover have "m_state k' = kDisconnected"
      using *(1) k(2) by (auto simp: handle_error_def retry_def Let_def res_simps split: if_splits prod.splits)
    ultimately show ?thesis by (auto simp: attempt_ended_def kbind_def handle_write_def)
  qed
  have none: "world_ok (world_after w (Inr (?k, [])))" using assms(1) by (simp add: world_ok_def world_after_def world_inv_def attempts_def)
  show ?thesis
    using end_keeps [OF e alone(1,2)] end_keeps [OF w alone(1,2)] none
    by (cases er; cases out) (simp_all add: kbind_def split_def)
qed

lemma functor_keeps:
  assumes "world_inv w" and "w_queue w \<noteq> []" and "0 \<le> s"
  shows "world_ok (connector_step (A_functor s e) w)"
proof -
  let ?w = "w\<lparr>w_queue := tl (w_queue w)\<rparr>"
  let ?k = "w_connector w"
  obtain t q where q: "w_queue w = t # q" using assms(2) by (cases "w_queue w") auto
  have k: "connector_inv ?k" using assms(1) by (simp add: world_inv_def)
  show ?thesis
  proof (cases t)
    case Reset_channel
    then have "m_state ?k \<noteq> kConnecting" "Start_in_reactor \<notin> set q" using assms(1) q by (auto simp: world_inv_def)
    then show ?thesis using Reset_channel q assms(1)
      by (auto simp: world_ok_def world_inv_def attempts_def reset_channel_def connector_inv_def channel_active_def Let_def)
  next
    case Start_in_reactor
    then have *: "w_timers w = 0" "Start_in_reactor \<notin> set q" "m_state ?k = kDisconnected" "Reset_channel \<notin> set q"
      using assms(1) q by (auto simp: world_inv_def attempts_def simp flip: count_list_0 split: if_splits)
    moreover have "m_conn_channel ?k = None" using idle_channel [OF assms(1)] * Start_in_reactor q by auto
    ultimately show ?thesis using start_keeps [OF assms(3) k, of ?w e] Start_in_reactor q by (simp add: Let_def)
  next
    case Stop_in_reactor
    show ?thesis
    proof (cases "m_state ?k = kConnecting")
      case True
      then show ?thesis using end_keeps [OF stop_ends [OF k True], of ?w] connecting_alone [OF assms(1) True] Stop_in_reactor q
        by (simp add: Let_def)
    next
      case False
      then have "stop_in_reactor True ?k = Inr (?k, [])" by (simp add: stop_in_reactor_def in_loop_thread_def)
      then show ?thesis using assms(1) Stop_in_reactor q
        by (auto simp: world_ok_def world_after_def world_inv_def attempts_def Let_def)
    qed
  qed
qed

lemma step_keeps:
  assumes "world_inv w" and "action_enabled a w" and "action_legal a w"
  shows "world_ok (connector_step a w)"
proof (cases a)
  case (A_start t s e)
  let ?k = "(w_connector w)\<lparr>m_is_connected := True\<rparr>"
  have idle: "connector_idle w" "0 \<le> s" using assms(3) A_start by simp_all
  have "m_conn_channel ?k = None" using idle_channel [OF assms(1)] idle(1) by (simp add: connector_idle_def)
  then have "world_ok (world_after w (start_in_reactor True s e ?k))"
    using idle assms(1) by (intro start_keeps) (simp_all add: connector_idle_def world_inv_def)
  moreover have "world_ok (world_after w (Inr (?k, [Queue_start_in_reactor])))"
    using idle(1) assms(1)
    by (auto simp: world_ok_def world_after_def world_inv_def attempts_def count_list_append connector_idle_def count_list_0)
  ultimately show ?thesis using A_start by (cases t) (simp_all add: start_def)
next
  case A_stop
  then show ?thesis using assms(1)
    by (auto simp: stop_def world_ok_def world_after_def world_inv_def attempts_def count_list_append)
next
  case (A_restart s e)
  let ?k = "(w_connector w)\<lparr> m_state := kDisconnected, m_retry_delay_ms := kInitRetryDelayMs, m_is_connected := True \<rparr>"
  have st: "m_state (w_connector w) = kConnected" "Reset_channel \<notin> set (w_queue w)" "0 \<le> s" using assms(2,3) A_restart by simp_all
  have "w_timers w = 0" "Start_in_reactor \<notin> set (w_queue w)"
    using assms(1) st(1) by (auto simp: world_inv_def attempts_def simp flip: count_list_0)
  moreover have "m_conn_channel ?k = None" using idle_channel [OF assms(1)] st by simp
  moreover have "connector_inv ?k" using calculation(3)
    by (simp add: connector_inv_def channel_active_def kInitRetryDelayMs_def kMaxRetryDelayMs_def)
  ultimately have "world_ok (world_after w (start_in_reactor True s e ?k))" using st by (intro start_keeps) simp_all
  then show ?thesis using A_restart by (simp add: restart_def in_loop_thread_def)
next
  case (A_functor s e)
  then show ?thesis using assms functor_keeps by simp
next
  case (A_timer s e)
  let ?w = "w\<lparr>w_timers := w_timers w - 1\<rparr>"
  have t: "0 < w_timers w" "Reset_channel \<notin> set (w_queue w)" "0 \<le> s" using assms(2,3) A_timer by simp_all
  then have *: "w_timers w = 1" "Start_in_reactor \<notin> set (w_queue w)" "m_state (w_connector w) = kDisconnected"
    using assms(1) by (auto simp: world_inv_def attempts_def simp flip: count_list_0 split: if_splits)
  moreover have "m_conn_channel (w_connector w) = None" using idle_channel [OF assms(1)] * t by simp
  ultimately show ?thesis using start_keeps [of s "w_connector w" ?w e] t assms(1) A_timer by (simp add: world_inv_def)
next
  case (A_event er out err self)
  then show ?thesis using assms event_keeps by simp
qed

fun legal_run :: "connector_action list \<Rightarrow> connector_world \<Rightarrow> bool" where
  "legal_run [] w \<longleftrightarrow> True"
| "legal_run (a # as) w \<longleftrightarrow>
     (if action_enabled a w then action_legal a w \<and> (case connector_step a w of Inr w' \<Rightarrow> legal_run as w' | Inl e \<Rightarrow> True)
      else legal_run as w)"

lemma run_keeps: "world_inv w \<Longrightarrow> legal_run as w \<Longrightarrow> world_ok (connector_run as w)"
proof (induction as arbitrary: w)
  case (Cons a as)
  show ?case
  proof (cases "action_enabled a w")
    case True
    then obtain w' where "connector_step a w = Inr w'" "world_inv w'"
      using step_keeps [OF Cons.prems(1) True] Cons.prems(2) by (auto simp: world_ok_def)
    then show ?thesis using Cons True by simp
  qed (use Cons in simp)
qed (simp add: world_ok_def)

lemma world_inv_init [simp]: "world_inv world_init"
  by (simp add: world_inv_def world_init_def attempts_def Connector_init_def connector_inv_def channel_active_def
      kInitRetryDelayMs_def kMaxRetryDelayMs_def)

section \<open>Properties\<close>

text \<open>
  C8: The connector keeps its assertions. Under any order of timers, functors, channel events, stops, and starts
  made while nothing is under way, no assertion fails and no null channel is used; at most one attempt is
  under way; the channel is registered exactly while connecting; and the retry delay stays between half
  a second and thirty seconds.
\<close>

theorem connector_safe:
  assumes "legal_run as world_init"
  shows "\<exists>w. connector_run as world_init = Inr w \<and> attempts w \<le> 1 \<and>
     (channel_active (w_connector w) \<longleftrightarrow> m_state (w_connector w) = kConnecting) \<and>
     500 \<le> m_retry_delay_ms (w_connector w) \<and> m_retry_delay_ms (w_connector w) \<le> 30000"
  using run_keeps [OF world_inv_init assms]
  by (auto simp: world_ok_def world_inv_def connector_inv_def kInitRetryDelayMs_def kMaxRetryDelayMs_def)

lemmas connector_eval = world_init_def Connector_init_def connector_idle_def start_def start_in_reactor_def connect_def connecting_def
  retry_def stop_def stop_in_reactor_def handle_write_def handle_error_def remove_and_reset_channel_def kbind_def world_after_def
  in_loop_thread_def massert_def errno_defs kInitRetryDelayMs_def kMaxRetryDelayMs_def channel_active_def channel_request_def
  chan_set_events_def is_none_event_def kNoneEvent_def Channel_init_def Let_def reset_channel_def

theorem connector_safe_witness:
  "\<exists>w. connector_run [A_start True 5 EINPROGRESS, A_event True True 111 False, A_functor 0 0, A_timer 6 EINPROGRESS,
        A_event False True 0 False] world_init = Inr w \<and>
     w_log w = [Queue_reset_channel, Close_fd 5, Retry_timer 500, Queue_reset_channel, New_conn_callback 6] \<and> attempts w \<le> 1"
proof -
  let ?as = "[A_start True 5 EINPROGRESS, A_event True True 111 False, A_functor 0 0, A_timer 6 EINPROGRESS, A_event False True 0 False]"
  have "legal_run ?as world_init" by (simp add: connector_eval)
  from connector_safe [OF this] obtain w where w: "connector_run ?as world_init = Inr w" "attempts w \<le> 1" by blast
  moreover from w(1) have "w_log w = [Queue_reset_channel, Close_fd 5, Retry_timer 500, Queue_reset_channel, New_conn_callback 6]"
    by (auto simp: connector_eval)
  ultimately show ?thesis by blast
qed

text \<open>A refused attempt while the client wants a connection.\<close>

definition backoff_ms :: "nat \<Rightarrow> int" where
  "backoff_ms i = min (500 * 2 ^ i) 30000"

definition refused :: "nat \<Rightarrow> connector_event list \<Rightarrow> connector_world \<Rightarrow> bool" where
  "refused i done_evs w \<longleftrightarrow>
     w = \<lparr> w_connector = \<lparr> m_is_connected = True, m_state = kDisconnected, m_conn_channel = None, m_retry_delay_ms = backoff_ms i \<rparr>,
          w_queue = [], w_timers = 1, w_log = done_evs \<rparr>"

lemma backoff_double: "min (backoff_ms i * 2) 30000 = backoff_ms (Suc i)"
  by (simp add: backoff_ms_def min_def)

lemma refused_again:
  assumes "refused i done_evs w" and "0 \<le> s"
  shows "\<exists>w'. connector_run (A_timer s ECONNREFUSED # as) w = connector_run as w' \<and>
     refused (Suc i) (done_evs @ [Close_fd s, Retry_timer (backoff_ms i)]) w'"
  using assms by (simp add: refused_def connector_eval backoff_double)

lemma refused_repeatedly:
  assumes "refused i done_evs w" and "0 \<le> s"
  shows "\<exists>w'. connector_run (replicate n (A_timer s ECONNREFUSED)) w = Inr w' \<and>
     w_log w' = done_evs @ concat (map (\<lambda>j. [Close_fd s, Retry_timer (backoff_ms j)]) [i..<i + n])"
  using assms(1)
proof (induction n arbitrary: i done_evs w)
  case 0
  then show ?case by (simp add: refused_def)
next
  case (Suc n)
  from refused_again [OF Suc.prems assms(2), of "replicate n (A_timer s ECONNREFUSED)"]
  obtain w1 where "connector_run (A_timer s ECONNREFUSED # replicate n (A_timer s ECONNREFUSED)) w =
      connector_run (replicate n (A_timer s ECONNREFUSED)) w1" "refused (Suc i) (done_evs @ [Close_fd s, Retry_timer (backoff_ms i)]) w1"
    by blast
  moreover have "[i..<i + Suc n] = i # [Suc i..<Suc i + n]" by (simp add: upt_conv_Cons del: upt_Suc)
  ultimately show ?case using Suc.IH [of "Suc i" "done_evs @ [Close_fd s, Retry_timer (backoff_ms i)]" w1] by (auto simp del: connector_run.simps upt_Suc)
qed

text \<open>
  C29: The retries of a refused connection back off exponentially: every attempt closes its socket, the delays are 500,
  1000, 2000, ... milliseconds, and from the seventh on they are 30 seconds; the connector never gives up.
\<close>

theorem connector_backoff:
  assumes "0 \<le> s"
  shows "\<exists>w. connector_run (A_start True s ECONNREFUSED # replicate n (A_timer s ECONNREFUSED)) world_init = Inr w \<and>
     w_log w = concat (map (\<lambda>i. [Close_fd s, Retry_timer (min (500 * 2 ^ i) 30000)]) [0..<Suc n])"
proof -
  have "\<exists>w. connector_run (A_start True s ECONNREFUSED # as) world_init = connector_run as w \<and>
     refused 1 [Close_fd s, Retry_timer (backoff_ms 0)] w" for as
    using assms by (simp add: refused_def connector_eval backoff_ms_def)
  then obtain w where w: "connector_run (A_start True s ECONNREFUSED # replicate n (A_timer s ECONNREFUSED)) world_init =
      connector_run (replicate n (A_timer s ECONNREFUSED)) w" "refused 1 [Close_fd s, Retry_timer (backoff_ms 0)] w" by blast
  have "[0..<Suc n] = 0 # [1..<1 + n]" by (simp add: upt_conv_Cons del: upt_Suc)
  then show ?thesis using refused_repeatedly [OF w(2) assms, of n] w(1)
    by (auto simp: backoff_ms_def [abs_def] simp del: connector_run.simps upt_Suc)
qed

theorem connector_backoff_witness:
  "\<exists>w. connector_run (A_start True 5 ECONNREFUSED # replicate 2 (A_timer 5 ECONNREFUSED)) world_init = Inr w \<and>
     w_log w = [Close_fd 5, Retry_timer 500, Close_fd 5, Retry_timer 1000, Close_fd 5, Retry_timer 2000]"
  using connector_backoff [of 5 2] by (simp add: upt_conv_Cons del: connector_run.simps)

text \<open>
  A connector that is stopped while a retry timer is pending and then started again fails an assertion: stopping
  does not cancel the timer, and when it fires the new attempt has left the disconnected state.
\<close>

theorem connector_restart_fails:
  assumes "0 \<le> s" and "0 \<le> s'"
  shows "connector_run [A_start True s ECONNREFUSED, A_stop, A_functor 0 0, A_start True s' EINPROGRESS, A_timer s'' e]
     world_init = Inl (AssertFailed ''m_state == kDisconnected'')"
  using assms by (simp add: connector_eval)

theorem connector_restart_fails_witness:
  "connector_run [A_start True 5 ECONNREFUSED, A_stop, A_functor 0 0, A_start True 6 EINPROGRESS, A_timer 7 0]
     world_init = Inl (AssertFailed ''m_state == kDisconnected'')"
  using connector_restart_fails [of 5 6 7 0] by simp

end
