(* ===== verification/TcpServer.thy ===== *)
theory TcpServer
  imports TimerQueue Cformat Sorted_Map "HOL-Library.List_Lexorder" "HOL-Library.Char_ord"
begin

text \<open>
  ReactorThreadPool.h, ReactorThreadPool.cc, TcpServer.h and TcpServer.cc: the pool of reactors behind a server and the
  server's table of connections. Reactors are natural numbers. What \<^verbatim>\<open>start_reactor\<close> of the i-th thread returns is
  an argument. What is handed to a reactor is a list of events.
\<close>

section \<open>The pool of reactors\<close>

record thread_pool =
  m_default_reactor :: nat
  pool_name :: string
  m_has_started :: bool
  m_size_pool :: int
  m_next_idx :: int
  m_reactors :: "nat list"

definition ReactorThreadPool_init :: "nat \<Rightarrow> string \<Rightarrow> thread_pool" where
  "ReactorThreadPool_init baseLoop name_arg =
     \<lparr> m_default_reactor = baseLoop, pool_name = name_arg, m_has_started = False, m_size_pool = 0, m_next_idx = 0,
       m_reactors = [] \<rparr>"

definition set_pool_size :: "int \<Rightarrow> thread_pool \<Rightarrow> thread_pool" where
  "set_pool_size numThreads p = p\<lparr>m_size_pool := numThreads\<rparr>"

text \<open>
  The result has the names of the threads and whether the initial callback runs in the base loop. Each name fits
  the buffer made for it, which has 32 characters more than the name of the pool.
\<close>

definition pool_start :: "bool \<Rightarrow> bool \<Rightarrow> (nat \<Rightarrow> nat) \<Rightarrow> thread_pool \<Rightarrow> (string list \<times> bool \<times> thread_pool) res" where
  "pool_start in_thread cb start_reactor p =
     massert (\<not> m_has_started p) ''!m_has_started''
       (in_loop_thread in_thread
          (let n = nat (m_size_pool p);
               names = map (\<lambda>i. snprintf (length (pool_name p) + 32) (pool_name p @ dec_int (int i))) [0..<n];
               p = p\<lparr> m_reactors := m_reactors p @ map start_reactor [0..<n], m_has_started := True \<rparr>
           in Inr (names, m_size_pool p = 0 \<and> cb, p)))"

definition get_next_reactor :: "bool \<Rightarrow> thread_pool \<Rightarrow> (nat \<times> thread_pool) res" where
  "get_next_reactor in_thread p =
     in_loop_thread in_thread
       (massert (m_has_started p) ''m_has_started''
          (if m_reactors p \<noteq> []
           then mdefined (0 \<le> m_next_idx p \<and> nat (m_next_idx p) < length (m_reactors p)) ''m_reactors[m_next_idx]''
                  (Inr (m_reactors p ! nat (m_next_idx p),
                        p\<lparr>m_next_idx := (m_next_idx p + 1) mod int (length (m_reactors p))\<rparr>))
           else Inr (m_default_reactor p, p)))"

definition get_reactor_for_hashcode :: "bool \<Rightarrow> nat \<Rightarrow> thread_pool \<Rightarrow> nat res" where
  "get_reactor_for_hashcode in_thread hash p =
     in_loop_thread in_thread
       (Inr (if m_reactors p \<noteq> [] then m_reactors p ! (hash mod length (m_reactors p)) else m_default_reactor p))"

definition get_all_reactors :: "bool \<Rightarrow> thread_pool \<Rightarrow> nat list res" where
  "get_all_reactors in_thread p =
     in_loop_thread in_thread
       (massert (m_has_started p) ''m_has_started''
          (Inr (if m_reactors p = [] then [m_default_reactor p] else m_reactors p)))"

section \<open>The server\<close>

record server_conn =
  sc_reactor :: nat
  sc_fd :: int

record tcp_server =
  m_ip_port :: string
  srv_name :: string
  m_reactor_thread_poll :: thread_pool
  m_server_started :: int
  g_conn_counter :: int
  m_conn_map :: "(string \<times> server_conn) list"

datatype server_event =
    Connect_established nat string      \<comment> \<open>\<^verbatim>\<open>run_asap_in_reactor\<close> of the connection's \<^verbatim>\<open>connect_established\<close>\<close>
  | Connect_destroyed nat string
  | Listen
  | Queue_remove string

definition TcpServer_init :: "nat \<Rightarrow> string \<Rightarrow> string \<Rightarrow> tcp_server" where
  "TcpServer_init reactor ip_port name_arg =
     \<lparr> m_ip_port = ip_port, srv_name = name_arg, m_reactor_thread_poll = ReactorThreadPool_init reactor name_arg,
       m_server_started = 0, g_conn_counter = 0, m_conn_map = [] \<rparr>"

definition TcpServer_destroy :: "bool \<Rightarrow> tcp_server \<Rightarrow> server_event list res" where
  "TcpServer_destroy in_thread s =
     in_loop_thread in_thread (Inr (map (\<lambda>(name, c). Connect_destroyed (sc_reactor c) name) (m_conn_map s)))"

definition set_reactor_pool_size :: "int \<Rightarrow> tcp_server \<Rightarrow> tcp_server res" where
  "set_reactor_pool_size num_threads s =
     massert (0 \<le> num_threads) ''0 <= num_threads''
       (Inr (s\<lparr>m_reactor_thread_poll := set_pool_size num_threads (m_reactor_thread_poll s)\<rparr>))"

definition server_start ::
    "bool \<Rightarrow> bool \<Rightarrow> bool \<Rightarrow> (nat \<Rightarrow> nat) \<Rightarrow> tcp_server \<Rightarrow> (tcp_server \<times> server_event list) res" where
  "server_start in_thread cb is_listenning start_reactor s =
     (let old = m_server_started s; s = s\<lparr>m_server_started := 1\<rparr>
      in if old = 0
         then rbind (pool_start in_thread cb start_reactor (m_reactor_thread_poll s)) (\<lambda>(names, init, p).
              massert (\<not> is_listenning) ''!m_acceptor->is_listenning()''
                (Inr (s\<lparr>m_reactor_thread_poll := p\<rparr>, [Listen])))
         else Inr (s, []))"

definition conn_name_of :: "tcp_server \<Rightarrow> int \<Rightarrow> string" where
  "conn_name_of s n = srv_name s @ snprintf 64 ('':'' @ m_ip_port s @ ''#'' @ dec_int n)"

definition new_conn_callback :: "bool \<Rightarrow> int \<Rightarrow> tcp_server \<Rightarrow> (tcp_server \<times> server_event list) res" where
  "new_conn_callback in_thread sockfd s =
     in_loop_thread in_thread
       (rbind (get_next_reactor in_thread (m_reactor_thread_poll s)) (\<lambda>(sockfd_reactor, p).
          let conn_name = conn_name_of s (g_conn_counter s)
          in Inr (s\<lparr> m_reactor_thread_poll := p, g_conn_counter := cast_int32 (g_conn_counter s + 1),
                    m_conn_map := map_put conn_name \<lparr> sc_reactor = sockfd_reactor, sc_fd = sockfd \<rparr> (m_conn_map s) \<rparr>,
                  [Connect_established sockfd_reactor conn_name])))"

text \<open>\<open>conn\<close> and its name are the connection that asks to be removed.\<close>

definition remove_connection_in_reactor ::
    "bool \<Rightarrow> string \<Rightarrow> server_conn \<Rightarrow> tcp_server \<Rightarrow> (tcp_server \<times> server_event list) res" where
  "remove_connection_in_reactor in_thread name conn s =
     in_loop_thread in_thread
       (case map_erase name (m_conn_map s) of (n, m) \<Rightarrow>
          massert (n = 1) ''n == 1'' (Inr (s\<lparr>m_conn_map := m\<rparr>, [Connect_destroyed (sc_reactor conn) name])))"

definition remove_conn :: "bool \<Rightarrow> string \<Rightarrow> server_conn \<Rightarrow> tcp_server \<Rightarrow> (tcp_server \<times> server_event list) res" where
  "remove_conn in_thread name conn s =
     (if in_thread then remove_connection_in_reactor in_thread name conn s else Inr (s, [Queue_remove name]))"

section \<open>A server and its connections\<close>

text \<open>
  The accepted connections in their order, those whose close callback has run (it runs once), and the removals
  that other threads have queued at the acceptor's loop.
\<close>

record server_world =
  sw_server :: tcp_server
  sw_accepted :: "(string \<times> server_conn) list"
  sw_closed :: "nat list"
  sw_queue :: "nat list"
  sw_destroyed :: "nat list"

datatype server_action = Accept int | Close bool nat | Run_remove

fun server_step :: "server_action \<Rightarrow> server_world \<Rightarrow> server_world res" where
  "server_step (Accept fd) w =
     rbind (new_conn_callback True fd (sw_server w)) (\<lambda>(s, evs).
       case evs of
         [Connect_established r name] \<Rightarrow>
           Inr (w\<lparr> sw_server := s, sw_accepted := sw_accepted w @ [(name, \<lparr> sc_reactor = r, sc_fd = fd \<rparr>)] \<rparr>)
       | _ \<Rightarrow> Inr (w\<lparr>sw_server := s\<rparr>))"
| "server_step (Close in_thread i) w =
     (if i < length (sw_accepted w) \<and> i \<notin> set (sw_closed w)
      then case sw_accepted w ! i of (name, conn) \<Rightarrow>
           rbind (remove_conn in_thread name conn (sw_server w)) (\<lambda>(s, evs).
             Inr (w\<lparr> sw_server := s, sw_closed := i # sw_closed w, sw_queue := sw_queue w @ (if in_thread then [] else [i]),
                    sw_destroyed := sw_destroyed w @ (if in_thread then [i] else []) \<rparr>))
      else Inr w)"
| "server_step Run_remove w =
     (case sw_queue w of
        [] \<Rightarrow> Inr w
      | i # q \<Rightarrow>
          (case sw_accepted w ! i of (name, conn) \<Rightarrow>
             rbind (remove_connection_in_reactor True name conn (sw_server w)) (\<lambda>(s, evs).
               Inr (w\<lparr> sw_server := s, sw_queue := q, sw_destroyed := sw_destroyed w @ [i] \<rparr>))))"

fun server_run :: "server_action list \<Rightarrow> server_world \<Rightarrow> server_world res" where
  "server_run [] w = Inr w"
| "server_run (a # as) w = rbind (server_step a w) (server_run as)"

definition server_world_init :: "tcp_server \<Rightarrow> server_world" where
  "server_world_init s = \<lparr> sw_server = s, sw_accepted = [], sw_closed = [], sw_queue = [], sw_destroyed = [] \<rparr>"

section \<open>Names\<close>

lemma conn_name_eq:
  assumes "length (m_ip_port s) \<le> 51" and "0 \<le> n" and "n < 2147483648"
  shows "conn_name_of s n = srv_name s @ '':'' @ m_ip_port s @ ''#'' @ dec_nat (nat n)"
proof -
  have "length (dec_nat (nat n)) \<le> 10" using assms(2,3) by (intro length_dec_nat) (simp_all add: nat_less_iff)
  then show ?thesis using assms by (simp add: conn_name_of_def snprintf_def dec_int_def)
qed

lemma conn_name_inj:
  assumes "length (m_ip_port s) \<le> 51" and "i < 2147483648" and "j < 2147483648"
    and "conn_name_of s (int i) = conn_name_of s (int j)"
  shows "i = j"
  using assms conn_name_eq [of s "int i"] conn_name_eq [of s "int j"] by (auto intro: dec_nat_inj)

text \<open>The name depends on the server's own name and address only.\<close>

lemma conn_name_cong: "srv_name s' = srv_name s \<Longrightarrow> m_ip_port s' = m_ip_port s \<Longrightarrow> conn_name_of s' n = conn_name_of s n"
  by (simp add: conn_name_of_def)

section \<open>Round robin\<close>

definition reactor_of :: "thread_pool \<Rightarrow> nat \<Rightarrow> nat" where
  "reactor_of p i = (if m_reactors p = [] then m_default_reactor p else m_reactors p ! (i mod length (m_reactors p)))"

definition pool_at :: "thread_pool \<Rightarrow> nat \<Rightarrow> thread_pool \<Rightarrow> bool" where
  "pool_at p0 i p \<longleftrightarrow> p = (if m_reactors p0 = [] then p0 else p0\<lparr>m_next_idx := int (i mod length (m_reactors p0))\<rparr>)"

lemma next_reactor:
  assumes "m_has_started p0" and "pool_at p0 i p"
  shows "\<exists>p'. get_next_reactor True p = Inr (reactor_of p0 i, p') \<and> pool_at p0 (Suc i) p'"
proof (cases "m_reactors p0 = []")
  case True
  then show ?thesis using assms by (simp add: get_next_reactor_def in_loop_thread_def massert_def pool_at_def reactor_of_def)
next
  case False
  let ?n = "length (m_reactors p0)"
  have "(int (i mod ?n) + 1) mod int ?n = int (Suc i mod ?n)"
    by (metis mod_Suc_eq of_nat_Suc of_nat_mod add.commute)
  then show ?thesis using False assms
    by (simp add: get_next_reactor_def in_loop_thread_def massert_def mdefined_def pool_at_def reactor_of_def)
qed

section \<open>The table of connections\<close>

definition conn_of :: "tcp_server \<Rightarrow> int list \<Rightarrow> nat \<Rightarrow> string \<times> server_conn" where
  "conn_of s0 fds i =
     (conn_name_of s0 (int i), \<lparr> sc_reactor = reactor_of (m_reactor_thread_poll s0) i, sc_fd = fds ! i \<rparr>)"

text \<open>
  The table has exactly the accepted connections that are not closed, and the closed ones whose removal is
  still queued.
\<close>

definition server_inv :: "tcp_server \<Rightarrow> int list \<Rightarrow> server_world \<Rightarrow> bool" where
  "server_inv s0 fds w \<longleftrightarrow>
     (let s = sw_server w; n = length fds
      in srv_name s = srv_name s0 \<and> m_ip_port s = m_ip_port s0 \<and> g_conn_counter s = int n \<and>
         pool_at (m_reactor_thread_poll s0) n (m_reactor_thread_poll s) \<and> map_inv (m_conn_map s) \<and>
         sw_accepted w = map (conn_of s0 fds) [0..<n] \<and>
         set (sw_closed w) \<subseteq> {..<n} \<and> set (sw_queue w) \<subseteq> set (sw_closed w) \<and> distinct (sw_queue w @ sw_destroyed w) \<and>
         set (sw_closed w) = set (sw_queue w) \<union> set (sw_destroyed w) \<and>
         (\<forall>i<n. map_find (fst (conn_of s0 fds i)) (m_conn_map s) =
            (if i \<in> set (sw_destroyed w) then None else Some (snd (conn_of s0 fds i)))) \<and>
         (\<forall>nm c. map_find nm (m_conn_map s) = Some c \<longrightarrow> (\<exists>i<n. nm = fst (conn_of s0 fds i))))"

lemma server_invD:
  assumes "server_inv s0 fds w"
  shows "srv_name (sw_server w) = srv_name s0" "m_ip_port (sw_server w) = m_ip_port s0"
    "g_conn_counter (sw_server w) = int (length fds)"
    "pool_at (m_reactor_thread_poll s0) (length fds) (m_reactor_thread_poll (sw_server w))" "map_inv (m_conn_map (sw_server w))"
    "sw_accepted w = map (conn_of s0 fds) [0..<length fds]"
    "set (sw_closed w) \<subseteq> {..<length fds}" "set (sw_queue w) \<subseteq> set (sw_closed w)" "distinct (sw_queue w @ sw_destroyed w)"
    "set (sw_closed w) = set (sw_queue w) \<union> set (sw_destroyed w)"
    "\<And>i. i < length fds \<Longrightarrow> map_find (fst (conn_of s0 fds i)) (m_conn_map (sw_server w)) =
            (if i \<in> set (sw_destroyed w) then None else Some (snd (conn_of s0 fds i)))"
    "\<And>nm c. map_find nm (m_conn_map (sw_server w)) = Some c \<Longrightarrow> \<exists>i<length fds. nm = fst (conn_of s0 fds i)"
  using assms unfolding server_inv_def Let_def by (elim conjE, blast)+

lemma accept_step:
  assumes "server_inv s0 fds w" and "m_has_started (m_reactor_thread_poll s0)" and "length (m_ip_port s0) \<le> 51"
    and "length fds < 2147483647"
  shows "\<exists>w'. server_step (Accept fd) w = Inr w' \<and> server_inv s0 (fds @ [fd]) w'"
proof -
  let ?s = "sw_server w" and ?n = "length fds"
  note inv = server_invD [OF assms(1)]
  obtain p where p: "get_next_reactor True (m_reactor_thread_poll ?s) = Inr (reactor_of (m_reactor_thread_poll s0) ?n, p)"
    "pool_at (m_reactor_thread_poll s0) (Suc ?n) p"
    using next_reactor [OF assms(2) inv(4)] by blast
  have nm: "conn_name_of ?s (g_conn_counter ?s) = conn_name_of s0 (int ?n)" using conn_name_cong [OF inv(1,2)] inv(3) by simp
  have cnt: "cast_int32 (g_conn_counter ?s + 1) = int ?n + 1"
    using inv(3) assms(4) by (simp add: cast_int32_fits fits_int32_small)
  have old: "conn_of s0 (fds @ [fd]) i = conn_of s0 fds i" if "i < ?n" for i using that by (simp add: conn_of_def nth_append)
  have new: "conn_of s0 (fds @ [fd]) ?n = (conn_name_of s0 (int ?n), \<lparr> sc_reactor = reactor_of (m_reactor_thread_poll s0) ?n, sc_fd = fd \<rparr>)"
    by (simp add: conn_of_def)
  have fresh: "fst (conn_of s0 fds i) \<noteq> conn_name_of s0 (int ?n)" if "i < ?n" for i
    using that conn_name_inj [OF assms(3), of i ?n] assms(4) by (auto simp: conn_of_def)
  have dn: "?n \<notin> set (sw_destroyed w)" using inv(7,10) by auto
  let ?nm = "conn_name_of s0 (int ?n)" and ?c = "\<lparr> sc_reactor = reactor_of (m_reactor_thread_poll s0) ?n, sc_fd = fd \<rparr>"
  define s' where "s' = ?s\<lparr> m_reactor_thread_poll := p, g_conn_counter := int ?n + 1, m_conn_map := map_put ?nm ?c (m_conn_map ?s) \<rparr>"
  define w' where "w' = w\<lparr> sw_server := s', sw_accepted := sw_accepted w @ [(?nm, ?c)] \<rparr>"
  have step: "server_step (Accept fd) w = Inr w'"
    using p(1) nm cnt by (simp add: new_conn_callback_def in_loop_thread_def Let_def w'_def s'_def)
  have acc: "map (conn_of s0 (fds @ [fd])) [0..<length (fds @ [fd])] = map (conn_of s0 fds) [0..<?n] @ [(?nm, ?c)]"
    using old new by simp
  have f1: "map_find (fst (conn_of s0 (fds @ [fd]) i)) (m_conn_map s') =
      (if i \<in> set (sw_destroyed w) then None else Some (snd (conn_of s0 (fds @ [fd]) i)))" if "i < Suc ?n" for i
  proof (cases "i = ?n")
    case True
    then show ?thesis using dn new by (simp add: s'_def find_put)
  next
    case False
    then have "i < ?n" using that by simp
    then show ?thesis using old fresh inv(11) by (simp add: s'_def find_put)
  qed
  have f2: "\<exists>i<Suc ?n. a = fst (conn_of s0 (fds @ [fd]) i)" if found: "map_find a (m_conn_map s') = Some c" for a c
  proof (cases "a = ?nm")
    case True
    then show ?thesis using new by (intro exI [of _ ?n]) simp
  next
    case False
    then obtain i where "i < ?n" "a = fst (conn_of s0 fds i)" using found inv(12) [of a c] by (auto simp: s'_def find_put)
    then show ?thesis using old by (intro exI [of _ i]) simp
  qed
  have "server_inv s0 (fds @ [fd]) w'"
    unfolding server_inv_def Let_def
  proof (intro conjI)
    show "sw_accepted w' = map (conn_of s0 (fds @ [fd])) [0..<length (fds @ [fd])]"
      unfolding acc using inv(6) by (simp add: w'_def)
    show "\<forall>i<length (fds @ [fd]). map_find (fst (conn_of s0 (fds @ [fd]) i)) (m_conn_map (sw_server w')) =
        (if i \<in> set (sw_destroyed w') then None else Some (snd (conn_of s0 (fds @ [fd]) i)))"
      using f1 by (simp add: w'_def)
    show "\<forall>nm c. map_find nm (m_conn_map (sw_server w')) = Some c \<longrightarrow> (\<exists>i<length (fds @ [fd]). nm = fst (conn_of s0 (fds @ [fd]) i))"
      using f2 by (simp add: w'_def)
  qed (use inv(1-3,5,7-10) p(2) in \<open>auto simp: w'_def s'_def\<close>)
  with step show ?thesis by blast
qed

lemma remove_found:
  assumes "map_inv (m_conn_map s)" and "map_find name (m_conn_map s) \<noteq> None"
  shows "\<exists>s'. remove_connection_in_reactor True name c s = Inr (s', [Connect_destroyed (sc_reactor c) name]) \<and>
     s' = s\<lparr>m_conn_map := snd (map_erase name (m_conn_map s))\<rparr>"
  using erase_count [OF assms(1), of name] assms(2)
  by (simp add: remove_connection_in_reactor_def in_loop_thread_def massert_def split_def)

lemma removed_inv:
  assumes "server_inv s0 fds w" and "length (m_ip_port s0) \<le> 51" and "length fds < 2147483648"
    and "i < length fds" and "i \<notin> set (sw_destroyed w)"
    and "set cl = insert i (set (sw_closed w))" and "q = filter (\<lambda>j. j \<noteq> i) (sw_queue w)"
    and "name = fst (conn_of s0 fds i)"
  shows "\<exists>s'. remove_connection_in_reactor True name c (sw_server w) = Inr (s', [Connect_destroyed (sc_reactor c) name]) \<and>
     server_inv s0 fds (w\<lparr> sw_server := s', sw_closed := cl, sw_queue := q, sw_destroyed := sw_destroyed w @ [i] \<rparr>)"
proof -
  note inv = server_invD [OF assms(1)]
  have "map_find name (m_conn_map (sw_server w)) \<noteq> None" using inv(11) assms(4,5,8) by simp
  then obtain s' where s': "remove_connection_in_reactor True name c (sw_server w) = Inr (s', [Connect_destroyed (sc_reactor c) name])"
    "s' = (sw_server w)\<lparr>m_conn_map := snd (map_erase name (m_conn_map (sw_server w)))\<rparr>"
    using remove_found [OF inv(5)] by blast
  have other: "fst (conn_of s0 fds j) = name \<longleftrightarrow> j = i" if "j < length fds" for j
    using that conn_name_inj [OF assms(2), of j i] assms(3,4,8) by (auto simp: conn_of_def)
  have "server_inv s0 fds (w\<lparr> sw_server := s', sw_closed := cl, sw_queue := q, sw_destroyed := sw_destroyed w @ [i] \<rparr>)"
    unfolding server_inv_def Let_def
  proof (intro conjI)
    show "\<forall>j<length fds. map_find (fst (conn_of s0 fds j)) (m_conn_map (sw_server (w\<lparr> sw_server := s', sw_closed := cl, sw_queue := q,
          sw_destroyed := sw_destroyed w @ [i] \<rparr>))) = (if j \<in> set (sw_destroyed (w\<lparr> sw_server := s', sw_closed := cl, sw_queue := q,
          sw_destroyed := sw_destroyed w @ [i] \<rparr>)) then None else Some (snd (conn_of s0 fds j)))"
      using inv(11) s'(2) other by (simp add: find_erase)
    show "\<forall>nm c. map_find nm (m_conn_map (sw_server (w\<lparr> sw_server := s', sw_closed := cl, sw_queue := q,
          sw_destroyed := sw_destroyed w @ [i] \<rparr>))) = Some c \<longrightarrow> (\<exists>i<length fds. nm = fst (conn_of s0 fds i))"
      using inv(12) s'(2) by (auto simp: find_erase)
  qed (use inv(1-10) s'(2) assms(4-7) in auto)
  with s'(1) show ?thesis by blast
qed

lemma close_step:
  assumes "server_inv s0 fds w" and "length (m_ip_port s0) \<le> 51" and "length fds < 2147483648"
  shows "\<exists>w'. server_step (Close t i) w = Inr w' \<and> server_inv s0 fds w'"
proof (cases "i < length (sw_accepted w) \<and> i \<notin> set (sw_closed w)")
  case True
  note inv = server_invD [OF assms(1)]
  have i: "i < length fds" "sw_accepted w ! i = conn_of s0 fds i" "i \<notin> set (sw_destroyed w)" "i \<notin> set (sw_queue w)"
    using True inv(6,10) by auto
  obtain name c where nc: "conn_of s0 fds i = (name, c)" by (cases "conn_of s0 fds i")
  show ?thesis
  proof (cases t)
    case True': True
    have "filter (\<lambda>j. j \<noteq> i) (sw_queue w) = sw_queue w" using i(4) by (simp add: filter_id_conv) blast
    with removed_inv [OF assms i(1,3), of "i # sw_closed w" "sw_queue w" name c] obtain s' where
      "remove_connection_in_reactor True name c (sw_server w) = Inr (s', [Connect_destroyed (sc_reactor c) name])"
      "server_inv s0 fds (w\<lparr> sw_server := s', sw_closed := i # sw_closed w, sw_queue := sw_queue w, sw_destroyed := sw_destroyed w @ [i] \<rparr>)"
      using nc by auto
    then show ?thesis using True True' i(2) nc by (simp add: remove_conn_def)
  next
    case False
    have "server_inv s0 fds (w\<lparr> sw_closed := i # sw_closed w, sw_queue := sw_queue w @ [i] \<rparr>)"
      using assms(1) i unfolding server_inv_def Let_def by auto
    then show ?thesis using True False i(2) nc by (simp add: remove_conn_def)
  qed
next
  case False
  then show ?thesis using assms(1) by (auto simp only: server_step.simps if_False)
qed

lemma run_remove_step:
  assumes "server_inv s0 fds w" and "length (m_ip_port s0) \<le> 51" and "length fds < 2147483648"
  shows "\<exists>w'. server_step Run_remove w = Inr w' \<and> server_inv s0 fds w'"
proof (cases "sw_queue w")
  case Nil
  then show ?thesis using assms(1) by simp
next
  case (Cons i q)
  note inv = server_invD [OF assms(1)]
  have i: "i < length fds" "i \<notin> set (sw_destroyed w)" "i \<in> set (sw_closed w)" "i \<notin> set q"
    using inv(7-9) Cons by auto
  have acc: "sw_accepted w ! i = conn_of s0 fds i" using inv(6) i(1) by simp
  obtain name c where nc: "conn_of s0 fds i = (name, c)" by (cases "conn_of s0 fds i")
  have "filter (\<lambda>j. j \<noteq> i) (sw_queue w) = q" using i(4) Cons by (simp add: filter_id_conv) blast
  with removed_inv [OF assms i(1,2), of "sw_closed w" q name c] obtain s' where
    s': "remove_connection_in_reactor True name c (sw_server w) = Inr (s', [Connect_destroyed (sc_reactor c) name])"
    "server_inv s0 fds (w\<lparr> sw_server := s', sw_closed := sw_closed w, sw_queue := q, sw_destroyed := sw_destroyed w @ [i] \<rparr>)"
    using nc i(3) by (auto simp: insert_absorb)
  have "w\<lparr> sw_server := s', sw_closed := sw_closed w, sw_queue := q, sw_destroyed := sw_destroyed w @ [i] \<rparr> =
      w\<lparr> sw_server := s', sw_queue := q, sw_destroyed := sw_destroyed w @ [i] \<rparr>" by simp
  with s' show ?thesis using Cons acc nc by simp
qed

fun accepted_fds :: "server_action list \<Rightarrow> int list" where
  "accepted_fds [] = []"
| "accepted_fds (Accept fd # as) = fd # accepted_fds as"
| "accepted_fds (a # as) = accepted_fds as"

lemma run_inv:
  assumes "server_inv s0 fds w" and "m_has_started (m_reactor_thread_poll s0)" and "length (m_ip_port s0) \<le> 51"
    and "length fds + length (accepted_fds as) < 2147483647"
  shows "\<exists>w'. server_run as w = Inr w' \<and> server_inv s0 (fds @ accepted_fds as) w'"
  using assms(1,4)
proof (induction as arbitrary: fds w)
  case (Cons a as)
  show ?case
  proof (cases a)
    case (Accept fd)
    with Cons.prems obtain w1 where "server_step a w = Inr w1" "server_inv s0 (fds @ [fd]) w1"
      using accept_step [OF Cons.prems(1) assms(2,3), of fd] by auto
    then show ?thesis using Cons.IH [of "fds @ [fd]" w1] Cons.prems(2) Accept by (simp del: server_step.simps)
  next
    case (Close t i)
    with Cons.prems obtain w1 where "server_step a w = Inr w1" "server_inv s0 fds w1"
      using close_step [OF Cons.prems(1) assms(3), of t i] by (auto simp del: server_step.simps)
    then show ?thesis using Cons.IH [of fds w1] Cons.prems(2) Close by (simp del: server_step.simps)
  next
    case Run_remove
    with Cons.prems obtain w1 where "server_step a w = Inr w1" "server_inv s0 fds w1"
      using run_remove_step [OF Cons.prems(1) assms(3)] by (auto simp del: server_step.simps)
    then show ?thesis using Cons.IH [of fds w1] Cons.prems(2) Run_remove by (simp del: server_step.simps)
  qed
qed simp

section \<open>Properties\<close>

definition started_server :: "nat \<Rightarrow> string \<Rightarrow> string \<Rightarrow> int \<Rightarrow> (nat \<Rightarrow> nat) \<Rightarrow> tcp_server" where
  "started_server reactor ip_port name num_threads start_reactor =
     (TcpServer_init reactor ip_port name)\<lparr> m_server_started := 1, m_reactor_thread_poll :=
        (ReactorThreadPool_init reactor name)\<lparr> m_size_pool := num_threads, m_has_started := True,
           m_reactors := map start_reactor [0..<nat num_threads] \<rparr> \<rparr>"

lemma server_starts:
  assumes "0 \<le> num_threads"
  shows "rbind (set_reactor_pool_size num_threads (TcpServer_init reactor ip_port name)) (server_start True cb False start_reactor) =
     Inr (started_server reactor ip_port name num_threads start_reactor, [Listen])"
  using assms
  by (simp add: set_reactor_pool_size_def set_pool_size_def TcpServer_init_def server_start_def pool_start_def ReactorThreadPool_init_def
      started_server_def in_loop_thread_def massert_def Let_def)

lemma server_inv_init: "server_inv (started_server r a nm n f) [] (server_world_init (started_server r a nm n f))"
  by (simp add: server_inv_def server_world_init_def started_server_def TcpServer_init_def pool_at_def Let_def
      ReactorThreadPool_init_def map_find_def)

text \<open>
  C7: A started server keeps its table of connections. Whatever connections are accepted and closed, and in whatever
  order the removals of other threads run, no assertion fails and no name is used twice; the i-th connection
  is named after i and given to the reactor that is next in turn, the base reactor when there are no others;
  the table holds exactly the connections not yet removed; and each is destroyed at most once.
\<close>

theorem server_connections:
  assumes "0 \<le> num_threads" and "length ip_port \<le> 51" and "length (accepted_fds as) < 2147483647"
  shows "\<exists>s w. rbind (set_reactor_pool_size num_threads (TcpServer_init reactor ip_port name)) (server_start True cb False start_reactor) =
        Inr (s, [Listen]) \<and> server_run as (server_world_init s) = Inr w \<and>
     distinct (map fst (sw_accepted w)) \<and> length (sw_accepted w) = length (accepted_fds as) \<and> distinct (sw_destroyed w) \<and>
     (\<forall>i < length (accepted_fds as).
        sw_accepted w ! i = (name @ '':'' @ ip_port @ ''#'' @ dec_nat i,
          \<lparr> sc_reactor = (if num_threads = 0 then reactor else start_reactor (i mod nat num_threads)), sc_fd = accepted_fds as ! i \<rparr>) \<and>
        map_find (fst (sw_accepted w ! i)) (m_conn_map (sw_server w)) =
          (if i \<in> set (sw_destroyed w) then None else Some (snd (sw_accepted w ! i))))"
proof -
  let ?s = "started_server reactor ip_port name num_threads start_reactor" and ?fds = "accepted_fds as"
  have s: "m_has_started (m_reactor_thread_poll ?s)" "length (m_ip_port ?s) \<le> 51" "srv_name ?s = name" "m_ip_port ?s = ip_port"
    "reactor_of (m_reactor_thread_poll ?s) i = (if num_threads = 0 then reactor else start_reactor (i mod nat num_threads))" for i
    using assms(1,2)
    by (auto simp: started_server_def TcpServer_init_def ReactorThreadPool_init_def reactor_of_def)
  obtain w where w: "server_run as (server_world_init ?s) = Inr w" "server_inv ?s ?fds w"
    using run_inv [OF server_inv_init s(1,2), of as] assms(3) by auto
  note inv = server_invD [OF w(2)]
  have nm: "conn_name_of ?s (int i) = name @ '':'' @ ip_port @ ''#'' @ dec_nat i" if "i < length ?fds" for i
    using conn_name_eq [OF s(2), of "int i"] that assms(3) s(3,4) by simp
  have "distinct (map fst (sw_accepted w))"
    unfolding inv(6) using assms(3)
    by (auto simp: distinct_map inj_on_def conn_of_def intro: conn_name_inj [OF s(2)])
  moreover have "sw_accepted w ! i = conn_of ?s ?fds i" if "i < length ?fds" for i using inv(6) that by simp
  ultimately show ?thesis
    using server_starts [OF assms(1), of reactor ip_port name cb start_reactor] w(1) inv(6,9,11) nm s(5)
    by (intro exI [of _ ?s] exI [of _ w]) (simp add: conn_of_def)
qed

theorem server_connections_witness:
  "\<exists>s w. rbind (set_reactor_pool_size 2 (TcpServer_init 7 ''1.2.3.4:80'' ''srv'')) (server_start True False False (\<lambda>i. 10 + i)) =
        Inr (s, [Listen]) \<and>
     server_run [Accept 5, Accept 6, Close False 0, Accept 7, Run_remove] (server_world_init s) = Inr w \<and>
     sw_accepted w ! 2 = (''srv:1.2.3.4:80#2'', \<lparr> sc_reactor = 10, sc_fd = 7 \<rparr>)"
proof -
  let ?as = "[Accept 5, Accept 6, Close False 0, Accept 7, Run_remove]"
  have d: "dec_nat 2 = ''2''" by code_simp
  show ?thesis
    using server_connections [of 2 "''1.2.3.4:80''" ?as 7 "''srv''" False "\<lambda>i. 10 + i"] d by (fastforce simp del: server_run.simps)
qed

end
