(* ===== verification/TcpClient.thy ===== *)
theory TcpClient
  imports TcpConnection Connector
begin

text \<open>
  TcpClient.h and TcpClient.cc: the client's connector, and the one connection it owns. The client is put together from the
  models of both: the connector in its reactor, whose new-connection callback makes a connection, and the
  connections, whose close callback makes the client drop them and perhaps connect again. A connection is named by the
  address of its object; the functors \<^verbatim>\<open>connect_destroyed\<close> that the client queues keep their connections alive.
\<close>

section \<open>State\<close>

record tcp_client =
  cl_name :: string
  cl_write_complete_callback :: bool
  m_enable_retry :: bool
  cl_is_connected :: bool
  cl_conn_counter :: int
  cl_connection :: "nat option"

record client_world =
  cw_client :: tcp_client
  cw_connector :: connector_world
  cw_conns :: "nat \<Rightarrow> tcp_conn option"
  cw_destroy :: "nat list"          \<comment> \<open>the queued \<^verbatim>\<open>connect_destroyed\<close> functors, oldest first\<close>
  cw_next :: nat                    \<comment> \<open>the address of the next connection\<close>

definition TcpClient_init :: "string \<Rightarrow> bool \<Rightarrow> tcp_client" where
  "TcpClient_init nameArg write_complete =
     \<lparr> cl_name = nameArg, cl_write_complete_callback = write_complete, m_enable_retry = False, cl_is_connected = True,
       cl_conn_counter = 1, cl_connection = None \<rparr>"

definition client_world_init :: "string \<Rightarrow> bool \<Rightarrow> client_world" where
  "client_world_init nameArg write_complete =
     \<lparr> cw_client = TcpClient_init nameArg write_complete, cw_connector = world_init, cw_conns = Map.empty, cw_destroy = [], cw_next = 0 \<rparr>"

section \<open>Operations\<close>

definition client_conn_name :: "string \<Rightarrow> tcp_client \<Rightarrow> string" where
  "client_conn_name peer cl = cl_name cl @ snprintf 32 ('':'' @ peer @ ''#'' @ dec_int (cl_conn_counter cl))"

text \<open>\<open>peer\<close> is the text of the peer's address, \<open>g\<close> the static members of the zero copier.\<close>

definition client_new_conn :: "bool \<Rightarrow> (int \<Rightarrow> string) \<Rightarrow> zc_globals \<Rightarrow> int \<Rightarrow> client_world \<Rightarrow> client_world res" where
  "client_new_conn in_thread peer g sockfd w =
     in_loop_thread in_thread
       (let cl = cw_client w; a = cw_next w;
            conn = TcpConnection_init (client_conn_name (peer sockfd) cl) sockfd (cl_write_complete_callback cl) False g;
            w = w\<lparr> cw_client := cl\<lparr> cl_conn_counter := cast_int32 (cl_conn_counter cl + 1), cl_connection := Some a \<rparr>, cw_next := Suc a \<rparr>
        in rbind (connect_established in_thread conn) (\<lambda>(conn, evs). Inr (w\<lparr>cw_conns := (cw_conns w)(a \<mapsto> conn)\<rparr>)))"

text \<open>The descriptors that the new-connection callback of the connector is called with.\<close>

fun new_conn_fds :: "connector_event list \<Rightarrow> int list" where
  "new_conn_fds [] = []"
| "new_conn_fds (New_conn_callback fd # es) = fd # new_conn_fds es"
| "new_conn_fds (e # es) = new_conn_fds es"

fun client_new_conns :: "(int \<Rightarrow> string) \<Rightarrow> zc_globals \<Rightarrow> int list \<Rightarrow> client_world \<Rightarrow> client_world res" where
  "client_new_conns peer g [] w = Inr w"
| "client_new_conns peer g (fd # fds) w = rbind (client_new_conn True peer g fd w) (client_new_conns peer g fds)"

text \<open>A step of the connector, with the callbacks it makes.\<close>

definition client_connector :: "(int \<Rightarrow> string) \<Rightarrow> zc_globals \<Rightarrow> connector_action \<Rightarrow> client_world \<Rightarrow> client_world res" where
  "client_connector peer g a w =
     rbind (connector_step a (cw_connector w)) (\<lambda>k.
       client_new_conns peer g (new_conn_fds (drop (length (w_log (cw_connector w))) (w_log k))) (w\<lparr>cw_connector := k\<rparr>))"

definition client_connect :: "(int \<Rightarrow> string) \<Rightarrow> zc_globals \<Rightarrow> bool \<Rightarrow> int \<Rightarrow> int \<Rightarrow> client_world \<Rightarrow> client_world res" where
  "client_connect peer g in_thread sockfd savedErrno w =
     client_connector peer g (A_start in_thread sockfd savedErrno) (w\<lparr>cw_client := (cw_client w)\<lparr>cl_is_connected := True\<rparr>\<rparr>)"

definition client_disconnect :: "bool \<Rightarrow> client_world \<Rightarrow> client_world res" where
  "client_disconnect in_thread w =
     (let w = w\<lparr>cw_client := (cw_client w)\<lparr>cl_is_connected := False\<rparr>\<rparr>
      in case cl_connection (cw_client w) of
           None \<Rightarrow> Inr w
         | Some a \<Rightarrow>
             (case cw_conns w a of
                None \<Rightarrow> Inl (Undefined ''dangling connection_'')
              | Some c \<Rightarrow> rbind (shutdown in_thread c) (\<lambda>(c, evs). Inr (w\<lparr>cw_conns := (cw_conns w)(a \<mapsto> c)\<rparr>))))"

definition client_stop :: "(int \<Rightarrow> string) \<Rightarrow> zc_globals \<Rightarrow> client_world \<Rightarrow> client_world res" where
  "client_stop peer g w = client_connector peer g A_stop (w\<lparr>cw_client := (cw_client w)\<lparr>cl_is_connected := False\<rparr>\<rparr>)"

definition enable_retry :: "client_world \<Rightarrow> client_world" where
  "enable_retry w = w\<lparr>cw_client := (cw_client w)\<lparr>m_enable_retry := True\<rparr>\<rparr>"

text \<open>The close callback of a connection. All connections of the client live in its reactor.\<close>

definition client_remove_conn ::
    "(int \<Rightarrow> string) \<Rightarrow> zc_globals \<Rightarrow> bool \<Rightarrow> nat \<Rightarrow> int \<Rightarrow> int \<Rightarrow> client_world \<Rightarrow> client_world res" where
  "client_remove_conn peer g in_thread a sockfd savedErrno w =
     in_loop_thread in_thread
       (massert (cl_connection (cw_client w) = Some a) ''connection_ == conn''
          (let w = w\<lparr> cw_client := (cw_client w)\<lparr>cl_connection := None\<rparr>, cw_destroy := cw_destroy w @ [a] \<rparr>
           in if m_enable_retry (cw_client w) \<and> cl_is_connected (cw_client w)
              then client_connector peer g (A_restart sockfd savedErrno) w else Inr w))"

text \<open>
  The destructor. With a connection, its close callback becomes one that only queues \<^verbatim>\<open>connect_destroyed\<close>, and it is closed when
  the client was its only owner; without one, the connector is stopped. The result is whether the callback was replaced.
\<close>

definition TcpClient_destroy :: "(int \<Rightarrow> string) \<Rightarrow> zc_globals \<Rightarrow> bool \<Rightarrow> client_world \<Rightarrow> (bool \<times> client_world) res" where
  "TcpClient_destroy peer g unique w =
     (case cl_connection (cw_client w) of
        Some a \<Rightarrow>
          (case cw_conns w a of
             None \<Rightarrow> Inl (Undefined ''dangling connection_'')
           | Some c \<Rightarrow>
               if unique then rbind (force_close c) (\<lambda>(c, evs). Inr (True, w\<lparr>cw_conns := (cw_conns w)(a \<mapsto> c)\<rparr>))
               else Inr (True, w))
      | None \<Rightarrow> rbind (client_connector peer g A_stop w) (\<lambda>w. Inr (False, w)))"

section \<open>The client in its reactor\<close>

text \<open>
  What happens to the client: calls of the user, functors, timers and events of the connector, operations and events of
  its connection (with the socket of a reconnect, should the connection close), and the reactor running the oldest
  \<^verbatim>\<open>connect_destroyed\<close>, after which the connection's object goes.
\<close>

datatype client_action =
    C_connect bool int int
  | C_disconnect bool
  | C_stop
  | C_enable_retry
  | C_connector connector_action
  | C_conn nat conn_op int int
  | C_destroy

fun client_step :: "(int \<Rightarrow> string) \<Rightarrow> zc_globals \<Rightarrow> client_action \<Rightarrow> client_world \<Rightarrow> client_world res" where
  "client_step peer g (C_connect t s e) w = client_connect peer g t s e w"
| "client_step peer g (C_disconnect t) w = client_disconnect t w"
| "client_step peer g C_stop w = client_stop peer g w"
| "client_step peer g C_enable_retry w = Inr (enable_retry w)"
| "client_step peer g (C_connector a) w = client_connector peer g a w"
| "client_step peer g (C_conn a op s e) w =
     (case cw_conns w a of
        None \<Rightarrow> Inl (Undefined ''dangling connection'')
      | Some c \<Rightarrow> rbind (conn_op_run op c) (\<lambda>(c, evs).
          let w = w\<lparr>cw_conns := (cw_conns w)(a \<mapsto> c)\<rparr>
          in if Close_callback \<in> set evs then client_remove_conn peer g True a s e w else Inr w))"
| "client_step peer g C_destroy w =
     (case cw_destroy w of
        [] \<Rightarrow> Inr w
      | a # as \<Rightarrow>
          (case cw_conns w a of
             None \<Rightarrow> Inl (Undefined ''dangling connection'')
           | Some c \<Rightarrow> rbind (connect_destroyed True c) (\<lambda>(c, evs).
               rbind (TcpConnection_destroy c) (\<lambda>_. Inr (w\<lparr> cw_destroy := as, cw_conns := (cw_conns w)(a := None) \<rparr>)))))"

fun client_run :: "(int \<Rightarrow> string) \<Rightarrow> zc_globals \<Rightarrow> client_action list \<Rightarrow> client_world \<Rightarrow> client_world res" where
  "client_run peer g [] w = Inr w"
| "client_run peer g (a # as) w = rbind (client_step peer g a w) (client_run peer g as)"

text \<open>
  The order: the user connects while the connector is idle; the connector's own actions come from its reactor; the
  connection is used while it is the client's, and its events come after the round in which the connector gave up its
  channel.
\<close>

fun reactor_action :: "connector_action \<Rightarrow> bool" where
  "reactor_action (A_functor s e) = True"
| "reactor_action (A_timer s e) = True"
| "reactor_action (A_event er out err self) = True"
| "reactor_action a = False"

fun client_legal :: "client_action \<Rightarrow> client_world \<Rightarrow> bool" where
  "client_legal (C_connect t s e) w \<longleftrightarrow> connector_idle (cw_connector w) \<and> 0 \<le> s"
| "client_legal (C_connector a) w \<longleftrightarrow> reactor_action a \<and> action_enabled a (cw_connector w) \<and> action_legal a (cw_connector w)"
| "client_legal (C_conn a op s e) w \<longleftrightarrow>
     cl_connection (cw_client w) = Some a \<and> op \<noteq> Op_established \<and> op \<noteq> Op_destroyed \<and>
     (\<forall>c. cw_conns w a = Some c \<longrightarrow> conn_legal op c) \<and> 0 \<le> s \<and> Reset_channel \<notin> set (w_queue (cw_connector w))"
| "client_legal a w \<longleftrightarrow> True"

fun client_legal_run :: "(int \<Rightarrow> string) \<Rightarrow> zc_globals \<Rightarrow> client_action list \<Rightarrow> client_world \<Rightarrow> bool" where
  "client_legal_run peer g [] w \<longleftrightarrow> True"
| "client_legal_run peer g (a # as) w \<longleftrightarrow>
     client_legal a w \<and> (case client_step peer g a w of Inr w' \<Rightarrow> client_legal_run peer g as w' | Inl e \<Rightarrow> True)"

section \<open>The close callback of a connection\<close>

text \<open>A connection that is down has no interest left; the close callback comes with the connection callback that reports it.\<close>

definition conn_down :: "tcp_conn \<Rightarrow> bool" where
  "conn_down c \<longleftrightarrow> m_conn_state c = TcpConnection.kDisconnected \<and> is_none_event (m_channel c)"

definition quiet :: "conn_result \<Rightarrow> bool" where
  "quiet r \<longleftrightarrow> (\<forall>c evs. r = Inr (c, evs) \<longrightarrow> Close_callback \<notin> set evs \<and> Conn_callback TcpConnection.kDisconnected \<notin> set evs)"

definition closing :: "tcp_conn \<Rightarrow> conn_result \<Rightarrow> bool" where
  "closing c r \<longleftrightarrow>
     (\<forall>c' evs. r = Inr (c', evs) \<longrightarrow>
        (Close_callback \<in> set evs \<longleftrightarrow> Conn_callback TcpConnection.kDisconnected \<in> set evs) \<and>
        (Close_callback \<in> set evs \<or> conn_down c \<longrightarrow> conn_down c'))"

lemma closing_bind:
  assumes "closing c m" and "\<And>c'. closing c' (f c')"
  shows "closing c (cbind m f)"
  unfolding closing_def
proof (intro allI impI, goal_cases)
  case (1 c2 evs)
  then obtain c1 es1 es2 where 2: "m = Inr (c1, es1)" "f c1 = Inr (c2, es2)" "evs = es1 @ es2"
    by (auto simp: cbind_def rbind_def split: sum.splits)
  then show ?case using assms(1) assms(2) [of c1] by (auto simp: closing_def)
qed

lemma quiet_bind: "quiet m \<Longrightarrow> (\<And>c. quiet (f c)) \<Longrightarrow> quiet (cbind m f)"
  by (fastforce simp: quiet_def cbind_def rbind_def split: sum.splits)

lemma quiet_simps [simp]: "quiet (Inl e)" "quiet (mfatal msg)" "quiet (in_loop_thread t r) \<longleftrightarrow> (t \<longrightarrow> quiet r)"
  by (auto simp: quiet_def mfatal_def in_loop_thread_def)

lemma quiet_Inr: "quiet (Inr (c, evs)) \<longleftrightarrow> Close_callback \<notin> set evs \<and> Conn_callback TcpConnection.kDisconnected \<notin> set evs"
  by (simp add: quiet_def)

lemma quiet_send: "quiet (send_bytes_in_reactor t data c)" "quiet (send_in_reactor t data c)" "quiet (send_string_piece t data c)"
  by (auto simp: send_string_piece_def send_in_reactor_def send_bytes_in_reactor_def quiet_def Let_def massert_def res_simps
      in_loop_thread_def mfatal_def)

lemma quiet_ops:
  "quiet (shutdown_in_reactor t c)" "quiet (shutdown t c)" "quiet (shutdown_and_force_close_in_reactor_after t x c)"
  "quiet (shutdown_and_force_close_after t x c)" "quiet (force_close c)" "quiet (force_close_with_delay x c)"
  "quiet (start_read_in_reactor t c)" "quiet (start_read t c)" "quiet (stop_read_in_reactor t c)" "quiet (stop_read t c)"
  "quiet (enable_zero_copy z c)"
  by (simp_all add: shutdown_in_reactor_def shutdown_def shutdown_and_force_close_in_reactor_after_def
      shutdown_and_force_close_after_def force_close_def force_close_with_delay_def start_read_in_reactor_def start_read_def
      stop_read_in_reactor_def stop_read_def enable_zero_copy_def quiet_Inr Let_def)

lemma quiet_writable: "quiet (handle_socket_writable t wr io c)"
proof -
  have "quiet (writable_buffer_part wr c)" for c
    by (auto simp: writable_buffer_part_def write_socket_from_buffer_def quiet_def Let_def res_simps split: if_splits)
  moreover have "quiet (writable_file_part io c)" for c
    by (auto simp: writable_file_part_def quiet_def res_simps split: option.splits if_splits)
  moreover have "quiet (writable_finish_part t c)" for t c
    by (auto simp: writable_finish_part_def shutdown_in_reactor_def quiet_def Let_def res_simps in_loop_thread_def mfatal_def
        split: if_splits)
  ultimately show ?thesis by (simp add: handle_socket_writable_def quiet_bind quiet_Inr)
qed

lemma quiet_closing: "quiet r \<Longrightarrow> (\<And>c' evs. r = Inr (c', evs) \<Longrightarrow> conn_down c \<Longrightarrow> conn_down c') \<Longrightarrow> closing c r"
  by (auto simp: closing_def quiet_def)

lemma down_handle_close:
  "handle_close t c = Inr (c', evs) \<Longrightarrow> conn_down c' \<and> evs = [Conn_callback TcpConnection.kDisconnected, Close_callback]"
  by (auto simp: handle_close_def in_loop_thread_def mfatal_def massert_def Let_def conn_down_def is_none_event_def
      channel_request_def chan_set_events_def split: if_splits)

lemma closing_callback: "closing c (conn_callback_run readv wr io cb c)"
proof (cases cb)
  case CloseCb
  then show ?thesis using down_handle_close by (fastforce simp: closing_def)
next
  case ErrorCb
  then show ?thesis by (simp add: closing_def TcpConnection.handle_error_def)
next
  case (ReadCb t)
  have "conn_down (c\<lparr>m_input_buffer := b\<rparr>) = conn_down c" for b by (simp add: conn_down_def)
  then show ?thesis using ReadCb down_handle_close
    by (fastforce simp: closing_def handle_socket_readable_def in_loop_thread_def TcpConnection.handle_error_def Let_def res_simps
        split: if_splits)
next
  case WriteCb
  have "\<not> is_writing (m_channel c)" if "conn_down c"
    using that by (simp add: conn_down_def is_none_event_def is_writing_def kNoneEvent_def)
  then show ?thesis using WriteCb quiet_writable closed_writable by (auto intro!: quiet_closing)
qed

lemma closing_callbacks: "closing c (conn_callbacks_run readv wr io cbs c)"
  by (induction cbs arbitrary: c) (simp_all add: closing_bind closing_callback, simp add: closing_def)

text \<open>What an operation of an open connection does: it stays open and nothing is reported, or it is down and both callbacks ran.\<close>

lemma op_closes:
  assumes "op \<noteq> Op_established" and "op \<noteq> Op_destroyed" and "conn_op_run op c = Inr (c', evs)"
  shows "(Close_callback \<in> set evs \<longleftrightarrow> Conn_callback TcpConnection.kDisconnected \<in> set evs) \<and> (Close_callback \<in> set evs \<longrightarrow> conn_down c')"
proof (cases "\<exists>t rv readv wr io. op = Op_event t rv readv wr io")
  case True
  then obtain t rv readv wr io where "op = Op_event t rv readv wr io" by blast
  then show ?thesis using closing_callbacks assms(3) by (simp add: conn_handle_event_def Let_def closing_def)
next
  case False
  show ?thesis
  proof (cases "op = Op_task Force_close_in_reactor")
    case True
    then show ?thesis using assms(3) down_handle_close by (fastforce simp: force_close_in_reactor_def split: if_splits)
  next
    case other: False
    have "quiet (conn_op_run op c)"
    proof (cases op)
      case (Op_task k)
      then show ?thesis using other by (cases k) (simp_all add: quiet_send quiet_ops)
    qed (use False assms(1,2) quiet_send quiet_ops in auto)
    then show ?thesis using assms(3) by (simp add: quiet_def)
  qed
qed

section \<open>The new-connection callback of the connector\<close>

lemma new_conn_fds_append [simp]: "new_conn_fds (xs @ ys) = new_conn_fds xs @ new_conn_fds ys"
  by (induction xs rule: new_conn_fds.induct) simp_all

text \<open>The callback comes at most once in a step, and only when an attempt succeeds; a connected connector stays so.\<close>

definition fds_ok :: "connector \<Rightarrow> connector_result \<Rightarrow> bool" where
  "fds_ok k r \<longleftrightarrow>
     (\<forall>k' evs. r = Inr (k', evs) \<longrightarrow>
        new_conn_fds evs = [] \<and> (m_state k = Connector.kConnected \<longrightarrow> m_state k' = Connector.kConnected) \<or>
        (\<exists>fd. new_conn_fds evs = [fd]) \<and> m_state k = Connector.kConnecting \<and> m_state k' = Connector.kConnected)"

lemma fds_remove:
  "remove_and_reset_channel k = Inr (fd, k', evs) \<Longrightarrow> new_conn_fds evs = [] \<and> m_state k' = m_state k"
  by (auto simp: remove_and_reset_channel_def Let_def massert_def split: option.splits if_splits)

lemma fds_retry: "retry fd k = Inr (k', evs) \<Longrightarrow> new_conn_fds evs = [] \<and> m_state k' = Connector.kDisconnected"
  by (auto simp: retry_def Let_def split: if_splits)

lemma removed_then:
  assumes "rbind (remove_and_reset_channel k0) (\<lambda>(fd, k, es). rbind (f fd k) (\<lambda>(k, es'). Inr (k, es @ es'))) = Inr (k', evs)"
  obtains fd k1 es where "m_state k1 = m_state k0" "f fd k1 = Inr (k', es)" "new_conn_fds evs = new_conn_fds es"
  using assms by (auto simp: rbind_eq_Inr_iff dest: fds_remove)

lemma fds_start_in_reactor:
  "start_in_reactor t s e k = Inr (k', evs) \<Longrightarrow> new_conn_fds evs = [] \<and> m_state k = Connector.kDisconnected"
  by (auto simp: start_in_reactor_def in_loop_thread_def mfatal_def massert_def Connector.connect_def connecting_def Let_def
      dest: fds_retry split: if_splits)

lemma fds_ok_ops:
  "fds_ok k (start_in_reactor t s e k)" "fds_ok k (Connector.start t s e k)" "fds_ok k (Connector.stop k)"
  "fds_ok k (stop_in_reactor t k)" "fds_ok k (Connector.handle_write err self k)" "fds_ok k (Connector.handle_error k)"
proof -
  show a: "fds_ok k (start_in_reactor t s e k)" for k using fds_start_in_reactor by (fastforce simp: fds_ok_def)
  show "fds_ok k (Connector.start t s e k)"
    using a [of "k\<lparr>m_is_connected := True\<rparr>"] by (auto simp: Connector.start_def fds_ok_def Let_def)
  show "fds_ok k (Connector.stop k)" by (simp add: Connector.stop_def fds_ok_def)
  show "fds_ok k (stop_in_reactor t k)"
    unfolding fds_ok_def stop_in_reactor_def in_loop_thread_def mfatal_def
    by (auto elim!: removed_then dest: fds_retry split: if_splits)
  show "fds_ok k (Connector.handle_error k)"
    unfolding fds_ok_def Connector.handle_error_def by (auto elim!: removed_then dest: fds_retry split: if_splits)
  show "fds_ok k (Connector.handle_write err self k)"
    unfolding fds_ok_def Connector.handle_write_def massert_def Let_def
    by (auto elim!: removed_then dest: fds_retry split: if_splits)
qed

lemma error_result:
  "Connector.handle_error k = Inr (k', evs) \<Longrightarrow>
   m_state k' \<noteq> Connector.kConnecting \<and> new_conn_fds evs = [] \<and> (m_state k = Connector.kConnected \<longrightarrow> k' = k)"
  unfolding Connector.handle_error_def by (auto elim!: removed_then dest: fds_retry split: if_splits)

lemma fds_ok_event:
  "fds_ok k (kbind (if er then Connector.handle_error k else Inr (k, [])) (\<lambda>k. if out then Connector.handle_write err self k else Inr (k, [])))"
proof (cases er)
  case False
  then show ?thesis using fds_ok_ops(5) [of k err self] by (auto simp: kbind_def fds_ok_def)
next
  case True
  show ?thesis
    unfolding fds_ok_def
  proof (intro allI impI, goal_cases)
    case (1 k' evs)
    then obtain k1 es1 es2 where 2: "Connector.handle_error k = Inr (k1, es1)" "evs = es1 @ es2"
      "(if out then Connector.handle_write err self k1 else Inr (k1, [])) = Inr (k', es2)"
      using True by (auto simp: kbind_def res_simps)
    note k1 = error_result [OF 2(1)]
    then have "new_conn_fds es2 = [] \<and> (m_state k1 = Connector.kConnected \<longrightarrow> m_state k' = Connector.kConnected)"
      using 2(3) fds_ok_ops(5) [of k1 err self] by (auto simp: fds_ok_def split: if_splits)
    then show ?case using 2(2) k1 by auto
  qed
qed

lemma fds_ok_after:
  assumes "world_after w r = Inr w'" and "fds_ok k r" and "w_connector w = k"
  shows "\<exists>evs. w_log w' = w_log w @ evs \<and> fds_ok (w_connector w) (Inr (w_connector w', evs))"
  using assms by (cases r) (auto simp: world_after_def fds_ok_def)

lemma connector_step_fds:
  assumes "connector_step a w = Inr w'" and "\<forall>s e. a \<noteq> A_restart s e"
  shows "\<exists>evs. w_log w' = w_log w @ evs \<and> fds_ok (w_connector w) (Inr (w_connector w', evs))"
proof (cases a)
  case (A_functor s e)
  show ?thesis
  proof (cases "hd (w_queue w)")
    case Reset_channel
    then show ?thesis using assms(1) A_functor by (auto simp: Let_def reset_channel_def fds_ok_def)
  next
    case Start_in_reactor
    then show ?thesis using assms(1) A_functor fds_ok_after [OF _ fds_ok_ops(1)] by (fastforce simp: Let_def)
  next
    case Stop_in_reactor
    then show ?thesis using assms(1) A_functor fds_ok_after [OF _ fds_ok_ops(4)] by (fastforce simp: Let_def)
  qed
next
  case (A_start t s e)
  then show ?thesis using assms(1) fds_ok_after [OF _ fds_ok_ops(2)] by simp
next
  case A_stop
  then show ?thesis using assms(1) fds_ok_after [OF _ fds_ok_ops(3)] by simp
next
  case (A_timer s e)
  then show ?thesis using assms(1) fds_ok_after [OF _ fds_ok_ops(1)] by fastforce
next
  case (A_event er out err self)
  then show ?thesis using assms(1) fds_ok_after [OF _ fds_ok_event] by simp
qed (use assms(2) in simp)

lemma restart_fds:
  assumes "connector_step (A_restart s e) w = Inr w'"
  shows "\<exists>evs. w_log w' = w_log w @ evs \<and> new_conn_fds evs = []"
  using assms
  by (auto simp: world_after_def res_simps restart_def in_loop_thread_def mfatal_def dest!: fds_start_in_reactor split: if_splits)

section \<open>Invariant of the client\<close>

definition conn_open :: "tcp_conn \<Rightarrow> bool" where
  "conn_open c \<longleftrightarrow> m_conn_state c = TcpConnection.kConnected \<or> m_conn_state c = kDisconnecting"

text \<open>
  The client's connection is open and its connector connected; every other connection is down and has its
  \<^verbatim>\<open>connect_destroyed\<close> queued, once.
\<close>

definition conns_inv :: "client_world \<Rightarrow> bool" where
  "conns_inv w \<longleftrightarrow>
     (\<forall>a. cl_connection (cw_client w) = Some a \<longrightarrow> (\<exists>c. cw_conns w a = Some c \<and> conn_inv c \<and> conn_open c) \<and> a \<notin> set (cw_destroy w)) \<and>
     (\<forall>a \<in> set (cw_destroy w). \<exists>c. cw_conns w a = Some c \<and> conn_down c) \<and> distinct (cw_destroy w) \<and>
     (\<forall>a c. cw_conns w a = Some c \<longrightarrow> a < cw_next w \<and> (cl_connection (cw_client w) = Some a \<or> a \<in> set (cw_destroy w)))"

definition client_inv :: "client_world \<Rightarrow> bool" where
  "client_inv w \<longleftrightarrow>
     world_inv (cw_connector w) \<and> conns_inv w \<and>
     (cl_connection (cw_client w) \<noteq> None \<longrightarrow> m_state (w_connector (cw_connector w)) = Connector.kConnected)"

lemma conns_inv_frame [simp]: "conns_inv (w\<lparr>cw_connector := k\<rparr>) = conns_inv w"
  by (simp add: conns_inv_def)

lemma conns_inv_client [simp]:
  "cl_connection cl = cl_connection (cw_client w) \<Longrightarrow> conns_inv (w\<lparr>cw_client := cl\<rparr>) = conns_inv w"
  by (simp add: conns_inv_def)

lemma stream_stays_open:
  "Conn_callback TcpConnection.kDisconnected \<notin> set evs \<Longrightarrow> stream_run (Open q f) evs = Some s \<Longrightarrow> s \<noteq> Closed"
proof (induction evs arbitrary: q f)
  case (Cons e evs)
  then obtain q' f' where "stream_step (Open q f) e = Some (Open q' f')"
    by (cases e) (auto split: if_splits bind_splits)
  then show ?case using Cons by auto
qed auto

lemma op_on_open:
  assumes "conn_inv c" and "conn_open c" and "conn_legal op c" and "op \<noteq> Op_established" and "op \<noteq> Op_destroyed"
  shows "\<exists>c' evs. conn_op_run op c = Inr (c', evs) \<and> conn_inv c' \<and> (if Close_callback \<in> set evs then conn_down c' else conn_open c')"
proof -
  obtain c' evs where r: "conn_op_run op c = Inr (c', evs)" using op_returns [OF assms(1,3)] by (auto simp: returns_def)
  note cl = op_closes [OF assms(4,5) r]
  have s: "conn_inv c'" "stream_run (conn_stream c) evs = Some (conn_stream c')" "conn_rank (m_conn_state c) \<le> conn_rank (m_conn_state c')"
    using sim_op [OF assms(1), of op] r by (simp_all add: conn_sim_def)
  obtain q f where "conn_stream c = Open q f" using assms(2) by (auto simp: conn_stream_def conn_open_def)
  then have "conn_open c'" if "Close_callback \<notin> set evs"
    using stream_stays_open [of evs q f "conn_stream c'"] s(2,3) cl that assms(2)
    by (cases "m_conn_state c'") (auto simp: conn_stream_def conn_open_def split: if_splits)
  then show ?thesis using r s(1) cl by auto
qed

lemma established_open:
  "\<exists>c evs. connect_established True (TcpConnection_init name fd wc hw g) = Inr (c, evs) \<and> conn_inv c \<and> conn_open c"
proof -
  obtain c evs where r: "connect_established True (TcpConnection_init name fd wc hw g) = Inr (c, evs)"
    "m_conn_state c = TcpConnection.kConnected"
    by (auto simp: connect_established_def TcpConnection_init_def Let_def massert_def)
  then show ?thesis using sim_established [where t = True, OF inv_init, of name fd wc hw g] by (auto simp: conn_sim_def conn_open_def)
qed

lemma new_conn_inv:
  assumes "conns_inv w" and "cl_connection (cw_client w) = None"
  shows "\<exists>w'. client_new_conn True peer g fd w = Inr w' \<and> conns_inv w' \<and> cw_connector w' = cw_connector w \<and>
     cl_connection (cw_client w') \<noteq> None"
proof -
  let ?name = "client_conn_name (peer fd) (cw_client w)"
  obtain c evs where c: "connect_established True (TcpConnection_init ?name fd (cl_write_complete_callback (cw_client w)) False g) = Inr (c, evs)"
    "conn_inv c" "conn_open c" using established_open by blast
  let ?w = "w\<lparr> cw_client := (cw_client w)\<lparr> cl_conn_counter := cast_int32 (cl_conn_counter (cw_client w) + 1), cl_connection := Some (cw_next w) \<rparr>,
     cw_next := Suc (cw_next w), cw_conns := (cw_conns w)(cw_next w \<mapsto> c) \<rparr>"
  have "client_new_conn True peer g fd w = Inr ?w" using c(1) by (simp add: client_new_conn_def Let_def)
  moreover have "conns_inv ?w" using assms c(2,3) by (fastforce simp: conns_inv_def less_Suc_eq)
  ultimately show ?thesis by (intro exI [of _ ?w]) simp
qed

lemma client_connector_inv:
  assumes "client_inv w" and "action_enabled a (cw_connector w)" and "action_legal a (cw_connector w)" and "\<forall>s e. a \<noteq> A_restart s e"
  shows "\<exists>w'. client_connector peer g a w = Inr w' \<and> client_inv w'"
proof -
  have i: "world_inv (cw_connector w)" "conns_inv w" using assms(1) by (simp_all add: client_inv_def)
  obtain k where k: "connector_step a (cw_connector w) = Inr k" "world_inv k"
    using step_keeps [OF i(1) assms(2,3)] by (auto simp: world_ok_def)
  obtain evs where evs: "w_log k = w_log (cw_connector w) @ evs" "fds_ok (w_connector (cw_connector w)) (Inr (w_connector k, evs))"
    using connector_step_fds [OF k(1) assms(4)] by blast
  have run: "client_connector peer g a w = client_new_conns peer g (new_conn_fds evs) (w\<lparr>cw_connector := k\<rparr>)"
    using k(1) evs(1) by (simp add: client_connector_def)
  from evs(2) consider "new_conn_fds evs = []"
      "m_state (w_connector (cw_connector w)) = Connector.kConnected \<longrightarrow> m_state (w_connector k) = Connector.kConnected"
    | fd where "new_conn_fds evs = [fd]" "m_state (w_connector (cw_connector w)) = Connector.kConnecting"
      "m_state (w_connector k) = Connector.kConnected"
    by (auto simp: fds_ok_def)
  then show ?thesis
  proof cases
    case 1
    then show ?thesis using run k(2) assms(1) by (simp add: client_inv_def)
  next
    case 2
    then have "cl_connection (cw_client w) = None" using assms(1) by (auto simp: client_inv_def)
    then obtain w' where "client_new_conn True peer g fd (w\<lparr>cw_connector := k\<rparr>) = Inr w'" "conns_inv w'" "cw_connector w' = k"
      using new_conn_inv [of "w\<lparr>cw_connector := k\<rparr>" peer g fd] i(2) by auto
    then show ?thesis using run 2 k(2) by (simp add: client_inv_def)
  qed
qed

text \<open>The connection \<open>a\<close> has gone down: it leaves the client, and a reconnect starts from a connected connector.\<close>

lemma remove_conn_inv:
  assumes "client_inv w" and "cl_connection (cw_client w) = Some a" and "conn_down c" and "0 \<le> s"
    and "Reset_channel \<notin> set (w_queue (cw_connector w))"
  shows "\<exists>w'. client_remove_conn peer g True a s e (w\<lparr>cw_conns := (cw_conns w)(a \<mapsto> c)\<rparr>) = Inr w' \<and> client_inv w'"
proof -
  let ?w = "w\<lparr> cw_conns := (cw_conns w)(a \<mapsto> c), cw_client := (cw_client w)\<lparr>cl_connection := None\<rparr>, cw_destroy := cw_destroy w @ [a] \<rparr>"
  have c: "conns_inv ?w" using assms(1-3) by (auto simp: client_inv_def conns_inv_def)
  have st: "world_inv (cw_connector w)" "m_state (w_connector (cw_connector w)) = Connector.kConnected"
    using assms(1,2) by (simp_all add: client_inv_def)
  obtain k where k: "connector_step (A_restart s e) (cw_connector w) = Inr k" "world_inv k"
    using step_keeps [OF st(1), of "A_restart s e"] st(2) assms(4,5) by (auto simp: world_ok_def)
  obtain evs where evs: "w_log k = w_log (cw_connector w) @ evs" "new_conn_fds evs = []" using restart_fds [OF k(1)] by blast
  have "client_connector peer g (A_restart s e) ?w = Inr (?w\<lparr>cw_connector := k\<rparr>)"
    using k(1) evs by (simp add: client_connector_def)
  moreover have "client_inv ?w" "client_inv (?w\<lparr>cw_connector := k\<rparr>)" using c st(1) k(2) by (simp_all add: client_inv_def conns_inv_def)
  moreover have "client_remove_conn peer g True a s e (w\<lparr>cw_conns := (cw_conns w)(a \<mapsto> c)\<rparr>) =
      (if m_enable_retry (cw_client w) \<and> cl_is_connected (cw_client w) then client_connector peer g (A_restart s e) ?w else Inr ?w)"
    using assms(2) by (simp add: client_remove_conn_def Let_def)
  ultimately show ?thesis by auto
qed

lemma conn_step_inv:
  assumes "client_inv w" and "client_legal (C_conn a op s e) w"
  shows "\<exists>w'. client_step peer g (C_conn a op s e) w = Inr w' \<and> client_inv w'"
proof -
  have a: "cl_connection (cw_client w) = Some a" using assms(2) by simp
  then obtain c where c: "cw_conns w a = Some c" "conn_inv c" "conn_open c" using assms(1) by (auto simp: client_inv_def conns_inv_def)
  obtain c' evs where r: "conn_op_run op c = Inr (c', evs)" "conn_inv c'" "if Close_callback \<in> set evs then conn_down c' else conn_open c'"
    using op_on_open [OF c(2,3)] assms(2) c(1) by fastforce
  show ?thesis
  proof (cases "Close_callback \<in> set evs")
    case True
    then show ?thesis using remove_conn_inv [OF assms(1) a, of c' s peer g e] assms(2) c(1) r by (simp add: Let_def)
  next
    case False
    then have "client_inv (w\<lparr>cw_conns := (cw_conns w)(a \<mapsto> c')\<rparr>)"
      using assms(1) a r(2,3) by (auto simp: client_inv_def conns_inv_def)
    then show ?thesis using False c(1) r(1) by simp
  qed
qed

lemma disconnect_inv:
  assumes "client_inv w"
  shows "\<exists>w'. client_disconnect t w = Inr w' \<and> client_inv w'"
proof (cases "cl_connection (cw_client w)")
  case None
  then show ?thesis using assms by (simp add: client_disconnect_def client_inv_def)
next
  case (Some a)
  then obtain c where c: "cw_conns w a = Some c" "conn_inv c" "conn_open c" using assms by (auto simp: client_inv_def conns_inv_def)
  obtain c' evs where r: "shutdown t c = Inr (c', evs)" "conn_inv c'" "if Close_callback \<in> set evs then conn_down c' else conn_open c'"
    using op_on_open [OF c(2,3), of "Op_shutdown t"] by auto
  have "conn_open c'" using r quiet_ops(2) [of t c] by (simp add: quiet_def)
  then have "client_inv (w\<lparr> cw_client := (cw_client w)\<lparr>cl_is_connected := False\<rparr>, cw_conns := (cw_conns w)(a \<mapsto> c') \<rparr>)"
    using assms Some r(2) by (auto simp: client_inv_def conns_inv_def)
  then show ?thesis using Some c(1) r(1) by (simp add: client_disconnect_def Let_def)
qed

lemma destroy_inv:
  assumes "client_inv w"
  shows "\<exists>w'. client_step peer g C_destroy w = Inr w' \<and> client_inv w'"
proof (cases "cw_destroy w")
  case (Cons a as)
  then obtain c where c: "cw_conns w a = Some c" "conn_down c" using assms by (auto simp: client_inv_def conns_inv_def)
  let ?c = "c\<lparr>m_channel := (m_channel c)\<lparr>m_is_in_reactor := False\<rparr>\<rparr>"
  have "connect_destroyed True c = Inr (?c, [])" "TcpConnection_destroy ?c = Inr ()"
    using c(2) by (simp_all add: connect_destroyed_def conn_down_def TcpConnection_destroy_def)
  moreover have "client_inv (w\<lparr> cw_destroy := as, cw_conns := (cw_conns w)(a := None) \<rparr>)"
    using assms Cons by (auto simp: client_inv_def conns_inv_def)
  ultimately show ?thesis using Cons c(1) by simp
qed (use assms in simp)

lemma client_step_inv:
  assumes "client_inv w" and "client_legal x w"
  shows "\<exists>w'. client_step peer g x w = Inr w' \<and> client_inv w'"
proof (cases x)
  case (C_connect t s e)
  let ?w = "w\<lparr>cw_client := (cw_client w)\<lparr>cl_is_connected := True\<rparr>\<rparr>"
  have "client_inv ?w" using assms(1) by (simp add: client_inv_def)
  then show ?thesis using client_connector_inv [of ?w "A_start t s e"] assms(2) C_connect by (simp add: client_connect_def)
next
  case C_stop
  let ?w = "w\<lparr>cw_client := (cw_client w)\<lparr>cl_is_connected := False\<rparr>\<rparr>"
  have "client_inv ?w" using assms(1) by (simp add: client_inv_def)
  then show ?thesis using client_connector_inv [of ?w A_stop] C_stop by (simp add: client_stop_def)
next
  case (C_connector a)
  then show ?thesis using client_connector_inv [OF assms(1), of a] assms(2) by (cases a) simp_all
next
  case (C_conn a op s e)
  then show ?thesis using conn_step_inv assms by blast
next
  case C_destroy
  then show ?thesis using destroy_inv assms(1) by blast
next
  case (C_disconnect t)
  then show ?thesis using disconnect_inv assms(1) by simp
next
  case C_enable_retry
  then show ?thesis using assms(1) by (simp add: enable_retry_def client_inv_def)
qed

lemma client_run_inv:
  "client_inv w \<Longrightarrow> client_legal_run peer g xs w \<Longrightarrow> \<exists>w'. client_run peer g xs w = Inr w' \<and> client_inv w'"
proof (induction xs arbitrary: w)
  case (Cons x xs)
  obtain w1 where w1: "client_step peer g x w = Inr w1" "client_inv w1" using client_step_inv [OF Cons.prems(1)] Cons.prems(2) by fastforce
  then show ?case using Cons.IH [OF w1(2)] Cons.prems(2) by simp
qed simp

lemma client_inv_init: "client_inv (client_world_init name wc)"
  by (simp add: client_inv_def conns_inv_def client_world_init_def TcpClient_init_def)

section \<open>Properties\<close>

text \<open>C9: A client keeps the assertions of its connector, its connections and its own: under any order of connects while
  idle, disconnects, stops, timers, channel events, traffic, closes and reconnects nothing fails. Its connection, when it has one, is
  open; every other connection is down and waits for its destruction.\<close>

theorem tcp_client_safe:
  assumes "client_legal_run peer g xs (client_world_init name wc)"
  shows "\<exists>w. client_run peer g xs (client_world_init name wc) = Inr w \<and>
     (\<forall>a. cl_connection (cw_client w) = Some a \<longrightarrow>
        (\<exists>c. cw_conns w a = Some c \<and> m_conn_state c \<in> {TcpConnection.kConnected, kDisconnecting})) \<and>
     (\<forall>a c. cw_conns w a = Some c \<longrightarrow>
        cl_connection (cw_client w) = Some a \<or> a \<in> set (cw_destroy w) \<and> m_conn_state c = TcpConnection.kDisconnected)"
proof -
  obtain w where "client_run peer g xs (client_world_init name wc) = Inr w" "client_inv w"
    using client_run_inv [OF client_inv_init assms] by blast
  then show ?thesis by (fastforce simp: client_inv_def conns_inv_def conn_open_def conn_down_def)
qed

lemmas client_eval = connector_eval client_world_init_def TcpClient_init_def client_connect_def client_connector_def client_new_conn_def
  client_remove_conn_def enable_retry_def connect_established_def TcpConnection_init_def force_close_in_reactor_def
  handle_close_def connect_destroyed_def TcpConnection_destroy_def conn_request_def set_state_def tie_def restart_def

theorem tcp_client_safe_witness:
  "\<exists>w. client_run (\<lambda>fd. ''10.0.0.1:80'') zc_globals_init
     [C_connect True 5 EINPROGRESS, C_connector (A_event False True 0 False), C_connector (A_functor 0 0), C_enable_retry,
      C_conn 0 (Op_task Force_close_in_reactor) 6 EINPROGRESS, C_destroy] (client_world_init ''cli'' False) = Inr w \<and>
     (\<forall>a. cl_connection (cw_client w) = Some a \<longrightarrow>
        (\<exists>c. cw_conns w a = Some c \<and> m_conn_state c \<in> {TcpConnection.kConnected, kDisconnecting}))"
proof -
  have "client_legal_run (\<lambda>fd. ''10.0.0.1:80'') zc_globals_init
     [C_connect True 5 EINPROGRESS, C_connector (A_event False True 0 False), C_connector (A_functor 0 0), C_enable_retry,
      C_conn 0 (Op_task Force_close_in_reactor) 6 EINPROGRESS, C_destroy] (client_world_init ''cli'' False)"
    by (simp add: client_eval)
  from tcp_client_safe [OF this] show ?thesis by auto
qed

text \<open>A client cannot be connected a second time: after its connection was closed without a reconnect, \<^verbatim>\<open>connect\<close> fails the
  assertion of \<^verbatim>\<open>start_in_reactor\<close>, because the connector is still in the state of the first success.\<close>

theorem tcp_client_reconnect_fails:
  assumes "0 \<le> s" and "0 \<le> s'"
  shows "client_run peer g
     [C_connect True s EINPROGRESS, C_connector (A_event False True 0 False), C_connector (A_functor 0 0),
      C_conn 0 (Op_task Force_close_in_reactor) 0 0, C_destroy, C_connect True s' e] (client_world_init name wc) =
     Inl (AssertFailed ''m_state == kDisconnected'')"
  using assms by (simp add: client_eval)

theorem tcp_client_reconnect_fails_witness:
  "client_run (\<lambda>fd. ''10.0.0.1:80'') zc_globals_init
     [C_connect True 5 EINPROGRESS, C_connector (A_event False True 0 False), C_connector (A_functor 0 0),
      C_conn 0 (Op_task Force_close_in_reactor) 0 0, C_destroy, C_connect True 6 EINPROGRESS] (client_world_init ''cli'' False) =
     Inl (AssertFailed ''m_state == kDisconnected'')"
  using tcp_client_reconnect_fails [of 5 6 "\<lambda>fd. ''10.0.0.1:80''" zc_globals_init EINPROGRESS "''cli''" False] by simp

text \<open>The name of a connection loses its number when the peer's address is long: with 30 characters or more, as most IPv6
  addresses have, all connections of the client have the same name.\<close>

lemma client_conn_names_collide:
  assumes "30 \<le> length peer"
  shows "client_conn_name peer cl = cl_name cl @ '':'' @ take 30 peer"
  using assms by (simp add: client_conn_name_def snprintf_def)

end
