(* ===== verification/Safe_System.thy ===== *)
theory Safe_System
  imports Flute_Prelude
begin

text \<open>
  Step systems whose steps may fail: a step leads from a state to a result. When an invariant makes every step
  succeed and keeps itself, no run fails. The threads at a deque, the logging back end, and a thread that
  starts a reactor are such systems.
\<close>

definition ok_steps :: "('s \<Rightarrow> 's res \<Rightarrow> bool) \<Rightarrow> 's \<Rightarrow> 's \<Rightarrow> bool" where
  "ok_steps step s s' \<longleftrightarrow> (\<lambda>s s'. step s (Inr s'))\<^sup>*\<^sup>* s s'"

lemma ok_steps_refl [simp, intro]: "ok_steps step s s"
  by (simp add: ok_steps_def)

lemma ok_steps_snoc: "ok_steps step s s' \<Longrightarrow> step s' (Inr s'') \<Longrightarrow> ok_steps step s s''"
  unfolding ok_steps_def by (rule rtranclp.rtrancl_into_rtrancl)

lemma ok_steps_one [intro]: "step s (Inr s') \<Longrightarrow> ok_steps step s s'"
  by (rule ok_steps_snoc [OF ok_steps_refl])

lemma ok_steps_trans: "ok_steps step s s' \<Longrightarrow> ok_steps step s' s'' \<Longrightarrow> ok_steps step s s''"
  unfolding ok_steps_def by (rule rtranclp_trans)

locale safe_system =
  fixes step :: "'s \<Rightarrow> 's res \<Rightarrow> bool"
    and inv :: "'s \<Rightarrow> bool"
  assumes keeps_inv: "inv s \<Longrightarrow> step s r \<Longrightarrow> \<exists>s'. r = Inr s' \<and> inv s'"
begin

lemma reachable_inv: "ok_steps step s s' \<Longrightarrow> inv s \<Longrightarrow> inv s'"
  unfolding ok_steps_def by (erule rtranclp_invariant [where I = inv]) (auto dest: keeps_inv)

lemma never_fails: "ok_steps step s s' \<Longrightarrow> inv s \<Longrightarrow> step s' r \<Longrightarrow> \<exists>s''. r = Inr s''"
  using reachable_inv keeps_inv by blast

end

end
