(* ===== verification/Deques.thy ===== *)
theory Deques
  imports Safe_System
begin

text \<open>
  The queues between threads: BlockingDeque.h, BoundedBlockingDeque.h, TaskDeque.h, TaskDeque.cc and CountdownLatch.h. Every
  operation runs under the mutex of its object, so it is one atomic function up to the point where it
  waits: the result \<open>None\<close> means that the thread sleeps on the condition and, once woken, runs the function
  again, which is the loop around the wait. Which threads sleep, and which a notification wakes, is the step
  relation of the second part.
\<close>

section \<open>BlockingDeque\<close>

definition bq_push :: "'a \<Rightarrow> bool \<Rightarrow> 'a list \<Rightarrow> 'a list" where
  "bq_push x push_back q = (if push_back then q @ [x] else x # q)"

definition bq_push_back :: "'a \<Rightarrow> 'a list \<Rightarrow> 'a list" where
  "bq_push_back x q = bq_push x True q"

definition bq_push_front :: "'a \<Rightarrow> 'a list \<Rightarrow> 'a list" where
  "bq_push_front x q = bq_push x False q"

definition bq_take_front :: "'a list \<Rightarrow> ('a \<times> 'a list) res option" where
  "bq_take_front q =
     (if q = [] then None else Some (massert (q \<noteq> []) ''!m_deque.is_empty()'' (Inr (hd q, tl q))))"

section \<open>BoundedBlockingDeque\<close>

record 'a bounded_deque =
  m_max_queue_size :: nat
  m_id_counter :: nat
  m_deque :: "(int \<times> 'a) list"

definition BoundedBlockingDeque_init :: "nat \<Rightarrow> 'a bounded_deque" where
  "BoundedBlockingDeque_init max_deque_size = \<lparr> m_max_queue_size = max_deque_size, m_id_counter = 0, m_deque = [] \<rparr>"

text \<open>The identifier is a \<^verbatim>\<open>size_t\<close> that the pair narrows to an \<^verbatim>\<open>int\<close>.\<close>

definition bd_push :: "'a \<Rightarrow> bool \<Rightarrow> 'a bounded_deque \<Rightarrow> 'a bounded_deque res option" where
  "bd_push x push_back q =
     (if length (m_deque q) = m_max_queue_size q then None
      else Some (massert (length (m_deque q) < m_max_queue_size q) ''m_deque.size() < m_max_queue_size''
        (let n = Suc (m_id_counter q); e = (cast_int32 (int n), x)
         in Inr (q\<lparr> m_id_counter := n, m_deque := if push_back then m_deque q @ [e] else e # m_deque q \<rparr>))))"

definition bd_take_front :: "'a bounded_deque \<Rightarrow> (int \<times> 'a \<times> 'a bounded_deque) res option" where
  "bd_take_front q =
     (if m_deque q = [] then None
      else Some (massert (m_deque q \<noteq> []) ''!m_deque.empty()''
        (Inr (fst (hd (m_deque q)), snd (hd (m_deque q)), q\<lparr>m_deque := tl (m_deque q)\<rparr>))))"

definition bd_is_full :: "'a bounded_deque \<Rightarrow> bool" where
  "bd_is_full q \<longleftrightarrow> length (m_deque q) = m_max_queue_size q"

definition bd_size :: "'a bounded_deque \<Rightarrow> nat" where
  "bd_size q = length (m_deque q)"

definition bd_set_size :: "nat \<Rightarrow> 'a bounded_deque \<Rightarrow> 'a bounded_deque" where
  "bd_set_size n q = q\<lparr>m_max_queue_size := n\<rparr>"

section \<open>TaskDeque\<close>

text \<open>A task is \<open>None\<close> when the function object is empty. \<open>junk\<close> is what the memory of \<^verbatim>\<open>m_max_queue_size\<close> holds.\<close>

record 'a task_deque =
  m_task_deque :: "'a option list"
  td_max_queue_size :: nat
  m_is_running :: bool
  m_num_threads :: nat

definition kMaxTaskDequeSize :: nat where "kMaxTaskDequeSize = 10"

definition TaskDeque_init :: "nat \<Rightarrow> 'a task_deque" where
  "TaskDeque_init junk =
     \<lparr> m_task_deque = replicate kMaxTaskDequeSize None, td_max_queue_size = junk, m_is_running = False, m_num_threads = 0 \<rparr>"

definition set_max_deque_size :: "nat \<Rightarrow> 'a task_deque \<Rightarrow> 'a task_deque" where
  "set_max_deque_size maxsize q = q\<lparr>td_max_queue_size := maxsize\<rparr>"

definition td_start :: "nat \<Rightarrow> 'a task_deque \<Rightarrow> 'a task_deque res" where
  "td_start num_threads q =
     massert (m_num_threads q = 0) ''m_threads.empty()'' (Inr (q\<lparr> m_is_running := True, m_num_threads := num_threads \<rparr>))"

definition td_stop :: "'a task_deque \<Rightarrow> 'a task_deque" where
  "td_stop q = q\<lparr>m_is_running := False\<rparr>"

definition td_is_full :: "'a task_deque \<Rightarrow> bool" where
  "td_is_full q \<longleftrightarrow> td_max_queue_size q > 0 \<and> length (m_task_deque q) \<ge> td_max_queue_size q"

text \<open>With no worker threads the task runs at once: the list of the result.\<close>

definition td_push_task :: "'a option \<Rightarrow> bool \<Rightarrow> 'a task_deque \<Rightarrow> ('a option list \<times> 'a task_deque) res option" where
  "td_push_task task push_back q =
     (if m_num_threads q = 0 then Some (Inr ([task], q))
      else if td_is_full q then None
      else Some (massert (\<not> td_is_full q) ''!is_full()''
        (Inr ([], q\<lparr>m_task_deque := if push_back then m_task_deque q @ [task] else task # m_task_deque q\<rparr>))))"

definition take_one :: "'a task_deque \<Rightarrow> ('a option \<times> 'a task_deque) option" where
  "take_one q =
     (if m_task_deque q = [] \<and> m_is_running q then None
      else Some (if m_task_deque q \<noteq> [] then (hd (m_task_deque q), q\<lparr>m_task_deque := tl (m_task_deque q)\<rparr>) else (None, q)))"

section \<open>CountdownLatch\<close>

definition latch_wait :: "int \<Rightarrow> unit option" where
  "latch_wait count = (if count > 0 then None else Some ())"

text \<open>The new count and whether all waiting threads are notified.\<close>

definition latch_countdown :: "int \<Rightarrow> int \<times> bool" where
  "latch_countdown count = (count - 1, count - 1 = 0)"

section \<open>Threads at a bounded deque\<close>

text \<open>
  The threads asleep in \<^verbatim>\<open>take_front\<close> and in \<^verbatim>\<open>push\<close>, those that were woken and have not yet run, and what has
  been taken. A notification wakes one of the threads asleep on the condition, when there is one; any thread may
  also wake without one.
\<close>

record 'a deque_system =
  sys_deque :: "'a bounded_deque"
  takers_waiting :: nat
  takers_woken :: nat
  pushers_waiting :: "('a \<times> bool) list"
  pushers_woken :: "('a \<times> bool) list"
  sys_taken :: "(int \<times> 'a) list"
  front_pushes :: nat            \<comment> \<open>how many elements were pushed at the front\<close>

definition notify_taker :: "'a deque_system \<Rightarrow> 'a deque_system" where
  "notify_taker s =
     (if takers_waiting s = 0 then s
      else s\<lparr> takers_waiting := takers_waiting s - 1, takers_woken := Suc (takers_woken s) \<rparr>)"

definition wake_pusher :: "nat \<Rightarrow> 'a deque_system \<Rightarrow> 'a deque_system" where
  "wake_pusher i s =
     s\<lparr> pushers_waiting := take i (pushers_waiting s) @ drop (Suc i) (pushers_waiting s),
        pushers_woken := pushers_woken s @ [pushers_waiting s ! i] \<rparr>"

text \<open>A thread inside \<^verbatim>\<open>take_front\<close>, and inside \<^verbatim>\<open>push\<close>, with the mutex; \<open>i\<close> is the pusher the notification wakes.\<close>

definition run_take :: "nat \<Rightarrow> 'a deque_system \<Rightarrow> 'a deque_system res" where
  "run_take i s =
     (case bd_take_front (sys_deque s) of
        None \<Rightarrow> Inr (s\<lparr>takers_waiting := Suc (takers_waiting s)\<rparr>)
      | Some r \<Rightarrow> rbind r (\<lambda>(ident, x, q).
          let s = s\<lparr> sys_deque := q, sys_taken := sys_taken s @ [(ident, x)] \<rparr>
          in Inr (if pushers_waiting s = [] then s else wake_pusher i s)))"

definition run_push :: "'a \<Rightarrow> bool \<Rightarrow> 'a deque_system \<Rightarrow> 'a deque_system res" where
  "run_push x back s =
     (case bd_push x back (sys_deque s) of
        None \<Rightarrow> Inr (s\<lparr>pushers_waiting := pushers_waiting s @ [(x, back)]\<rparr>)
      | Some r \<Rightarrow> rbind r (\<lambda>q.
          Inr (notify_taker (s\<lparr> sys_deque := q, front_pushes := front_pushes s + (if back then 0 else 1) \<rparr>))))"

inductive deque_step :: "'a deque_system \<Rightarrow> 'a deque_system res \<Rightarrow> bool" where
  take_call: "i < length (pushers_waiting s) \<or> pushers_waiting s = [] \<Longrightarrow> deque_step s (run_take i s)"
| take_woken: "0 < takers_woken s \<Longrightarrow> i < length (pushers_waiting s) \<or> pushers_waiting s = [] \<Longrightarrow>
    deque_step s (run_take i (s\<lparr>takers_woken := takers_woken s - 1\<rparr>))"
| take_spurious: "0 < takers_waiting s \<Longrightarrow>
    deque_step s (Inr (s\<lparr> takers_waiting := takers_waiting s - 1, takers_woken := Suc (takers_woken s) \<rparr>))"
| push_call: "deque_step s (run_push x back s)"
| push_woken: "j < length (pushers_woken s) \<Longrightarrow> pushers_woken s ! j = (x, back) \<Longrightarrow>
    deque_step s (run_push x back (s\<lparr>pushers_woken := take j (pushers_woken s) @ drop (Suc j) (pushers_woken s)\<rparr>))"
| push_spurious: "i < length (pushers_waiting s) \<Longrightarrow> deque_step s (Inr (wake_pusher i s))"

inductive_cases deque_stepE: "deque_step s r"

definition deque_system_init :: "nat \<Rightarrow> 'a deque_system" where
  "deque_system_init n =
     \<lparr> sys_deque = BoundedBlockingDeque_init n, takers_waiting = 0, takers_woken = 0, pushers_waiting = [], pushers_woken = [],
       sys_taken = [], front_pushes = 0 \<rparr>"

section \<open>No wakeup is lost\<close>

text \<open>
  While takers sleep there are no more elements than woken takers; while pushers sleep, no more free places than
  woken pushers. With pushes at the back only, elements are taken in the order of their identifiers.
\<close>

definition deque_inv :: "nat \<Rightarrow> 'a deque_system \<Rightarrow> bool" where
  "deque_inv n s \<longleftrightarrow>
     m_max_queue_size (sys_deque s) = n \<and> length (m_deque (sys_deque s)) \<le> n \<and>
     (takers_waiting s \<noteq> 0 \<longrightarrow> length (m_deque (sys_deque s)) \<le> takers_woken s) \<and>
     (pushers_waiting s \<noteq> [] \<longrightarrow> n - length (m_deque (sys_deque s)) \<le> length (pushers_woken s)) \<and>
     length (sys_taken s) + length (m_deque (sys_deque s)) = m_id_counter (sys_deque s) \<and>
     (front_pushes s = 0 \<longrightarrow>
        map fst (sys_taken s @ m_deque (sys_deque s)) = map (\<lambda>i. cast_int32 (int (Suc i))) [0..<m_id_counter (sys_deque s)])"

lemma wake_pusher_simps [simp]:
  "sys_deque (wake_pusher i s) = sys_deque s" "takers_waiting (wake_pusher i s) = takers_waiting s"
  "takers_woken (wake_pusher i s) = takers_woken s" "sys_taken (wake_pusher i s) = sys_taken s"
  "front_pushes (wake_pusher i s) = front_pushes s" "length (pushers_woken (wake_pusher i s)) = Suc (length (pushers_woken s))"
  by (simp_all add: wake_pusher_def)

lemma notify_taker_simps [simp]:
  "sys_deque (notify_taker s) = sys_deque s" "pushers_waiting (notify_taker s) = pushers_waiting s"
  "pushers_woken (notify_taker s) = pushers_woken s" "sys_taken (notify_taker s) = sys_taken s"
  "front_pushes (notify_taker s) = front_pushes s"
  "takers_waiting (notify_taker s) = takers_waiting s - 1"
  "takers_woken (notify_taker s) = (if takers_waiting s = 0 then takers_woken s else Suc (takers_woken s))"
  by (simp_all add: notify_taker_def)

definition deque_ok :: "nat \<Rightarrow> 'a deque_system res \<Rightarrow> bool" where
  "deque_ok n r \<longleftrightarrow> (\<exists>s. r = Inr s \<and> deque_inv n s)"

text \<open>A taker that runs may have been counted as woken before, a pusher likewise.\<close>

lemma run_take_ok:
  assumes "deque_inv n (s\<lparr>takers_woken := takers_woken s + k\<rparr>)" and "k \<le> 1"
  shows "deque_ok n (run_take i s)"
proof (cases "m_deque (sys_deque s)")
  case Nil
  then show ?thesis using assms by (simp add: run_take_def bd_take_front_def deque_ok_def deque_inv_def)
next
  case (Cons e es)
  let ?s = "s\<lparr> sys_deque := (sys_deque s)\<lparr>m_deque := es\<rparr>, sys_taken := sys_taken s @ [e] \<rparr>"
  have r: "run_take i s = Inr (if pushers_waiting s = [] then ?s else wake_pusher i ?s)"
    using Cons by (simp add: run_take_def bd_take_front_def massert_def)
  have "deque_inv n (if pushers_waiting s = [] then ?s else wake_pusher i ?s)"
    using assms Cons by (auto simp: deque_inv_def)
  then show ?thesis using r by (simp add: deque_ok_def)
qed

lemma run_push_ok:
  assumes "deque_inv n (s\<lparr>pushers_woken := pushers_woken s @ ps\<rparr>)" and "length ps \<le> 1"
  shows "deque_ok n (run_push x back s)"
proof (cases "length (m_deque (sys_deque s)) = n")
  case True
  then show ?thesis using assms by (simp add: run_push_def bd_push_def deque_ok_def deque_inv_def)
next
  case False
  let ?q = "sys_deque s" let ?e = "(cast_int32 (int (Suc (m_id_counter ?q))), x)"
  let ?q' = "?q\<lparr> m_id_counter := Suc (m_id_counter ?q), m_deque := if back then m_deque ?q @ [?e] else ?e # m_deque ?q \<rparr>"
  let ?s = "s\<lparr> sys_deque := ?q', front_pushes := front_pushes s + (if back then 0 else 1) \<rparr>"
  have lt: "length (m_deque ?q) < m_max_queue_size ?q" "m_max_queue_size ?q = n" using False assms(1) by (auto simp: deque_inv_def)
  then have r: "run_push x back s = Inr (notify_taker ?s)"
    by (simp add: run_push_def bd_push_def massert_def Let_def)
  have "deque_inv n (notify_taker ?s)"
    using assms lt by (cases "back") (auto simp: deque_inv_def)
  then show ?thesis using r by (simp add: deque_ok_def)
qed

lemma step_ok:
  assumes "deque_step s r" and "deque_inv n s"
  shows "deque_ok n r"
  using assms(1)
proof (cases rule: deque_step.cases)
  case (take_call i)
  then show ?thesis using run_take_ok [of n s 0 i] assms(2) by simp
next
  case (take_woken i)
  then show ?thesis using run_take_ok [of n "s\<lparr>takers_woken := takers_woken s - 1\<rparr>" 1 i] assms(2) by simp
next
  case take_spurious
  then show ?thesis using assms(2) by (auto simp: deque_ok_def deque_inv_def)
next
  case (push_call x b)
  then show ?thesis using run_push_ok [of n s "[]" x b] assms(2) by simp
next
  case (push_woken j x b)
  let ?w = "pushers_woken s"
  have "deque_inv n (s\<lparr>pushers_woken := (take j ?w @ drop (Suc j) ?w) @ [(x, b)]\<rparr>)"
    using assms(2) push_woken(2) by (auto simp: deque_inv_def)
  then show ?thesis using run_push_ok [of n "s\<lparr>pushers_woken := take j ?w @ drop (Suc j) ?w\<rparr>" "[(x, b)]" x b] push_woken by simp
next
  case (push_spurious i)
  then show ?thesis using assms(2) by (auto simp: deque_ok_def deque_inv_def)
qed

interpretation bounded: safe_system deque_step "deque_inv n" for n
  by unfold_locales (use step_ok in \<open>auto simp: deque_ok_def\<close>)

lemma deque_inv_init: "deque_inv n (deque_system_init n)"
  by (simp add: deque_inv_def deque_system_init_def BoundedBlockingDeque_init_def)

section \<open>Properties\<close>

text \<open>
  C14: A bounded deque loses no wakeup. Under every interleaving of threads that push and take, with spurious wakeups,
  no assertion fails and the deque never exceeds its bound; while a taker sleeps and the deque has elements some
  taker is awake and about to take one, and while a pusher sleeps and there is room some pusher is
  awake; and with pushes at the back only, elements leave in the order in which they were pushed.
\<close>

theorem bounded_deque_correct:
  assumes "ok_steps deque_step (deque_system_init n) s"
  shows "(\<forall>r. deque_step s r \<longrightarrow> (\<exists>s'. r = Inr s')) \<and> length (m_deque (sys_deque s)) \<le> n \<and>
     (m_deque (sys_deque s) \<noteq> [] \<and> takers_waiting s \<noteq> 0 \<longrightarrow> takers_woken s \<noteq> 0) \<and>
     (length (m_deque (sys_deque s)) < n \<and> pushers_waiting s \<noteq> [] \<longrightarrow> pushers_woken s \<noteq> []) \<and>
     (front_pushes s = 0 \<longrightarrow>
        map fst (sys_taken s @ m_deque (sys_deque s)) = map (\<lambda>i. cast_int32 (int (Suc i))) [0..<m_id_counter (sys_deque s)])"
proof -
  have inv: "deque_inv n s" using bounded.reachable_inv [OF assms deque_inv_init] .
  have "\<forall>r. deque_step s r \<longrightarrow> (\<exists>s'. r = Inr s')" using bounded.never_fails [OF assms deque_inv_init] by blast
  moreover have "takers_woken s \<noteq> 0" if "m_deque (sys_deque s) \<noteq> []" "takers_waiting s \<noteq> 0"
  proof -
    have "0 < length (m_deque (sys_deque s))" using that(1) by simp
    also have "\<dots> \<le> takers_woken s" using inv that(2) by (simp add: deque_inv_def)
    finally show ?thesis by simp
  qed
  ultimately show ?thesis using inv by (auto simp: deque_inv_def)
qed

theorem bounded_deque_correct_witness:
  "\<exists>s. ok_steps deque_step (deque_system_init 1) s \<and> takers_waiting s = 1 \<and> m_deque (sys_deque s) = [(1, ''x'')] \<and>
     takers_woken s \<noteq> 0"
proof -
  let ?s0 = "deque_system_init 1 :: string deque_system"
  obtain s1 where s1: "run_take 0 ?s0 = Inr s1" by (simp add: run_take_def bd_take_front_def deque_system_init_def BoundedBlockingDeque_init_def)
  obtain s2 where s2: "run_take 0 s1 = Inr s2"
    using s1 by (auto simp: run_take_def bd_take_front_def deque_system_init_def BoundedBlockingDeque_init_def)
  obtain s3 where s3: "run_push ''x'' True s2 = Inr s3" "takers_waiting s3 = 1" "m_deque (sys_deque s3) = [(1, ''x'')]"
    using s1 s2 by (auto simp: run_take_def run_push_def bd_push_def bd_take_front_def deque_system_init_def BoundedBlockingDeque_init_def
        massert_def Let_def notify_taker_def cast_int32_fits fits_int32_def)
  have p1: "pushers_waiting ?s0 = []" "pushers_waiting s1 = []"
    using s1 by (auto simp: run_take_def bd_take_front_def deque_system_init_def BoundedBlockingDeque_init_def)
  have "ok_steps deque_step ?s0 ?s0" by (simp add: ok_steps_def)
  then have "ok_steps deque_step ?s0 s1" using ok_steps_snoc take_call [of 0 ?s0] p1 s1 by metis
  then have "ok_steps deque_step ?s0 s2" using ok_steps_snoc take_call [of 0 s1] p1 s2 by metis
  then have st: "ok_steps deque_step ?s0 s3" using ok_steps_snoc push_call [of s2 "''x''" True] s3(1) by metis
  then show ?thesis using bounded_deque_correct [OF st] s3 by auto
qed

text \<open>
  Changing the bound of a deque in use breaks it. After \<^verbatim>\<open>set_size\<close> with a bound below the number of elements the
  next push fails its assertion, because fullness is tested by equality; after one with a larger bound the
  pushers that sleep stay asleep although there is room.
\<close>

theorem bounded_deque_set_size_fails:
  assumes "m < length (m_deque q)"
  shows "bd_push x back (bd_set_size m q) = Some (Inl (AssertFailed ''m_deque.size() < m_max_queue_size'')) \<and>
     (\<exists>s. ok_steps deque_step (deque_system_init 1) s \<and>
        (let s' = s\<lparr>sys_deque := bd_set_size 2 (sys_deque s)\<rparr>
         in length (m_deque (sys_deque s')) < m_max_queue_size (sys_deque s') \<and> pushers_waiting s' = [(x, back)] \<and>
            pushers_woken s' = []))"
proof -
  let ?s0 = "deque_system_init 1"
  obtain s1 where s1: "run_push x back ?s0 = Inr s1" "length (m_deque (sys_deque s1)) = 1" "m_max_queue_size (sys_deque s1) = 1"
    "pushers_waiting s1 = []" "pushers_woken s1 = []"
    by (auto simp: run_push_def bd_push_def deque_system_init_def BoundedBlockingDeque_init_def massert_def Let_def notify_taker_def)
  then have s2: "run_push x back s1 = Inr (s1\<lparr>pushers_waiting := [(x, back)]\<rparr>)" by (simp add: run_push_def bd_push_def)
  have "ok_steps deque_step ?s0 ?s0" by (simp add: ok_steps_def)
  then have "ok_steps deque_step ?s0 s1" using ok_steps_snoc push_call [of ?s0 x "back"] s1(1) by metis
  then have "ok_steps deque_step ?s0 (s1\<lparr>pushers_waiting := [(x, back)]\<rparr>)" using ok_steps_snoc push_call [of s1 x "back"] s2 by metis
  then show ?thesis using assms s1
    by (intro conjI exI [of _ "s1\<lparr>pushers_waiting := [(x, back)]\<rparr>"]) (simp_all add: bd_push_def bd_set_size_def massert_def)
qed

theorem bounded_deque_set_size_fails_witness:
  "bd_push ''z'' True (bd_set_size 1 \<lparr> m_max_queue_size = 2, m_id_counter = 2, m_deque = [(1, ''x''), (2, ''y'')] \<rparr>) =
     Some (Inl (AssertFailed ''m_deque.size() < m_max_queue_size''))"
  using bounded_deque_set_size_fails [of 1 "\<lparr> m_max_queue_size = 2, m_id_counter = 2, m_deque = [(1, ''x''), (2, ''y'')] \<rparr>" "''z''" True]
  by simp

end
