(* ===== verification/TaskPool.thy ===== *)
theory TaskPool
  imports Deques
begin

text \<open>
  The worker threads of a \<^verbatim>\<open>TaskDeque\<close> (TaskDeque.cc) and the threads that push tasks. A worker is at the head of
  \<^verbatim>\<open>worker_loop\<close>, inside \<^verbatim>\<open>take_one\<close> and about to look at the deque, asleep there, or gone; only how many are where
  matters. A task is run when it is taken; tasks do not throw.
\<close>

record 'a task_pool =
  tp_deque :: "'a task_deque"
  tp_head :: nat
  tp_take :: nat
  tp_asleep :: nat
  tp_gone :: nat
  tp_waiting :: "('a option \<times> bool) list"     \<comment> \<open>pushers asleep until there is room\<close>
  tp_woken :: "('a option \<times> bool) list"
  tp_run :: "'a list"                       \<comment> \<open>the tasks run, in the order they were taken\<close>
  tp_pushed :: "'a list"                    \<comment> \<open>the tasks pushed\<close>
  tp_fronts :: nat                          \<comment> \<open>how many of them at the front\<close>

definition tp_notify_worker :: "'a task_pool \<Rightarrow> 'a task_pool" where
  "tp_notify_worker s =
     (if tp_asleep s = 0 then s else s\<lparr> tp_asleep := tp_asleep s - 1, tp_take := Suc (tp_take s) \<rparr>)"

definition tp_wake_pusher :: "nat \<Rightarrow> 'a task_pool \<Rightarrow> 'a task_pool" where
  "tp_wake_pusher i s =
     s\<lparr> tp_waiting := take i (tp_waiting s) @ drop (Suc i) (tp_waiting s), tp_woken := tp_woken s @ [tp_waiting s ! i] \<rparr>"

definition task_list :: "'a option \<Rightarrow> 'a list" where
  "task_list t = (case t of None \<Rightarrow> [] | Some x \<Rightarrow> [x])"

text \<open>A thread in \<^verbatim>\<open>push_task\<close>; with no worker threads it runs the task itself.\<close>

definition tp_push :: "'a option \<Rightarrow> bool \<Rightarrow> 'a task_pool \<Rightarrow> 'a task_pool res" where
  "tp_push t back s =
     (case td_push_task t back (tp_deque s) of
        None \<Rightarrow> Inr (s\<lparr>tp_waiting := tp_waiting s @ [(t, back)]\<rparr>)
      | Some r \<Rightarrow> rbind r (\<lambda>(direct, q).
          if direct = [None] then Inl (Throw ''std::bad_function_call'')
          else if direct \<noteq> [] then Inr (s\<lparr> tp_run := tp_run s @ task_list t, tp_pushed := tp_pushed s @ task_list t \<rparr>)
          else Inr (tp_notify_worker
                 (s\<lparr> tp_deque := q, tp_pushed := tp_pushed s @ task_list t, tp_fronts := tp_fronts s + (if back then 0 else 1) \<rparr>))))"

text \<open>A worker in \<^verbatim>\<open>take_one\<close>, and the task it runs; \<open>i\<close> is the pusher that the notification wakes.\<close>

definition tp_work :: "nat \<Rightarrow> 'a task_pool \<Rightarrow> 'a task_pool" where
  "tp_work i s =
     (case take_one (tp_deque s) of
        None \<Rightarrow> s\<lparr> tp_take := tp_take s - 1, tp_asleep := Suc (tp_asleep s) \<rparr>
      | Some (t, q) \<Rightarrow>
          let s' = s\<lparr> tp_deque := q, tp_take := tp_take s - 1, tp_head := Suc (tp_head s), tp_run := tp_run s @ task_list t \<rparr>
          in if m_task_deque (tp_deque s) \<noteq> [] \<and> td_max_queue_size q > 0 \<and> tp_waiting s \<noteq> [] then tp_wake_pusher i s' else s')"

text \<open>\<^verbatim>\<open>stop\<close> up to the joins: every sleeping worker is woken.\<close>

definition tp_stop :: "'a task_pool \<Rightarrow> 'a task_pool" where
  "tp_stop s = s\<lparr> tp_deque := td_stop (tp_deque s), tp_take := tp_take s + tp_asleep s, tp_asleep := 0 \<rparr>"

inductive pool_step :: "'a task_pool \<Rightarrow> 'a task_pool res \<Rightarrow> bool" where
  push_call: "pool_step s (tp_push t back s)"
| push_woken: "j < length (tp_woken s) \<Longrightarrow> tp_woken s ! j = (t, back) \<Longrightarrow>
    pool_step s (tp_push t back (s\<lparr>tp_woken := take j (tp_woken s) @ drop (Suc j) (tp_woken s)\<rparr>))"
| push_spurious: "i < length (tp_waiting s) \<Longrightarrow> pool_step s (Inr (tp_wake_pusher i s))"
| enter: "0 < tp_head s \<Longrightarrow> m_is_running (tp_deque s) \<Longrightarrow>
    pool_step s (Inr (s\<lparr> tp_head := tp_head s - 1, tp_take := Suc (tp_take s) \<rparr>))"
| work: "0 < tp_take s \<Longrightarrow> i < length (tp_waiting s) \<or> tp_waiting s = [] \<Longrightarrow> pool_step s (Inr (tp_work i s))"
| work_spurious: "0 < tp_asleep s \<Longrightarrow> pool_step s (Inr (s\<lparr> tp_asleep := tp_asleep s - 1, tp_take := Suc (tp_take s) \<rparr>))"
| stop: "pool_step s (Inr (tp_stop s))"
| leave: "0 < tp_head s \<Longrightarrow> \<not> m_is_running (tp_deque s) \<Longrightarrow>
    pool_step s (Inr (s\<lparr> tp_head := tp_head s - 1, tp_gone := Suc (tp_gone s) \<rparr>))"

text \<open>The deque after its constructor, \<^verbatim>\<open>set_max_deque_size\<close> and \<^verbatim>\<open>start\<close>.\<close>

definition task_pool_init :: "nat \<Rightarrow> nat \<Rightarrow> nat \<Rightarrow> 'a task_pool res" where
  "task_pool_init junk maxsize num_threads =
     rbind (td_start num_threads (set_max_deque_size maxsize (TaskDeque_init junk))) (\<lambda>q.
       Inr \<lparr> tp_deque = q, tp_head = num_threads, tp_take = 0, tp_asleep = 0, tp_gone = 0, tp_waiting = [], tp_woken = [],
             tp_run = [], tp_pushed = [], tp_fronts = 0 \<rparr>)"

section \<open>Invariant\<close>

definition pending_tasks :: "'a task_pool \<Rightarrow> 'a list" where
  "pending_tasks s = concat (map task_list (m_task_deque (tp_deque s)))"

definition pool_inv :: "nat \<Rightarrow> 'a task_pool \<Rightarrow> bool" where
  "pool_inv n s \<longleftrightarrow>
     0 < n \<and> m_num_threads (tp_deque s) = n \<and> tp_head s + tp_take s + tp_asleep s + tp_gone s = n \<and>
     (0 < tp_asleep s \<longrightarrow> m_is_running (tp_deque s) \<and> length (m_task_deque (tp_deque s)) \<le> tp_take s + tp_head s) \<and>
     (m_is_running (tp_deque s) \<longrightarrow> tp_gone s = 0) \<and>
     (tp_waiting s \<noteq> [] \<longrightarrow> 0 < td_max_queue_size (tp_deque s) \<and>
        td_max_queue_size (tp_deque s) \<le> length (m_task_deque (tp_deque s)) + length (tp_woken s)) \<and>
     (tp_fronts s = 0 \<longrightarrow> tp_run s @ pending_tasks s = tp_pushed s)"

lemma pool_inv_push:
  assumes "pool_inv n (s\<lparr>tp_woken := w\<rparr>)" and "length w \<le> Suc (length (tp_woken s))"
  shows "\<exists>s'. tp_push t back s = Inr s' \<and> pool_inv n s'"
proof -
  let ?q = "tp_deque s"
  have i: "0 < n" "m_num_threads ?q = n" using assms(1) by (simp_all add: pool_inv_def)
  show ?thesis
  proof (cases "td_is_full ?q")
    case True
    then have "tp_push t back s = Inr (s\<lparr>tp_waiting := tp_waiting s @ [(t, back)]\<rparr>)"
      using i by (simp add: tp_push_def td_push_task_def)
    then show ?thesis using assms(1) True by (auto simp: pool_inv_def td_is_full_def pending_tasks_def)
  next
    case False
    let ?d = "if back then m_task_deque ?q @ [t] else t # m_task_deque ?q"
    let ?s = "s\<lparr> tp_deque := ?q\<lparr>m_task_deque := ?d\<rparr>, tp_pushed := tp_pushed s @ task_list t, tp_fronts := tp_fronts s + (if back then 0 else 1) \<rparr>"
    have "tp_push t back s = Inr (tp_notify_worker ?s)"
      using False i by (simp add: tp_push_def td_push_task_def)
    moreover have "length ?d = Suc (length (m_task_deque ?q))" by simp
    moreover have "pool_inv n (tp_notify_worker ?s)"
      using assms(1,2) by (auto simp: pool_inv_def tp_notify_worker_def pending_tasks_def)
    ultimately show ?thesis by blast
  qed
qed

lemma pool_inv_wake_pusher:
  assumes "pool_inv n s" and "i < length (tp_waiting s)"
  shows "pool_inv n (tp_wake_pusher i s)"
  using assms by (auto simp: pool_inv_def tp_wake_pusher_def pending_tasks_def)

lemma pool_inv_work:
  assumes "pool_inv n s" and "0 < tp_take s" and "i < length (tp_waiting s) \<or> tp_waiting s = []"
  shows "pool_inv n (tp_work i s)"
proof (cases "m_task_deque (tp_deque s)")
  case Nil
  then show ?thesis using assms
    by (cases "m_is_running (tp_deque s)") (auto simp: tp_work_def take_one_def pool_inv_def pending_tasks_def task_list_def)
next
  case (Cons t ts)
  then show ?thesis using assms
    by (cases "tp_waiting s = []") (auto simp: tp_work_def take_one_def pool_inv_def pending_tasks_def tp_wake_pusher_def)
qed

lemma pool_step_keeps_inv:
  assumes "pool_step s r" and "pool_inv n s"
  shows "\<exists>s'. r = Inr s' \<and> pool_inv n s'"
  using assms(1)
proof cases
  case (push_call t b)
  then show ?thesis using pool_inv_push [where s = s and w = "tp_woken s"] assms(2) by simp
next
  case (push_woken j t b)
  then show ?thesis
    using pool_inv_push [where s = "s\<lparr>tp_woken := take j (tp_woken s) @ drop (Suc j) (tp_woken s)\<rparr>" and w = "tp_woken s"] assms(2) by simp
next
  case (push_spurious i)
  then show ?thesis using pool_inv_wake_pusher assms(2) by blast
next
  case (work i)
  then show ?thesis using pool_inv_work assms(2) by blast
qed (use assms(2) in \<open>auto simp: pool_inv_def tp_stop_def td_stop_def pending_tasks_def\<close>)

interpretation pooled: safe_system pool_step "pool_inv n" for n
  by unfold_locales (rule pool_step_keeps_inv)

lemma task_pool_init_inv:
  assumes "0 < n" and "task_pool_init junk maxsize n = Inr s"
  shows "pool_inv n s"
  using assms by (auto simp: task_pool_init_def td_start_def set_max_deque_size_def TaskDeque_init_def pool_inv_def
    pending_tasks_def task_list_def kMaxTaskDequeSize_def numeral_eq_Suc)

lemma task_pool_starts: "\<exists>s. task_pool_init junk maxsize n = Inr s"
  by (simp add: task_pool_init_def td_start_def set_max_deque_size_def TaskDeque_init_def)

section \<open>What the pool promises\<close>



text \<open>After \<^verbatim>\<open>stop\<close> every worker can leave its loop, so the joins return; each worker that was asleep runs at most one more task.\<close>

lemma stopped_worker_moves:
  assumes "\<not> m_is_running (tp_deque s)" and "0 < tp_take s + tp_head s"
  shows "\<exists>s'. pool_step s (Inr s') \<and> \<not> m_is_running (tp_deque s') \<and>
    2 * tp_take s' + tp_head s' < 2 * tp_take s + tp_head s"
proof (cases "tp_take s = 0")
  case True
  let ?s = "s\<lparr> tp_head := tp_head s - 1, tp_gone := Suc (tp_gone s) \<rparr>"
  have "pool_step s (Inr ?s)" using True assms pool_step.leave by auto
  then show ?thesis using True assms by (intro exI [of _ ?s]) auto
next
  case False
  then have "pool_step s (Inr (tp_work 0 s))" using pool_step.work by auto
  then show ?thesis using False assms(1)
    by (intro exI [of _ "tp_work 0 s"]) (auto simp: tp_work_def take_one_def tp_wake_pusher_def Let_def)
qed

lemma stopped_workers_leave:
  assumes "pool_inv n s" and "\<not> m_is_running (tp_deque s)"
  shows "\<exists>s'. ok_steps pool_step s s' \<and> tp_gone s' = n"
  using assms
proof (induction "2 * tp_take s + tp_head s" arbitrary: s rule: less_induct)
  case less
  show ?case
  proof (cases "tp_take s + tp_head s = 0")
    case True
    then have "tp_gone s = n" using less.prems by (auto simp: pool_inv_def)
    then show ?thesis by blast
  next
    case False
    then obtain s1 where s1: "pool_step s (Inr s1)" "\<not> m_is_running (tp_deque s1)"
      "2 * tp_take s1 + tp_head s1 < 2 * tp_take s + tp_head s"
      using stopped_worker_moves [OF less.prems(2)] by auto
    have "pool_inv n s1" using pool_step_keeps_inv [OF s1(1) less.prems(1)] by simp
    then obtain s' where "ok_steps pool_step s1 s'" "tp_gone s' = n" using less.hyps s1(2,3) by blast
    then show ?thesis using s1(1) ok_steps_trans ok_steps_one by metis
  qed
qed

theorem task_pool_stops:
  assumes "0 < n" and "task_pool_init junk maxsize n = Inr s0" and "ok_steps pool_step s0 s"
  shows "\<exists>s'. ok_steps pool_step (tp_stop s) s' \<and> tp_gone s' = n"
proof -
  have "pool_inv n s" using pooled.reachable_inv [OF assms(3)] task_pool_init_inv [OF assms(1,2)] .
  then have "pool_inv n (tp_stop s)" using pool_step_keeps_inv [OF pool_step.stop] by blast
  then show ?thesis by (rule stopped_workers_leave) (simp add: tp_stop_def td_stop_def)
qed

text \<open>\<^verbatim>\<open>stop\<close> notifies the workers only. A pusher that waits for room when the workers leave waits for ever: with a bound of at most
  ten the constructor's empty tasks already fill the deque.\<close>

definition pool_stuck :: "nat \<Rightarrow> 'a task_pool \<Rightarrow> bool" where
  "pool_stuck n s \<longleftrightarrow> pool_inv n s \<and> tp_gone s = n \<and> td_is_full (tp_deque s)"

lemma tp_push_full:
  assumes "0 < m_num_threads (tp_deque s)" and "td_is_full (tp_deque s)"
  shows "tp_push t back s = Inr (s\<lparr>tp_waiting := tp_waiting s @ [(t, back)]\<rparr>)"
  using assms by (simp add: tp_push_def td_push_task_def)

lemma pool_stuck_step:
  assumes "pool_step s (Inr s')" and "pool_stuck n s"
  shows "pool_stuck n s' \<and> tp_deque s' = tp_deque s \<and> tp_pushed s' = tp_pushed s"
proof -
  have "pool_inv n s'" using pool_step_keeps_inv [OF assms(1)] assms(2) by (auto simp: pool_stuck_def)
  moreover have f: "0 < m_num_threads (tp_deque s)" "\<not> m_is_running (tp_deque s)" "tp_head s = 0" "tp_take s = 0" "tp_asleep s = 0"
    "tp_gone s = n" "td_is_full (tp_deque s)"
    using assms(2) by (auto simp: pool_stuck_def pool_inv_def)
  from assms(1) have "tp_gone s' = tp_gone s \<and> tp_deque s' = tp_deque s \<and> tp_pushed s' = tp_pushed s"
    by cases (use f in \<open>auto simp: tp_push_full tp_wake_pusher_def tp_stop_def td_stop_def\<close>)
  ultimately show ?thesis using f by (simp add: pool_stuck_def)
qed

lemma pool_stuck_stays:
  assumes "pool_stuck n s" and "ok_steps pool_step s s'"
  shows "tp_gone s' = n \<and> tp_deque s' = tp_deque s \<and> tp_pushed s' = tp_pushed s"
proof -
  have "pool_stuck n s' \<and> tp_deque s' = tp_deque s \<and> tp_pushed s' = tp_pushed s"
    using assms(2) unfolding ok_steps_def
    by (rule rtranclp_invariant [where I = "\<lambda>x. pool_stuck n x \<and> tp_deque x = tp_deque s \<and> tp_pushed x = tp_pushed s"])
      (use assms(1) in \<open>auto dest: pool_stuck_step\<close>)
  then show ?thesis by (simp add: pool_stuck_def)
qed

theorem task_pool_strands_pusher:
  "\<exists>s0 s. task_pool_init junk 1 1 = Inr s0 \<and> ok_steps pool_step s0 s \<and> tp_waiting s = [(Some x, True)] \<and>
     (\<forall>s'. ok_steps pool_step s s' \<longrightarrow> tp_gone s' = 1 \<and> tp_pushed s' = [])"
proof -
  obtain s0 :: "'a task_pool" where s0: "task_pool_init junk 1 1 = Inr s0" using task_pool_starts by blast
  then have inv: "pool_inv 1 s0" by (rule task_pool_init_inv [rotated]) simp
  have d: "m_num_threads (tp_deque s0) = 1" "td_is_full (tp_deque s0)" "tp_waiting s0 = []" "tp_head s0 = 1" "tp_pushed s0 = []"
      "tp_gone s0 = 0" "tp_take s0 = 0" "tp_asleep s0 = 0"
    using s0 by (auto simp: task_pool_init_def td_start_def set_max_deque_size_def TaskDeque_init_def td_is_full_def
      kMaxTaskDequeSize_def)
  let ?s1 = "s0\<lparr>tp_waiting := [(Some x, True)]\<rparr>"
  let ?s2 = "tp_stop ?s1"
  let ?s3 = "?s2\<lparr> tp_head := tp_head ?s2 - 1, tp_gone := Suc (tp_gone ?s2) \<rparr>"
  have p1: "pool_step s0 (Inr ?s1)" using pool_step.push_call [of s0 "Some x" True] d by (simp add: tp_push_full)
  have p2: "pool_step ?s1 (Inr ?s2)" by (rule pool_step.stop)
  have p3: "pool_step ?s2 (Inr ?s3)" by (rule pool_step.leave) (simp_all add: tp_stop_def td_stop_def d)
  have steps: "ok_steps pool_step s0 ?s3"
    by (rule ok_steps_snoc [where step = pool_step, OF ok_steps_snoc [where step = pool_step, OF ok_steps_one [where step = pool_step, OF p1] p2] p3])
  have "tp_gone ?s3 = 1" "td_is_full (tp_deque ?s3)" and pushed: "tp_pushed ?s3 = []"
    using d by (simp_all add: tp_stop_def td_stop_def td_is_full_def)
  then have stuck: "pool_stuck 1 ?s3"
    unfolding pool_stuck_def by (intro conjI pooled.reachable_inv [OF steps inv])
  have "\<forall>s'. ok_steps pool_step ?s3 s' \<longrightarrow> tp_gone s' = 1 \<and> tp_pushed s' = []"
    unfolding pushed [symmetric] by (intro allI impI) (use pool_stuck_stays [OF stuck] in blast)
  moreover have "tp_waiting ?s3 = [(Some x, True)]" by (simp add: tp_stop_def)
  ultimately show ?thesis using s0 steps by (intro exI [of _ s0] exI [of _ ?s3] conjI)
qed

end
