(* ===== verification/Sockets.thy ===== *)
theory Sockets
  imports Endian Cformat Channel TimerQueue
begin

text \<open>
  InetAddress.h, InetAddress.cc, SocketsOps.cc, Socket.cc, Acceptor.h and Acceptor.cc: addresses, the wrappers of the
  socket calls, and the acceptor of a server. The results of the system calls are arguments, and so is \<^verbatim>\<open>inet_ntop\<close>,
  from the family and the bytes of the address to its text.
\<close>

section \<open>Addresses\<close>

definition AF_INET :: nat where "AF_INET = 2"
definition AF_INET6 :: nat where "AF_INET6 = 10"
definition INET_ADDRSTRLEN :: nat where "INET_ADDRSTRLEN = 16"
definition INET6_ADDRSTRLEN :: nat where "INET6_ADDRSTRLEN = 46"

text \<open>
  The union of \<^verbatim>\<open>sockaddr_in\<close> and \<^verbatim>\<open>sockaddr_in6\<close>: family and port share their place; the bytes 4 to 7 are the IPv4 address
  or the flow information, the bytes 8 to 23 the padding or the IPv6 address, then the scope.
\<close>

record sockaddr =
  sa_family :: nat
  sa_port :: "16 word"         \<comment> \<open>in network byte order\<close>
  sa_addr4 :: "32 word"        \<comment> \<open>\<^verbatim>\<open>sin_addr\<close> or \<^verbatim>\<open>sin6_flowinfo\<close>\<close>
  sa_addr6_hi :: "64 word"     \<comment> \<open>\<^verbatim>\<open>sin_zero\<close> or the first half of \<^verbatim>\<open>sin6_addr\<close>\<close>
  sa_addr6_lo :: "64 word"
  sa_scope :: "32 word"

definition zero_in :: "sockaddr \<Rightarrow> sockaddr" where
  "zero_in a = a\<lparr> sa_family := 0, sa_port := 0, sa_addr4 := 0, sa_addr6_hi := 0 \<rparr>"

definition zero_in6 :: "sockaddr \<Rightarrow> sockaddr" where
  "zero_in6 a = (zero_in a)\<lparr> sa_addr6_lo := 0, sa_scope := 0 \<rparr>"

definition kInaddrAny :: "32 word" where "kInaddrAny = 0"
definition kInaddrLoopback :: "32 word" where "kInaddrLoopback = 0x7F000001"

text \<open>\<open>junk\<close> is what the memory of the object holds before. The second half of \<^verbatim>\<open>in6addr_loopback\<close> is seven zero bytes and a one.\<close>

definition InetAddress_init :: "sockaddr \<Rightarrow> 16 word \<Rightarrow> bool \<Rightarrow> bool \<Rightarrow> sockaddr" where
  "InetAddress_init junk port loopbackOnly ipv6 =
     (if ipv6
      then (zero_in6 junk)\<lparr> sa_family := AF_INET6, sa_addr6_hi := 0,
              sa_addr6_lo := if loopbackOnly then 0x0100000000000000 else 0, sa_port := host_to_net16 port \<rparr>
      else (zero_in junk)\<lparr> sa_family := AF_INET,
              sa_addr4 := host_to_net32 (if loopbackOnly then kInaddrLoopback else kInaddrAny), sa_port := host_to_net16 port \<rparr>)"

definition family :: "sockaddr \<Rightarrow> nat" where
  "family a = sa_family a"

definition port_net_endian :: "sockaddr \<Rightarrow> 16 word" where
  "port_net_endian a = sa_port a"

definition ip_net_endian :: "sockaddr \<Rightarrow> 32 word res" where
  "ip_net_endian a = massert (family a = AF_INET) ''family() == AF_INET'' (Inr (sa_addr4 a))"

definition to_port :: "sockaddr \<Rightarrow> 16 word" where
  "to_port a = net_to_host16 (port_net_endian a)"

text \<open>\<^verbatim>\<open>inet_pton\<close> gives the bytes of the address, or nothing when the text is not one.\<close>

definition fromIpPort4 :: "(string \<Rightarrow> 32 word option) \<Rightarrow> string \<Rightarrow> 16 word \<Rightarrow> sockaddr \<Rightarrow> sockaddr" where
  "fromIpPort4 inet_pton ip port a =
     (let a = a\<lparr> sa_family := AF_INET, sa_port := host_to_net16 port \<rparr>
      in case inet_pton ip of None \<Rightarrow> a | Some w \<Rightarrow> a\<lparr>sa_addr4 := w\<rparr>)"

definition fromIpPort6 :: "(string \<Rightarrow> (64 word \<times> 64 word) option) \<Rightarrow> string \<Rightarrow> 16 word \<Rightarrow> sockaddr \<Rightarrow> sockaddr" where
  "fromIpPort6 inet_pton ip port a =
     (let a = a\<lparr> sa_family := AF_INET6, sa_port := host_to_net16 port \<rparr>
      in case inet_pton ip of None \<Rightarrow> a | Some (hi, lo) \<Rightarrow> a\<lparr> sa_addr6_hi := hi, sa_addr6_lo := lo \<rparr>)"

definition InetAddress_ip ::
    "(string \<Rightarrow> 32 word option) \<Rightarrow> (string \<Rightarrow> (64 word \<times> 64 word) option) \<Rightarrow> sockaddr \<Rightarrow> string \<Rightarrow> 16 word \<Rightarrow> bool \<Rightarrow> sockaddr" where
  "InetAddress_ip pton4 pton6 junk ip port ipv6 =
     (if ipv6 then fromIpPort6 pton6 ip port (zero_in6 junk) else fromIpPort4 pton4 ip port (zero_in junk))"

text \<open>The text of an address, in a buffer of the given size that holds the empty string.\<close>

definition to_ip :: "(sockaddr \<Rightarrow> string) \<Rightarrow> nat \<Rightarrow> sockaddr \<Rightarrow> string res" where
  "to_ip inet_ntop sz a =
     (if sa_family a = AF_INET then massert (INET_ADDRSTRLEN \<le> sz) ''size >= INET_ADDRSTRLEN'' (Inr (inet_ntop a))
      else if sa_family a = AF_INET6 then massert (INET6_ADDRSTRLEN \<le> sz) ''size >= INET6_ADDRSTRLEN'' (Inr (inet_ntop a))
      else Inr [])"

definition to_ip_port :: "(sockaddr \<Rightarrow> string) \<Rightarrow> nat \<Rightarrow> sockaddr \<Rightarrow> string res" where
  "to_ip_port inet_ntop sz a =
     rbind (to_ip inet_ntop sz a) (\<lambda>buf.
       massert (length buf < sz) ''size > end''
         (Inr (buf @ snprintf (sz - length buf) ('':'' @ dec_nat (unat (net_to_host16 (sa_port a)))))))"

definition InetAddress_to_ip :: "(sockaddr \<Rightarrow> string) \<Rightarrow> sockaddr \<Rightarrow> string res" where
  "InetAddress_to_ip inet_ntop a = to_ip inet_ntop 64 a"

definition InetAddress_to_ip_port :: "(sockaddr \<Rightarrow> string) \<Rightarrow> sockaddr \<Rightarrow> string res" where
  "InetAddress_to_ip_port inet_ntop a = to_ip_port inet_ntop 64 a"

text \<open>\<open>he\<close> is what \<^verbatim>\<open>gethostbyname_r\<close> finds: the type and length of the address, and its first four bytes.\<close>

definition resolve :: "(nat \<times> nat \<times> 32 word) option \<Rightarrow> sockaddr \<Rightarrow> (bool \<times> sockaddr) res" where
  "resolve he out =
     (case he of
        None \<Rightarrow> Inr (False, out)
      | Some (addrtype, len, w) \<Rightarrow>
          massert (addrtype = AF_INET \<and> len = 4) ''he->h_addrtype == AF_INET && he->h_length == sizeof(uint32_t)''
            (Inr (True, out\<lparr>sa_addr4 := w\<rparr>)))"

section \<open>Calls on sockets\<close>

definition create_sockfd_nonblocking_or_abort :: "int \<Rightarrow> int res" where
  "create_sockfd_nonblocking_or_abort sockfd =
     (if sockfd < 0 then mfatal ''socket_ops::create_sockfd_nonblocking_or_abort'' else Inr sockfd)"

definition bind_or_abort :: "int \<Rightarrow> unit res" where
  "bind_or_abort ret = (if ret < 0 then mfatal ''socket_ops::bind_or_abort'' else Inr ())"

definition listen_or_abort :: "int \<Rightarrow> unit res" where
  "listen_or_abort ret = (if ret < 0 then mfatal ''socket_ops::listen_or_abort'' else Inr ())"

datatype errno =
    EAGAIN | ECONNABORTED | EINTR | EPROTO | EPERM | EMFILE | EBADF | EFAULT | EINVAL | ENFILE | ENOBUFS | ENOMEM
  | ENOTSOCK | EOPNOTSUPP | EOTHER int

definition socket_ops_accept :: "int \<Rightarrow> errno \<Rightarrow> int res" where
  "socket_ops_accept connfd savedErrno =
     (if connfd < 0
      then if savedErrno \<in> {EAGAIN, ECONNABORTED, EINTR, EPROTO, EPERM, EMFILE} then Inr connfd
           else if savedErrno \<in> {EBADF, EFAULT, EINVAL, ENFILE, ENOBUFS, ENOMEM, ENOTSOCK, EOPNOTSUPP}
           then mfatal ''unexpected error of ::accept'' else mfatal ''unknown error of ::accept''
      else Inr connfd)"

text \<open>\<open>ret\<close> and \<open>optval\<close> are the outcome of \<^verbatim>\<open>getsockopt\<close>.\<close>

definition getSocketError :: "int \<Rightarrow> int \<Rightarrow> int \<Rightarrow> int" where
  "getSocketError ret err optval = (if ret < 0 then err else optval)"

definition isSelfConnect :: "sockaddr \<Rightarrow> sockaddr \<Rightarrow> bool" where
  "isSelfConnect localaddr peeraddr =
     (if sa_family localaddr = AF_INET
      then sa_port localaddr = sa_port peeraddr \<and> sa_addr4 localaddr = sa_addr4 peeraddr
      else if sa_family localaddr = AF_INET6
      then sa_port localaddr = sa_port peeraddr \<and> sa_addr6_hi localaddr = sa_addr6_hi peeraddr \<and>
           sa_addr6_lo localaddr = sa_addr6_lo peeraddr
      else False)"

text \<open>\<^verbatim>\<open>Socket::accept\<close> gives the descriptor and the peer's address, zero unless the kernel filled it in.\<close>

definition Socket_accept :: "int \<Rightarrow> errno \<Rightarrow> sockaddr \<Rightarrow> sockaddr \<Rightarrow> (int \<times> sockaddr) res" where
  "Socket_accept connfd savedErrno addr peeraddr =
     rbind (socket_ops_accept connfd savedErrno) (\<lambda>connfd.
       if 0 \<le> connfd then Inr (connfd, addr) else mfatal ''Accept Failure: Socket::accept got error'')"

section \<open>Acceptor\<close>

record acceptor =
  m_accept_channel :: channel
  m_has_new_conn_callback :: bool
  m_is_listening :: bool
  m_reserved_fd :: int

datatype acceptor_event = New_conn int sockaddr | Close_conn int

text \<open>\<open>sockfd\<close>, \<open>bind_ret\<close> and \<open>null_fd\<close> are the results of \<^verbatim>\<open>socket\<close>, \<^verbatim>\<open>bind\<close> and of opening the null device.\<close>

definition Acceptor_init :: "int \<Rightarrow> int \<Rightarrow> int \<Rightarrow> acceptor res" where
  "Acceptor_init sockfd null_fd bind_ret =
     rbind (create_sockfd_nonblocking_or_abort sockfd) (\<lambda>sockfd.
       massert (0 \<le> null_fd) ''m_reserved_fd >= 0''
         (rbind (bind_or_abort bind_ret) (\<lambda>_.
            Inr \<lparr> m_accept_channel = (Channel_init sockfd)\<lparr>m_read_callback := True\<rparr>, m_has_new_conn_callback = False,
                 m_is_listening = False, m_reserved_fd = null_fd \<rparr>)))"

definition Acceptor_destroy :: "acceptor \<Rightarrow> acceptor res" where
  "Acceptor_destroy a =
     (let ch = channel_request End_all (m_accept_channel a)
      in massert (is_none_event ch) ''is_none_event()''
           (Inr (a\<lparr> m_accept_channel := ch\<lparr>m_is_in_reactor := False\<rparr>, m_is_listening := False \<rparr>)))"

definition is_listenning :: "acceptor \<Rightarrow> bool" where
  "is_listenning a = m_is_listening a"

definition listen :: "bool \<Rightarrow> int \<Rightarrow> acceptor \<Rightarrow> acceptor res" where
  "listen in_thread listen_ret a =
     in_loop_thread in_thread
       (let a = a\<lparr>m_is_listening := True\<rparr>
        in rbind (listen_or_abort listen_ret) (\<lambda>_.
             Inr (a\<lparr>m_accept_channel := channel_request Wang_to_read (m_accept_channel a)\<rparr>)))"

text \<open>\<open>accept2\<close> and \<open>null_fd\<close> are the results of the calls that give up the reserved descriptor for a moment.\<close>

definition handle_conn_arrival ::
    "bool \<Rightarrow> int \<Rightarrow> errno \<Rightarrow> sockaddr \<Rightarrow> int \<Rightarrow> int \<Rightarrow> acceptor \<Rightarrow> (acceptor \<times> acceptor_event list) res" where
  "handle_conn_arrival in_thread connfd err addr accept2 null_fd a =
     in_loop_thread in_thread
       (rbind (Socket_accept connfd err addr (InetAddress_init addr 0 False False)) (\<lambda>(connfd, peer_addr).
          if 0 \<le> connfd
          then Inr (a, if m_has_new_conn_callback a then [New_conn connfd peer_addr] else [Close_conn connfd])
          else if err = EMFILE
          then Inr (a\<lparr>m_reserved_fd := null_fd\<rparr>, [Close_conn (m_reserved_fd a), Close_conn accept2])
          else Inr (a, [])))"

section \<open>Properties\<close>

lemma net_host16: "net_to_host16 (host_to_net16 x) = x"
  by (simp add: endian_defs bswap_bswap)

text \<open>
  An address keeps the port it was made with, through the network byte order, and its text is the address, a colon
  and the port in decimal. With texts from \<^verbatim>\<open>inet_ntop\<close> of at most 45 characters it fits the buffer of 64,
  and has at most 51 characters.
\<close>

theorem inet_address_text:
  assumes "\<forall>a. length (inet_ntop a) \<le> 45"
  shows "to_port (InetAddress_init junk port loopbackOnly ipv6) = port \<and>
     (let a = InetAddress_init junk port loopbackOnly ipv6; txt = inet_ntop a @ '':'' @ dec_nat (unat port)
      in InetAddress_to_ip_port inet_ntop a = Inr txt \<and> length txt \<le> 51)"
proof -
  let ?a = "InetAddress_init junk port loopbackOnly ipv6"
  have p: "net_to_host16 (sa_port ?a) = port" by (simp add: InetAddress_init_def net_host16)
  have f: "sa_family ?a = AF_INET \<or> sa_family ?a = AF_INET6" by (simp add: InetAddress_init_def)
  have "unat port < 2 ^ 16" using unsigned_less [of port] by simp
  then have d: "length (dec_nat (unat port)) \<le> 5" by (intro length_dec_nat) simp_all
  have n: "length (inet_ntop ?a) \<le> 45" using assms by simp
  have "to_ip inet_ntop 64 ?a = Inr (inet_ntop ?a)"
    using f by (auto simp: to_ip_def massert_def INET_ADDRSTRLEN_def INET6_ADDRSTRLEN_def)
  then have "InetAddress_to_ip_port inet_ntop ?a = Inr (inet_ntop ?a @ '':'' @ dec_nat (unat port))"
    using n d p by (simp add: InetAddress_to_ip_port_def to_ip_port_def massert_def snprintf_def)
  then show ?thesis using p n d by (simp add: to_port_def port_net_endian_def)
qed

theorem inet_address_text_witness:
  "InetAddress_to_ip_port (\<lambda>a. ''127.0.0.1'') (InetAddress_init undefined 80 True False) = Inr ''127.0.0.1:80''"
proof -
  have d: "dec_nat 80 = ''80''" by code_simp
  show ?thesis using inet_address_text [of "\<lambda>a. ''127.0.0.1''" undefined 80 True False] d by (simp add: Let_def)
qed

text \<open>
  Every error of \<^verbatim>\<open>accept\<close> ends the process, the transient ones and the exhaustion of descriptors included: the wrapper
  of the socket logs a fatal line for any negative result, so the code of the acceptor that gives up its
  reserved descriptor is never reached. A successful \<^verbatim>\<open>accept\<close> hands on the descriptor.
\<close>

theorem accept_error_aborts:
  shows "(connfd < 0 \<longrightarrow> (\<exists>msg. handle_conn_arrival True connfd err addr accept2 null_fd a = Inl (LogFatal msg))) \<and>
     (0 \<le> connfd \<longrightarrow> handle_conn_arrival True connfd err addr accept2 null_fd a =
        Inr (a, if m_has_new_conn_callback a then [New_conn connfd addr] else [Close_conn connfd]))"
proof (cases "connfd < 0")
  case True
  then have "(\<exists>msg. socket_ops_accept connfd err = Inl (LogFatal msg)) \<or> socket_ops_accept connfd err = Inr connfd"
    unfolding socket_ops_accept_def mfatal_def by metis
  then have "\<exists>msg. Socket_accept connfd err addr p = Inl (LogFatal msg)" for p
    using True by (auto simp: Socket_accept_def mfatal_def)
  then obtain msg where "Socket_accept connfd err addr (InetAddress_init addr 0 False False) = Inl (LogFatal msg)" by blast
  then show ?thesis using True by (simp add: handle_conn_arrival_def in_loop_thread_def)
next
  case False
  then show ?thesis by (simp add: handle_conn_arrival_def in_loop_thread_def Socket_accept_def socket_ops_accept_def)
qed

theorem accept_error_aborts_witness:
  "\<exists>msg. handle_conn_arrival True (- 1) EMFILE (zero_in6 undefined) 9 8
     \<lparr> m_accept_channel = Channel_init 4, m_has_new_conn_callback = True, m_is_listening = True, m_reserved_fd = 3 \<rparr> =
     Inl (LogFatal msg)"
  using accept_error_aborts [of "- 1" EMFILE "zero_in6 undefined" 9 8
     "\<lparr> m_accept_channel = Channel_init 4, m_has_new_conn_callback = True, m_is_listening = True, m_reserved_fd = 3 \<rparr>"]
  by simp

end
