(* ===== verification/SocketOptions.thy ===== *)
theory SocketOptions
  imports Sockets
begin

text \<open>
  The options and the statistics of a socket: the setters of Socket.cc, \<^verbatim>\<open>get_tcp_info\<close> and its text, and the text a connection
  gives (TcpConnection.cc). The options a socket has in the kernel are a map; the results of the calls are arguments.
\<close>

datatype socket_option = TCP_NODELAY | SO_REUSEADDR | SO_REUSEPORT | SO_KEEPALIVE

type_synonym socket_options = "socket_option \<Rightarrow> int"

text \<open>A failed \<^verbatim>\<open>setsockopt\<close> changes nothing, and is logged when the option was to be set: the new options and the message.\<close>

definition set_option :: "socket_option \<Rightarrow> string \<Rightarrow> int \<Rightarrow> bool \<Rightarrow> socket_options \<Rightarrow> socket_options \<times> string option" where
  "set_option opt msg ret on os =
     (let optval = if on then 1 else 0
      in (if ret < 0 then os else os(opt := optval), if ret < 0 \<and> on then Some msg else None))"

definition set_tcp_nodelay :: "int \<Rightarrow> bool \<Rightarrow> socket_options \<Rightarrow> socket_options \<times> string option" where
  "set_tcp_nodelay = set_option TCP_NODELAY ''set_reuse_adder failed.''"

definition set_reuse_adder :: "int \<Rightarrow> bool \<Rightarrow> socket_options \<Rightarrow> socket_options \<times> string option" where
  "set_reuse_adder = set_option SO_REUSEADDR ''set_reuse_adder failed.''"

definition set_reuse_port :: "int \<Rightarrow> bool \<Rightarrow> socket_options \<Rightarrow> socket_options \<times> string option" where
  "set_reuse_port = set_option SO_REUSEPORT ''SO_REUSEPORT failed.''"

definition set_keep_alive :: "int \<Rightarrow> bool \<Rightarrow> socket_options \<Rightarrow> socket_options \<times> string option" where
  "set_keep_alive = set_option SO_KEEPALIVE ''set_reuse_adder failed.''"

section \<open>Statistics\<close>

record tcp_info =
  tcpi_retransmits :: "8 word"
  tcpi_rto :: "32 word"
  tcpi_ato :: "32 word"
  tcpi_snd_mss :: "32 word"
  tcpi_rcv_mss :: "32 word"
  tcpi_lost :: "32 word"
  tcpi_retrans :: "32 word"
  tcpi_rtt :: "32 word"
  tcpi_rttvar :: "32 word"
  tcpi_snd_ssthresh :: "32 word"
  tcpi_snd_cwnd :: "32 word"
  tcpi_total_retrans :: "32 word"

definition get_tcp_info :: "int \<Rightarrow> tcp_info \<Rightarrow> tcp_info option" where
  "get_tcp_info ret tcpi = (if ret = 0 then Some tcpi else None)"

text \<open>\<^verbatim>\<open>%u\<close>.\<close>

definition fmt_u :: "'w::len word \<Rightarrow> string" where
  "fmt_u w = dec_nat (unat w)"

definition tcp_info_text :: "tcp_info \<Rightarrow> string" where
  "tcp_info_text t =
     ''unrecovered='' @ fmt_u (tcpi_retransmits t) @ '' '' @
     ''rto='' @ fmt_u (tcpi_rto t) @ '' ato='' @ fmt_u (tcpi_ato t) @ '' snd_mss='' @ fmt_u (tcpi_snd_mss t) @
     '' rcv_mss='' @ fmt_u (tcpi_rcv_mss t) @ '' '' @
     ''lost='' @ fmt_u (tcpi_lost t) @ '' retrans='' @ fmt_u (tcpi_retrans t) @ '' rtt='' @ fmt_u (tcpi_rtt t) @
     '' rttvar='' @ fmt_u (tcpi_rttvar t) @ '' '' @
     ''sshthresh='' @ fmt_u (tcpi_snd_ssthresh t) @ '' cwnd='' @ fmt_u (tcpi_snd_cwnd t) @
     '' total_retrans='' @ fmt_u (tcpi_total_retrans t)"

definition get_tcp_info_string :: "int \<Rightarrow> tcp_info \<Rightarrow> nat \<Rightarrow> string \<Rightarrow> bool \<times> string" where
  "get_tcp_info_string ret tcpi len buf =
     (case get_tcp_info ret tcpi of Some t \<Rightarrow> (True, snprintf len (tcp_info_text t)) | None \<Rightarrow> (False, buf))"

text \<open>What \<^verbatim>\<open>TcpConnection::get_tcp_info_string\<close> returns.\<close>

definition conn_tcp_info_string :: "int \<Rightarrow> tcp_info \<Rightarrow> string" where
  "conn_tcp_info_string ret tcpi = snd (get_tcp_info_string ret tcpi 1024 [])"

section \<open>Lemmas\<close>

lemma set_option_spec:
  "0 \<le> ret \<Longrightarrow> set_option opt msg ret on os = (os(opt := of_bool on), None)"
  "ret < 0 \<Longrightarrow> set_option opt msg ret on os = (os, if on then Some msg else None)"
  by (auto simp: set_option_def)

text \<open>The setters change one option each.\<close>

lemma setters_independent:
  assumes "0 \<le> r1" and "0 \<le> r2"
  shows "fst (set_keep_alive r1 a (fst (set_tcp_nodelay r2 b os))) = fst (set_tcp_nodelay r2 b (fst (set_keep_alive r1 a os)))"
  using assms by (simp add: set_keep_alive_def set_tcp_nodelay_def set_option_spec fun_upd_twist)

lemma fmt_u_len: "unat w < 10 ^ k \<Longrightarrow> 0 < k \<Longrightarrow> length (fmt_u w) \<le> k"
  by (simp add: fmt_u_def length_dec_nat)

lemma fmt_u32_len: "length (fmt_u (w :: 32 word)) \<le> 10"
proof (rule fmt_u_len)
  have "unat w < 2 ^ LENGTH(32)" by (rule unsigned_less)
  then show "unat w < 10 ^ 10" by simp
qed simp

lemma fmt_u8_len: "length (fmt_u (w :: 8 word)) \<le> 3"
proof (rule fmt_u_len)
  have "unat w < 2 ^ LENGTH(8)" by (rule unsigned_less)
  then show "unat w < 10 ^ 3" by simp
qed simp

text \<open>The 1024 bytes of the connection's array hold the whole text, whatever the counters are.\<close>

theorem tcp_info_string_complete: "conn_tcp_info_string 0 t = tcp_info_text t"
proof -
  have "length (tcp_info_text t) \<le> 123 + 11 * 10"
    using fmt_u8_len [of "tcpi_retransmits t"] fmt_u32_len [of "tcpi_rto t"] fmt_u32_len [of "tcpi_ato t"]
      fmt_u32_len [of "tcpi_snd_mss t"] fmt_u32_len [of "tcpi_rcv_mss t"] fmt_u32_len [of "tcpi_lost t"]
      fmt_u32_len [of "tcpi_retrans t"] fmt_u32_len [of "tcpi_rtt t"] fmt_u32_len [of "tcpi_rttvar t"]
      fmt_u32_len [of "tcpi_snd_ssthresh t"] fmt_u32_len [of "tcpi_snd_cwnd t"] fmt_u32_len [of "tcpi_total_retrans t"]
    by (simp add: tcp_info_text_def)
  then show ?thesis
    by (simp add: conn_tcp_info_string_def get_tcp_info_string_def get_tcp_info_def snprintf_def)
qed

end
