(* ===== verification/Threads.thy ===== *)
theory Threads
  imports Cformat
begin

text \<open>
  The thread library of flute/common: CurrentThread.h and CurrentThread.cc (the cached thread id), Atomic.h, Mutex.h, Condition.h and
  Condition.cc (a mutex that knows its holder), Thread.h and Thread.cc, and the per-process and per-thread instances of
  Singleton.h, ThreadLocal.h and ThreadLocalSingleton.h. The POSIX calls are modelled as the standard describes
  them: a mutex has at most one owner, a wait on a condition releases it and owns it again when it returns, a
  condition without attributes measures its deadline on the real-time clock.
\<close>

section \<open>CurrentThread\<close>

record thread_locals =
  t_cached_tid :: int
  t_tid_string :: string
  t_tid_string_length :: int
  t_thread_name :: string

definition thread_locals_init :: thread_locals where
  "thread_locals_init = \<lparr> t_cached_tid = 0, t_tid_string = [], t_tid_string_length = 6, t_thread_name = ''unknown'' \<rparr>"

definition cache_tid :: "int \<Rightarrow> thread_locals \<Rightarrow> thread_locals" where
  "cache_tid gettid l =
     (if t_cached_tid l = 0
      then let txt = ''tid['' @ fmt_d 5 gettid @ '']''
           in l\<lparr> t_cached_tid := gettid, t_tid_string := snprintf 32 txt, t_tid_string_length := int (length txt) \<rparr>
      else l)"

definition current_tid :: "int \<Rightarrow> thread_locals \<Rightarrow> int \<times> thread_locals" where
  "current_tid gettid l = (let l = (if t_cached_tid l = 0 then cache_tid gettid l else l) in (t_cached_tid l, l))"

definition tid_string :: "int \<Rightarrow> thread_locals \<Rightarrow> string \<times> thread_locals" where
  "tid_string gettid l = (let l = (if t_cached_tid l = 0 then cache_tid gettid l else l) in (t_tid_string l, l))"

definition tid_string_length :: "int \<Rightarrow> thread_locals \<Rightarrow> int \<times> thread_locals" where
  "tid_string_length gettid l = (let l = (if t_cached_tid l = 0 then cache_tid gettid l else l) in (t_tid_string_length l, l))"

definition set_thread_name :: "string \<Rightarrow> thread_locals \<Rightarrow> thread_locals" where
  "set_thread_name name l = l\<lparr>t_thread_name := name\<rparr>"

definition is_main_thread :: "int \<Rightarrow> int \<Rightarrow> thread_locals \<Rightarrow> bool \<times> thread_locals" where
  "is_main_thread gettid getpid l = (case current_tid gettid l of (tid, l) \<Rightarrow> (tid = getpid, l))"

text \<open>The \<^verbatim>\<open>timespec\<close> of \<^verbatim>\<open>sleep_usec\<close>.\<close>

definition sleep_timespec :: "int \<Rightarrow> int \<times> int" where
  "sleep_timespec usec = (usec sdiv 1000000, usec smod 1000000 * 1000)"

section \<open>Atomic\<close>

text \<open>Each operation is one atomic step: the value returned and the new value.\<close>

definition atomic_get :: "'w::len word \<Rightarrow> 'w word" where
  "atomic_get v = v"

definition get_and_add :: "'w::len word \<Rightarrow> 'w word \<Rightarrow> 'w word \<times> 'w word" where
  "get_and_add x v = (v, v + x)"

definition add_and_get :: "'w::len word \<Rightarrow> 'w word \<Rightarrow> 'w word \<times> 'w word" where
  "add_and_get x v = (case get_and_add x v of (r, v) \<Rightarrow> (r + x, v))"

definition increment_and_get :: "'w::len word \<Rightarrow> 'w word \<times> 'w word" where
  "increment_and_get v = add_and_get 1 v"

definition decrement_and_get :: "'w::len word \<Rightarrow> 'w word \<times> 'w word" where
  "decrement_and_get v = add_and_get (- 1) v"

definition atomic_add :: "'w::len word \<Rightarrow> 'w word \<Rightarrow> 'w word" where
  "atomic_add x v = snd (get_and_add x v)"

definition get_and_set :: "'w::len word \<Rightarrow> 'w word \<Rightarrow> 'w word \<times> 'w word" where
  "get_and_set newValue v = (v, newValue)"

text \<open>Adds by any threads in any order leave the sum, and each of them sees its own value: increments hand out different
  numbers as long as they do not wrap around.\<close>

lemma atomic_adds: "fold atomic_add xs v = v + sum_list xs"
  by (induction xs arbitrary: v) (simp_all add: atomic_add_def get_and_add_def add.assoc)

fun increments :: "nat \<Rightarrow> 'w::len word \<Rightarrow> 'w word list" where
  "increments 0 v = []"
| "increments (Suc n) v = fst (increment_and_get v) # increments n (snd (increment_and_get v))"

lemma increments_map: "increments n v = map (\<lambda>i. v + of_nat (Suc i)) [0..<n]"
  by (induction n arbitrary: v)
    (simp_all add: increment_and_get_def add_and_get_def get_and_add_def upt_conv_Cons map_Suc_upt [symmetric] comp_def
      del: upt_Suc)

lemma increments_distinct:
  assumes "n \<le> 2 ^ LENGTH('w)"
  shows "distinct (increments n (v :: 'w::len word))"
proof -
  have "i = j" if "i < n" "j < n" "(of_nat (Suc i) :: 'w word) = of_nat (Suc j)" for i j
  proof -
    have "(of_nat i :: 'w word) = of_nat j" using that(3) by simp
    then show ?thesis using that(1,2) assms by (metis of_nat_inverse order_less_le_trans)
  qed
  then show ?thesis unfolding increments_map distinct_map by (auto simp: inj_on_def)
qed

section \<open>MutexLock\<close>

record mutex_lock =
  m_holder_pid :: int
  pthread_owner :: "int option"

definition MutexLock_init :: mutex_lock where
  "MutexLock_init = \<lparr> m_holder_pid = 0, pthread_owner = None \<rparr>"

definition MutexLock_destroy :: "mutex_lock \<Rightarrow> unit res" where
  "MutexLock_destroy l =
     massert (m_holder_pid l = 0) ''m_holder_pid == 0''
       (massert (pthread_owner l = None) ''pthread_mutex_destroy'' (Inr ()))"

definition is_locked_by_this_thread :: "int \<Rightarrow> mutex_lock \<Rightarrow> bool" where
  "is_locked_by_this_thread tid l \<longleftrightarrow> m_holder_pid l = tid"

definition assert_locked_by_this_thread :: "int \<Rightarrow> mutex_lock \<Rightarrow> unit res" where
  "assert_locked_by_this_thread tid l = massert (is_locked_by_this_thread tid l) ''is_locked_by_this_thread()'' (Inr ())"

definition unassign_holder_process :: "mutex_lock \<Rightarrow> mutex_lock" where
  "unassign_holder_process l = l\<lparr>m_holder_pid := 0\<rparr>"

definition assign_holder_process :: "int \<Rightarrow> mutex_lock \<Rightarrow> mutex_lock" where
  "assign_holder_process tid l = l\<lparr>m_holder_pid := tid\<rparr>"

text \<open>\<^verbatim>\<open>pthread_mutex_lock\<close> blocks while there is an owner; \<^verbatim>\<open>pthread_mutex_unlock\<close> and the first half of a wait release.\<close>

definition pthread_acquire :: "int \<Rightarrow> mutex_lock \<Rightarrow> mutex_lock option" where
  "pthread_acquire tid l = (if pthread_owner l = None then Some (l\<lparr>pthread_owner := Some tid\<rparr>) else None)"

definition pthread_release :: "mutex_lock \<Rightarrow> mutex_lock" where
  "pthread_release l = l\<lparr>pthread_owner := None\<rparr>"

text \<open>
  Threads at a mutex and its conditions. The control points are those between the statements of \<^verbatim>\<open>lock\<close>, \<^verbatim>\<open>unlock\<close> and
  \<^verbatim>\<open>Condition::wait\<close>; a sleeping thread may wake at any time, by a notification or without one.
\<close>

datatype mutex_pc =
    Outside | Lock_acquired | Inside | Unlock_unassigned
  | Wait_unassigned | Asleep | Woken | Wait_acquired

record mutex_system =
  ms_lock :: mutex_lock
  ms_pc :: "int \<Rightarrow> mutex_pc"

definition mutex_move :: "int \<Rightarrow> mutex_pc \<Rightarrow> mutex_lock \<Rightarrow> mutex_system \<Rightarrow> mutex_system" where
  "mutex_move t pc l s = \<lparr> ms_lock = l, ms_pc = (ms_pc s)(t := pc) \<rparr>"

inductive mutex_step :: "mutex_system \<Rightarrow> mutex_system \<Rightarrow> bool" where
  lock_acquire: "0 < t \<Longrightarrow> ms_pc s t = Outside \<Longrightarrow> pthread_acquire t (ms_lock s) = Some l \<Longrightarrow> mutex_step s (mutex_move t Lock_acquired l s)"
| lock_assign: "ms_pc s t = Lock_acquired \<Longrightarrow> mutex_step s (mutex_move t Inside (assign_holder_process t (ms_lock s)) s)"
| unlock_unassign: "ms_pc s t = Inside \<Longrightarrow> mutex_step s (mutex_move t Unlock_unassigned (unassign_holder_process (ms_lock s)) s)"
| unlock_release: "ms_pc s t = Unlock_unassigned \<Longrightarrow> mutex_step s (mutex_move t Outside (pthread_release (ms_lock s)) s)"
| wait_unassign: "ms_pc s t = Inside \<Longrightarrow> mutex_step s (mutex_move t Wait_unassigned (unassign_holder_process (ms_lock s)) s)"
| wait_release: "ms_pc s t = Wait_unassigned \<Longrightarrow> mutex_step s (mutex_move t Asleep (pthread_release (ms_lock s)) s)"
| wait_wake: "ms_pc s t = Asleep \<Longrightarrow> mutex_step s (mutex_move t Woken (ms_lock s) s)"
| wait_acquire: "ms_pc s t = Woken \<Longrightarrow> pthread_acquire t (ms_lock s) = Some l \<Longrightarrow> mutex_step s (mutex_move t Wait_acquired l s)"
| wait_assign: "ms_pc s t = Wait_acquired \<Longrightarrow> mutex_step s (mutex_move t Inside (assign_holder_process t (ms_lock s)) s)"

inductive_cases mutex_stepE: "mutex_step s s'"

definition mutex_system_init :: mutex_system where
  "mutex_system_init = \<lparr> ms_lock = MutexLock_init, ms_pc = (\<lambda>t. Outside) \<rparr>"

fun owning :: "mutex_pc \<Rightarrow> bool" where
  "owning Outside = False"
| "owning Asleep = False"
| "owning Woken = False"
| "owning pc = True"

definition mutex_inv :: "mutex_system \<Rightarrow> bool" where
  "mutex_inv s \<longleftrightarrow>
     (\<forall>t. owning (ms_pc s t) \<longleftrightarrow> pthread_owner (ms_lock s) = Some t) \<and>
     (\<forall>t. ms_pc s t \<noteq> Outside \<longrightarrow> 0 < t) \<and>
     m_holder_pid (ms_lock s) =
       (case pthread_owner (ms_lock s) of None \<Rightarrow> 0 | Some t \<Rightarrow> if ms_pc s t = Inside then t else 0)"

lemma mutex_move_inv:
  assumes i: "mutex_inv s" and "0 < t \<or> ms_pc s t \<noteq> Outside"
    and own: "pthread_owner l = (if owning pc then Some t else if owning (ms_pc s t) then None else pthread_owner (ms_lock s))"
    and free: "owning pc \<Longrightarrow> \<not> owning (ms_pc s t) \<Longrightarrow> pthread_owner (ms_lock s) = None"
    and hold: "m_holder_pid l = (if pc = Inside then t else if owning (ms_pc s t) \<or> owning pc then 0 else m_holder_pid (ms_lock s))"
  shows "mutex_inv (mutex_move t pc l s)"
proof -
  have o: "owning (ms_pc s u) \<longleftrightarrow> pthread_owner (ms_lock s) = Some u" for u using i by (simp add: mutex_inv_def)
  have "owning (((ms_pc s)(t := pc)) u) \<longleftrightarrow> pthread_owner l = Some u" for u
    using o [of u] o [of t] free own by (cases "u = t") auto
  moreover have "0 < u" if "((ms_pc s)(t := pc)) u \<noteq> Outside" for u
    using i assms(2) that by (cases "u = t") (auto simp: mutex_inv_def)
  moreover have "m_holder_pid l = (case pthread_owner l of None \<Rightarrow> 0 | Some u \<Rightarrow> if ((ms_pc s)(t := pc)) u = Inside then u else 0)"
  proof (cases "owning pc \<or> owning (ms_pc s t)")
    case True
    then show ?thesis using own hold by (cases "owning pc"; cases "pc = Inside") auto
  next
    case False
    then have "pthread_owner (ms_lock s) \<noteq> Some t" "pc \<noteq> Inside" using o [of t] by auto
    then show ?thesis using False own hold i by (auto simp: mutex_inv_def split: option.splits)
  qed
  ultimately show ?thesis unfolding mutex_inv_def mutex_move_def mutex_system.simps by blast
qed

lemmas lock_defs = assign_holder_process_def unassign_holder_process_def pthread_acquire_def pthread_release_def

lemma mutex_inv_owner:
  assumes "mutex_inv s"
  shows "ms_pc s t = Inside \<Longrightarrow> pthread_owner (ms_lock s) = Some t"
    and "owning (ms_pc s t) \<Longrightarrow> ms_pc s t \<noteq> Inside \<Longrightarrow> m_holder_pid (ms_lock s) = 0 \<and> pthread_owner (ms_lock s) = Some t"
    and "pthread_owner (ms_lock s) = None \<Longrightarrow> m_holder_pid (ms_lock s) = 0"
proof -
  have o: "owning (ms_pc s t) \<longleftrightarrow> pthread_owner (ms_lock s) = Some t" using assms by (simp add: mutex_inv_def)
  show "ms_pc s t = Inside \<Longrightarrow> pthread_owner (ms_lock s) = Some t" using o by simp
  show "owning (ms_pc s t) \<Longrightarrow> ms_pc s t \<noteq> Inside \<Longrightarrow> m_holder_pid (ms_lock s) = 0 \<and> pthread_owner (ms_lock s) = Some t"
    using o assms by (simp add: mutex_inv_def)
  show "pthread_owner (ms_lock s) = None \<Longrightarrow> m_holder_pid (ms_lock s) = 0" using assms by (simp add: mutex_inv_def)
qed

lemma mutex_inv_step:
  assumes i: "mutex_inv s" and "mutex_step s s'"
  shows "mutex_inv s'"
  using assms(2)
proof (cases rule: mutex_step.cases)
  case (lock_acquire t l)
  then show ?thesis using mutex_inv_owner(3) [OF i]
    by (auto intro!: mutex_move_inv [OF i] simp: lock_defs split: if_splits)
next
  case (wait_acquire t l)
  then show ?thesis using mutex_inv_owner(3) [OF i]
    by (auto intro!: mutex_move_inv [OF i] simp: lock_defs split: if_splits)
next
  case (unlock_release t)
  then show ?thesis using mutex_inv_owner(2) [OF i, of t] by (auto intro!: mutex_move_inv [OF i] simp: lock_defs)
next
  case (wait_release t)
  then show ?thesis using mutex_inv_owner(2) [OF i, of t] by (auto intro!: mutex_move_inv [OF i] simp: lock_defs)
next
  case (wait_wake t)
  then show ?thesis by (auto intro!: mutex_move_inv [OF i])
qed (use mutex_inv_owner(1,2) [OF i] in \<open>auto intro!: mutex_move_inv [OF i] simp: lock_defs\<close>)

lemma mutex_inv_init: "mutex_inv mutex_system_init"
  by (simp add: mutex_inv_def mutex_system_init_def MutexLock_init_def)

text \<open>C17: At every point of every interleaving of locks, unlocks and waits, the lock's holder is the current thread exactly
  for the thread that is inside its critical section, there is at most one such thread, and a lock that no thread uses
  passes the assertions of its destructor.\<close>

theorem mutex_holder_correct:
  assumes "mutex_step\<^sup>*\<^sup>* mutex_system_init s" and "0 < t"
  shows "(assert_locked_by_this_thread t (ms_lock s) = Inr () \<longleftrightarrow> ms_pc s t = Inside) \<and>
     (ms_pc s t = Inside \<and> ms_pc s t' = Inside \<longrightarrow> t = t') \<and>
     ((\<forall>u. ms_pc s u \<in> {Outside, Asleep, Woken}) \<longrightarrow> MutexLock_destroy (ms_lock s) = Inr ())"
proof -
  have i: "mutex_inv s" using assms(1) mutex_inv_init mutex_inv_step by (rule rtranclp_invariant)
  have holder: "m_holder_pid (ms_lock s) = t \<longleftrightarrow> ms_pc s t = Inside"
    using i assms(2) mutex_inv_owner(1) [OF i, of t] by (auto simp: mutex_inv_def split: option.splits if_splits)
  have one: "t = t'" if "ms_pc s t = Inside" "ms_pc s t' = Inside"
    using mutex_inv_owner(1) [OF i] that by (metis option.inject)
  have free: "pthread_owner (ms_lock s) = None" if "\<forall>u. ms_pc s u \<in> {Outside, Asleep, Woken}"
  proof (cases "pthread_owner (ms_lock s)")
    case (Some u)
    then have "owning (ms_pc s u)" using i by (simp add: mutex_inv_def)
    then show ?thesis using that [THEN spec, of u] by auto
  qed
  show ?thesis
    using holder one free i
    by (auto simp: assert_locked_by_this_thread_def is_locked_by_this_thread_def massert_def MutexLock_destroy_def mutex_inv_def)
qed

theorem mutex_holder_correct_witness:
  "\<exists>s. mutex_step\<^sup>*\<^sup>* mutex_system_init s \<and> ms_pc s 5 = Inside \<and> assert_locked_by_this_thread 5 (ms_lock s) = Inr ()"
proof -
  let ?s1 = "mutex_move 5 Lock_acquired (MutexLock_init\<lparr>pthread_owner := Some 5\<rparr>) mutex_system_init"
  let ?s2 = "mutex_move 5 Inside (assign_holder_process 5 (ms_lock ?s1)) ?s1"
  have "mutex_step mutex_system_init ?s1"
    by (rule lock_acquire) (simp_all add: mutex_system_init_def pthread_acquire_def MutexLock_init_def)
  moreover have "mutex_step ?s1 ?s2" by (rule lock_assign) (simp add: mutex_move_def)
  ultimately have r: "mutex_step\<^sup>*\<^sup>* mutex_system_init ?s2" by (meson r_into_rtranclp rtranclp.rtrancl_into_rtrancl)
  have "ms_pc ?s2 5 = Inside" by (simp add: mutex_move_def)
  then show ?thesis using mutex_holder_correct [OF r, of 5 5] r by auto
qed

section \<open>Condition\<close>

definition kNanoSecondsPerSecond :: int where "kNanoSecondsPerSecond = 1000000000"

text \<open>A \<^verbatim>\<open>timespec\<close> is a pair; \<open>nanoseconds\<close> is the product that \<^verbatim>\<open>wait_for_seconds\<close> converts to an integer.\<close>

definition wait_deadline :: "int \<Rightarrow> int \<times> int \<Rightarrow> int \<times> int" where
  "wait_deadline nanoseconds now =
     (fst now + (snd now + nanoseconds) sdiv kNanoSecondsPerSecond, (snd now + nanoseconds) smod kNanoSecondsPerSecond)"

definition timespec_ok :: "int \<times> int \<Rightarrow> bool" where
  "timespec_ok ts \<longleftrightarrow> 0 \<le> fst ts \<and> 0 \<le> snd ts \<and> snd ts < kNanoSecondsPerSecond"

definition timespec_nanos :: "int \<times> int \<Rightarrow> int" where
  "timespec_nanos ts = fst ts * kNanoSecondsPerSecond + snd ts"

text \<open>
  \<^verbatim>\<open>pthread_cond_timedwait\<close> on a condition without attributes: it times out at once when the deadline has passed on the
  real-time clock; otherwise the thread sleeps until it is woken or the deadline comes. The result is whether it timed
  out and whether it slept.
\<close>

definition pthread_cond_timedwait :: "int \<times> int \<Rightarrow> int \<times> int \<Rightarrow> bool \<Rightarrow> bool \<times> bool" where
  "pthread_cond_timedwait abstime realtime woken =
     (if fst abstime < fst realtime \<or> fst abstime = fst realtime \<and> snd abstime \<le> snd realtime then (True, False)
      else (\<not> woken, True))"

definition wait_for_seconds :: "int \<Rightarrow> int \<times> int \<Rightarrow> int \<times> int \<Rightarrow> bool \<Rightarrow> bool \<times> bool" where
  "wait_for_seconds nanoseconds monotonic_raw realtime woken =
     pthread_cond_timedwait (wait_deadline nanoseconds monotonic_raw) realtime woken"

lemma wait_deadline_exact:
  assumes "timespec_ok now" and "0 \<le> ns"
  shows "timespec_ok (wait_deadline ns now)" and "timespec_nanos (wait_deadline ns now) = timespec_nanos now + ns"
proof -
  have n: "0 \<le> snd now + ns" using assms by (simp add: timespec_ok_def)
  have d: "(snd now + ns) sdiv kNanoSecondsPerSecond = (snd now + ns) div kNanoSecondsPerSecond"
    "(snd now + ns) smod kNanoSecondsPerSecond = (snd now + ns) mod kNanoSecondsPerSecond"
    using n by (simp_all add: sdiv_nonneg smod_nonneg kNanoSecondsPerSecond_def)
  show "timespec_ok (wait_deadline ns now)"
    using assms(1) n unfolding wait_deadline_def d
    by (simp add: timespec_ok_def kNanoSecondsPerSecond_def pos_imp_zdiv_nonneg_iff)
  show "timespec_nanos (wait_deadline ns now) = timespec_nanos now + ns"
    unfolding timespec_nanos_def wait_deadline_def d fst_conv snd_conv
    using div_mult_mod_eq [of "snd now + ns" kNanoSecondsPerSecond] by (simp add: algebra_simps)
qed

lemma timespec_le:
  assumes "timespec_ok a" and "timespec_ok b"
  shows "fst a < fst b \<or> fst a = fst b \<and> snd a \<le> snd b \<longleftrightarrow> timespec_nanos a \<le> timespec_nanos b"
  using assms by (auto simp: timespec_ok_def timespec_nanos_def kNanoSecondsPerSecond_def)

text \<open>C40: The deadline of \<^verbatim>\<open>wait_for_seconds\<close> is the monotonic clock plus the interval, normalised, but the wait measures it
  on the real-time clock: the thread sleeps exactly when the real-time clock is behind that deadline, and wherever it is
  ahead, as on every host whose clock is set, the wait times out at once, woken or not.\<close>

theorem condition_wait_wrong_clock:
  assumes "timespec_ok monotonic" and "timespec_ok realtime" and "0 \<le> ns"
  shows "wait_for_seconds ns monotonic realtime woken =
     (if timespec_nanos monotonic + ns \<le> timespec_nanos realtime then (True, False) else (\<not> woken, True))"
  using timespec_le [OF wait_deadline_exact(1) [OF assms(1,3)] assms(2)] wait_deadline_exact(2) [OF assms(1,3)]
  by (simp add: wait_for_seconds_def pthread_cond_timedwait_def)

theorem condition_wait_wrong_clock_witness:
  "wait_for_seconds 3000000000 (86400, 500) (1700000000, 0) True = (True, False)"
  using condition_wait_wrong_clock [of "(86400, 500)" "(1700000000, 0)" 3000000000 True]
  by (simp add: timespec_ok_def timespec_nanos_def kNanoSecondsPerSecond_def)

section \<open>Thread\<close>

text \<open>
  \<^verbatim>\<open>m_basename\<close> is a pointer to characters the thread does not own: \<open>mem\<close> is what lies at an address, \<open>None\<close> where
  nothing lives. The latch's count is \<open>th_latch\<close>.
\<close>

record thread =
  th_basename :: "nat option"
  th_name :: string
  th_started :: bool
  th_joined :: bool
  th_holder_tid :: int
  th_runner_tid :: int
  th_latch :: int

type_synonym char_memory = "nat \<Rightarrow> string option"

definition update_name :: "char_memory \<Rightarrow> thread \<Rightarrow> thread res" where
  "update_name mem th =
     (let tid = (if th_started th then th_runner_tid th else th_holder_tid th)
      in rbind (case th_basename th of
                  None \<Rightarrow> Inr ''Thread''
                | Some p \<Rightarrow> (case mem p of None \<Rightarrow> Inl (Undefined ''dangling m_basename'') | Some s \<Rightarrow> Inr s)) (\<lambda>base.
         let name = snprintf 32 (base @ ''['' @ dec_int tid @ '']'')
         in Inr (th\<lparr>th_name := if th_started th then name else name @ ''[NotStarted]''\<rparr>)))"

definition Thread_init :: "char_memory \<Rightarrow> nat option \<Rightarrow> int \<Rightarrow> thread res" where
  "Thread_init mem name tid =
     update_name mem \<lparr> th_basename = name, th_name = [], th_started = False, th_joined = False, th_holder_tid = tid,
       th_runner_tid = 0, th_latch = 1 \<rparr>"

text \<open>The child up to the point where the parent is let go on, and the name it gives itself.\<close>

definition thread_run :: "char_memory \<Rightarrow> thread \<Rightarrow> (string \<times> thread) res" where
  "thread_run mem th =
     rbind (update_name mem th) (\<lambda>th.
       Inr (if th_name th = [] then ''DefaultThread'' else th_name th, th\<lparr>th_latch := th_latch th - 1\<rparr>))"

definition thread_starter :: "char_memory \<Rightarrow> int \<Rightarrow> thread \<Rightarrow> (string \<times> thread) res" where
  "thread_starter mem tid th = thread_run mem (th\<lparr>th_runner_tid := tid\<rparr>)"

text \<open>\<open>created\<close> is the outcome of \<^verbatim>\<open>pthread_create\<close>; the parent returns once the latch is at zero.\<close>

definition thread_start :: "char_memory \<Rightarrow> bool \<Rightarrow> int \<Rightarrow> thread \<Rightarrow> (string \<times> thread) res" where
  "thread_start mem created tid th =
     massert (\<not> th_started th) ''!m_started''
       (let th = th\<lparr>th_started := True\<rparr>
        in if created then thread_starter mem tid th else mfatal ''Failed in pthread_create'')"

datatype thread_states = kCreated | kNotStarted | kHasJoined | kJoinSuccessful | kJoinFailed

definition thread_join :: "bool \<Rightarrow> thread \<Rightarrow> thread_states \<times> thread" where
  "thread_join joined th =
     (if \<not> th_started th then (kNotStarted, th)
      else if th_joined th then (kHasJoined, th)
      else (if joined then kJoinSuccessful else kJoinFailed, th\<lparr>th_joined := True\<rparr>))"

text \<open>The destructor: whether the thread is detached.\<close>

definition Thread_destroy :: "thread \<Rightarrow> bool" where
  "Thread_destroy th \<longleftrightarrow> th_started th \<and> \<not> th_joined th"

lemma thread_start_ok:
  assumes "\<not> th_started th" and "th_basename th = Some p" and "mem p = Some base"
  shows "thread_start mem True tid th =
    Inr (snprintf 32 (base @ ''['' @ dec_int tid @ '']''),
         th\<lparr> th_started := True, th_runner_tid := tid, th_name := snprintf 32 (base @ ''['' @ dec_int tid @ '']''),
             th_latch := th_latch th - 1 \<rparr>)"
  using assms by (simp add: thread_start_def thread_starter_def thread_run_def update_name_def Let_def snprintf_def)

text \<open>A thread is joined once, whatever the kernel says, and detached exactly when it was never joined.\<close>

lemma thread_join_once:
  "fst (thread_join ok (snd (thread_join ok' th))) \<in> {kNotStarted, kHasJoined} \<and> \<not> Thread_destroy (snd (thread_join ok th))"
  by (simp add: thread_join_def Thread_destroy_def)

section \<open>Instances\<close>

text \<open>Singleton.h: \<^verbatim>\<open>pthread_once\<close> runs \<^verbatim>\<open>init\<close> once; the object is destroyed at exit. \<open>a\<close> is the address of a new object.\<close>

record singleton =
  ponce :: bool
  sg_value :: "nat option"
  sg_atexit :: bool

definition Singleton_static :: singleton where
  "Singleton_static = \<lparr> ponce = False, sg_value = None, sg_atexit = False \<rparr>"

definition sg_init :: "bool \<Rightarrow> nat \<Rightarrow> singleton \<Rightarrow> singleton" where
  "sg_init has_no_destroy a s = s\<lparr> sg_value := Some a, sg_atexit := sg_atexit s \<or> \<not> has_no_destroy \<rparr>"

definition sg_instance :: "bool \<Rightarrow> nat \<Rightarrow> singleton \<Rightarrow> (nat \<times> singleton) res" where
  "sg_instance has_no_destroy a s =
     (let s = (if ponce s then s else (sg_init has_no_destroy a s)\<lparr>ponce := True\<rparr>)
      in massert (sg_value s \<noteq> None) ''value_ != NULL'' (Inr (the (sg_value s), s)))"

definition sg_destroy :: "singleton \<Rightarrow> singleton" where
  "sg_destroy s = s\<lparr>sg_value := None\<rparr>"

text \<open>ThreadLocal.h: the value of each thread under a key.\<close>

definition tl_value :: "int \<Rightarrow> nat \<Rightarrow> (int \<Rightarrow> nat option) \<Rightarrow> nat \<times> (int \<Rightarrow> nat option)" where
  "tl_value tid a key = (case key tid of Some x \<Rightarrow> (x, key) | None \<Rightarrow> (a, key(tid \<mapsto> a)))"

definition tl_destructor :: "int \<Rightarrow> (int \<Rightarrow> nat option) \<Rightarrow> (int \<Rightarrow> nat option)" where
  "tl_destructor tid key = key(tid := None)"

text \<open>ThreadLocalSingleton.h: a thread-local pointer, and a key whose only use is its destructor.\<close>

record tl_singleton =
  t_instance :: "int \<Rightarrow> nat option"
  deleter_key :: "int \<Rightarrow> nat option"

definition deleter_set :: "int \<Rightarrow> nat \<Rightarrow> tl_singleton \<Rightarrow> tl_singleton res" where
  "deleter_set tid a s =
     massert (deleter_key s tid = None) ''pthread_getspecific(m_pkey) == NULL'' (Inr (s\<lparr>deleter_key := (deleter_key s)(tid \<mapsto> a)\<rparr>))"

definition tls_instance :: "int \<Rightarrow> nat \<Rightarrow> tl_singleton \<Rightarrow> (nat \<times> tl_singleton) res" where
  "tls_instance tid a s =
     (case t_instance s tid of
        Some x \<Rightarrow> Inr (x, s)
      | None \<Rightarrow> rbind (deleter_set tid a (s\<lparr>t_instance := (t_instance s)(tid \<mapsto> a)\<rparr>)) (\<lambda>s. Inr (a, s)))"

text \<open>At the thread's exit the key is cleared and the destructor called with what it held.\<close>

definition tls_destructor :: "int \<Rightarrow> nat \<Rightarrow> tl_singleton \<Rightarrow> tl_singleton res" where
  "tls_destructor tid obj s =
     massert (t_instance s tid = Some obj) ''obj == t_instance'' (Inr (s\<lparr>t_instance := (t_instance s)(tid := None)\<rparr>))"

definition tls_exit :: "int \<Rightarrow> tl_singleton \<Rightarrow> tl_singleton res" where
  "tls_exit tid s =
     (case deleter_key s tid of
        None \<Rightarrow> Inr s
      | Some obj \<Rightarrow> tls_destructor tid obj (s\<lparr>deleter_key := (deleter_key s)(tid := None)\<rparr>))"

definition tls_ok :: "tl_singleton \<Rightarrow> bool" where
  "tls_ok s \<longleftrightarrow> t_instance s = deleter_key s"

lemma tls_instance_ok:
  assumes "tls_ok s"
  shows "\<exists>s'. tls_instance tid a s = Inr (case t_instance s tid of Some x \<Rightarrow> x | None \<Rightarrow> a, s') \<and> tls_ok s' \<and>
     (\<forall>b. tls_instance tid b s' = Inr (case t_instance s tid of Some x \<Rightarrow> x | None \<Rightarrow> a, s')) \<and>
     (\<forall>t. t \<noteq> tid \<longrightarrow> t_instance s' t = t_instance s t)"
  using assms by (auto simp: tls_ok_def tls_instance_def deleter_set_def split: option.splits)

lemma tls_exit_ok: "tls_ok s \<Longrightarrow> \<exists>s'. tls_exit tid s = Inr s' \<and> tls_ok s' \<and> t_instance s' tid = None"
  by (cases "deleter_key s tid") (auto simp: tls_ok_def tls_exit_def tls_destructor_def)

end
