(* ===== verification/ReactorThread.thy ===== *)
theory ReactorThread
  imports Threads Safe_System
begin

text \<open>
  ReactorThread.h and ReactorThread.cc: a thread that runs a reactor, and the start that waits until the reactor exists. The
  thread that calls \<^verbatim>\<open>start_reactor\<close> and the new thread interleave at their sections under the mutex. A reactor is the
  address of the \<^verbatim>\<open>Reactor\<close> on the new thread's stack; its loop is the theory of the reactor, here it runs until it is
  told to quit.
\<close>

record reactor_thread =
  rt_reactor :: "nat option"
  rt_is_exiting :: bool
  rt_thread :: thread

definition ReactorThread_init :: "char_memory \<Rightarrow> nat option \<Rightarrow> int \<Rightarrow> reactor_thread res" where
  "ReactorThread_init mem name tid =
     rbind (Thread_init mem name tid) (\<lambda>th. Inr \<lparr> rt_reactor = None, rt_is_exiting = False, rt_thread = th \<rparr>)"

text \<open>The destructor: whether the loop is told to quit and the thread joined.\<close>

definition ReactorThread_destroy :: "bool \<Rightarrow> reactor_thread \<Rightarrow> bool \<times> reactor_thread" where
  "ReactorThread_destroy joined r =
     (let r = r\<lparr>rt_is_exiting := True\<rparr>
      in if rt_reactor r \<noteq> None then (True, r\<lparr>rt_thread := snd (thread_join joined (rt_thread r))\<rparr>) else (False, r))"

text \<open>\<^verbatim>\<open>start_reactor\<close> on a thread that has started returns the pointer at once.\<close>

definition start_reactor_again :: "reactor_thread \<Rightarrow> nat option option" where
  "start_reactor_again r = (if th_started (rt_thread r) then Some (rt_reactor r) else None)"

text \<open>One turn of the loop around the wait: the reactor, or \<open>None\<close> when the caller sleeps.\<close>

definition await_reactor :: "reactor_thread \<Rightarrow> nat option" where
  "await_reactor r = rt_reactor r"

definition publish_reactor :: "nat \<Rightarrow> reactor_thread \<Rightarrow> reactor_thread" where
  "publish_reactor loop r = r\<lparr>rt_reactor := Some loop\<rparr>"

definition retract_reactor :: "reactor_thread \<Rightarrow> reactor_thread" where
  "retract_reactor r = r\<lparr>rt_reactor := None\<rparr>"

section \<open>The caller and the new thread\<close>

datatype caller_pc = Before_start | At_check | Caller_asleep | Returned nat
datatype child_pc = No_child | Child_init nat | Child_loop nat | Child_gone

record rt_system =
  rs_thread :: reactor_thread
  rs_caller :: caller_pc
  rs_child :: child_pc
  rs_quit :: bool

text \<open>
  \<open>loop\<close> is the address of the new thread's reactor. The loop is told to quit through the pointer that \<^verbatim>\<open>start_reactor\<close>
  returned. The notification wakes the caller when it sleeps; it may also wake without one.
\<close>

inductive rt_step :: "char_memory \<Rightarrow> rt_system \<Rightarrow> rt_system res \<Rightarrow> bool" for mem where
  start: "rs_caller s = Before_start \<Longrightarrow>
    rt_step mem s (rbind (thread_start mem True tid (rt_thread (rs_thread s))) (\<lambda>(name, th).
      Inr (s\<lparr> rs_thread := (rs_thread s)\<lparr>rt_thread := th\<rparr>, rs_caller := At_check, rs_child := Child_init loop \<rparr>)))"
| check: "rs_caller s = At_check \<Longrightarrow>
    rt_step mem s (Inr (s\<lparr>rs_caller := case await_reactor (rs_thread s) of None \<Rightarrow> Caller_asleep | Some r \<Rightarrow> Returned r\<rparr>))"
| wake: "rs_caller s = Caller_asleep \<Longrightarrow> rt_step mem s (Inr (s\<lparr>rs_caller := At_check\<rparr>))"
| publish: "rs_child s = Child_init loop \<Longrightarrow>
    rt_step mem s (Inr (s\<lparr> rs_thread := publish_reactor loop (rs_thread s), rs_child := Child_loop loop,
      rs_caller := if rs_caller s = Caller_asleep then At_check else rs_caller s \<rparr>))"
| quit: "rs_caller s = Returned r \<Longrightarrow> rt_step mem s (Inr (s\<lparr>rs_quit := True\<rparr>))"
| finish: "rs_child s = Child_loop loop \<Longrightarrow> rs_quit s \<Longrightarrow>
    rt_step mem s (Inr (s\<lparr> rs_thread := retract_reactor (rs_thread s), rs_child := Child_gone \<rparr>))"

inductive_cases rt_stepE: "rt_step mem s r"

definition rt_system_init :: "reactor_thread \<Rightarrow> rt_system" where
  "rt_system_init r = \<lparr> rs_thread = r, rs_caller = Before_start, rs_child = No_child, rs_quit = False \<rparr>"

fun caller_of :: "child_pc \<Rightarrow> nat option \<Rightarrow> bool \<Rightarrow> caller_pc \<Rightarrow> bool" where
  "caller_of No_child r q c \<longleftrightarrow> c = Before_start \<and> r = None \<and> \<not> q"
| "caller_of (Child_init l) r q c \<longleftrightarrow> c \<in> {At_check, Caller_asleep} \<and> r = None \<and> \<not> q"
| "caller_of (Child_loop l) r q c \<longleftrightarrow> r = Some l \<and> (c = At_check \<and> \<not> q \<or> c = Returned l)"
| "caller_of Child_gone r q c \<longleftrightarrow> r = None \<and> q \<and> (\<exists>l. c = Returned l)"

definition rt_inv :: "char_memory \<Rightarrow> rt_system \<Rightarrow> bool" where
  "rt_inv mem s \<longleftrightarrow>
     caller_of (rs_child s) (rt_reactor (rs_thread s)) (rs_quit s) (rs_caller s) \<and>
     (rs_caller s = Before_start \<longrightarrow>
        \<not> th_started (rt_thread (rs_thread s)) \<and> (\<forall>p. th_basename (rt_thread (rs_thread s)) = Some p \<longrightarrow> mem p \<noteq> None))"

lemma thread_start_returns:
  assumes "\<not> th_started th" and "\<forall>p. th_basename th = Some p \<longrightarrow> mem p \<noteq> None"
  shows "\<exists>name th'. thread_start mem True tid th = Inr (name, th')"
  using assms
  by (cases "th_basename th") (auto simp: thread_start_def thread_starter_def thread_run_def update_name_def Let_def)

lemma rt_inv_step:
  assumes "rt_inv mem s" and "rt_step mem s r"
  shows "\<exists>s'. r = Inr s' \<and> rt_inv mem s'"
  using assms(2)
proof (cases rule: rt_step.cases)
  case (start tid loop)
  obtain name th where "thread_start mem True tid (rt_thread (rs_thread s)) = Inr (name, th)"
    using thread_start_returns assms(1) start(2) by (metis rt_inv_def)
  then show ?thesis using start assms(1) by (cases "rs_child s") (auto simp: rt_inv_def)
next
  case check
  then show ?thesis using assms(1) by (cases "rs_child s") (auto simp: rt_inv_def await_reactor_def)
next
  case (publish loop)
  then show ?thesis using assms(1) by (auto simp: rt_inv_def publish_reactor_def)
next
  case (finish loop)
  then show ?thesis using assms(1) by (auto simp: rt_inv_def retract_reactor_def)
next
  case wake
  then show ?thesis using assms(1) by (cases "rs_child s") (auto simp: rt_inv_def)
next
  case (quit r')
  then show ?thesis using assms(1) by (cases "rs_child s") (auto simp: rt_inv_def)
qed

interpretation starting: safe_system "rt_step mem" "rt_inv mem" for mem
  by unfold_locales (rule rt_inv_step)

text \<open>From every state the caller can still return: the new thread has only to publish its reactor.\<close>

lemma rt_returns:
  assumes "rt_inv mem s"
  shows "\<exists>s' l. ok_steps (rt_step mem) s s' \<and> rs_caller s' = Returned l"
proof -
  have loop: "\<exists>s' l. ok_steps (rt_step mem) s s' \<and> rs_caller s' = Returned l"
    if "rt_inv mem s" "rs_child s = Child_loop l" for s l
  proof (cases "rs_caller s = At_check")
    case True
    then have "rt_step mem s (Inr (s\<lparr>rs_caller := Returned l\<rparr>))"
      using check [OF True, of mem] that by (simp add: await_reactor_def rt_inv_def)
    then show ?thesis by (intro exI [of _ "s\<lparr>rs_caller := Returned l\<rparr>"]) auto
  next
    case False
    then show ?thesis using that by (intro exI [of _ s]) (auto simp: rt_inv_def)
  qed
  have init: "\<exists>s' l. ok_steps (rt_step mem) s s' \<and> rs_caller s' = Returned l"
    if i: "rt_inv mem s" "rs_child s = Child_init l" for s l
  proof -
    let ?s = "s\<lparr> rs_thread := publish_reactor l (rs_thread s), rs_child := Child_loop l,
      rs_caller := if rs_caller s = Caller_asleep then At_check else rs_caller s \<rparr>"
    have st: "rt_step mem s (Inr ?s)" by (rule publish [OF i(2)])
    then have "rt_inv mem ?s" using rt_inv_step [OF i(1)] by blast
    from loop [OF this, of l] show ?thesis using ok_steps_trans [OF ok_steps_one [where step = "rt_step mem", OF st]] by auto
  qed
  show ?thesis
  proof (cases "rs_child s")
    case No_child
    then have b: "rs_caller s = Before_start" using assms by (simp add: rt_inv_def)
    then obtain name th where th: "thread_start mem True 1 (rt_thread (rs_thread s)) = Inr (name, th)"
      using thread_start_returns [of "rt_thread (rs_thread s)" mem 1] assms by (auto simp: rt_inv_def)
    let ?s = "s\<lparr> rs_thread := (rs_thread s)\<lparr>rt_thread := th\<rparr>, rs_caller := At_check, rs_child := Child_init 0 \<rparr>"
    have st: "rt_step mem s (Inr ?s)" using start [OF b, of mem 1 0] th by simp
    then have "rt_inv mem ?s" using rt_inv_step [OF assms] by blast
    from init [OF this, of 0] show ?thesis using ok_steps_trans [OF ok_steps_one [where step = "rt_step mem", OF st]] by auto
  next
    case Child_gone
    then show ?thesis using assms by (intro exI [of _ s]) (auto simp: rt_inv_def)
  qed (use init loop assms in blast)+
qed


definition witness_thread :: reactor_thread where
  "witness_thread = \<lparr> rt_reactor = None, rt_is_exiting = False,
     rt_thread = \<lparr> th_basename = Some 0, th_name = ''io[1][NotStarted]'', th_started = False, th_joined = False, th_holder_tid = 1,
       th_runner_tid = 0, th_latch = 1 \<rparr> \<rparr>"

lemma witness_thread_init: "ReactorThread_init (\<lambda>p. Some ''io'') (Some 0) 1 = Inr witness_thread"
  by code_simp


text \<open>The thread keeps the pointer to the characters of its name, not the name: when the string it was given is gone by
  the time it is started, as with the temporary that \<^verbatim>\<open>ReactorThreadPool::start\<close> passes, the new thread reads freed memory.\<close>

theorem reactor_thread_name_dangles:
  assumes "ReactorThread_init mem (Some p) tid = Inr r" and "mem' p = None"
  shows "rt_step mem' (rt_system_init r) res \<longleftrightarrow> res = Inl (Undefined ''dangling m_basename'')"
proof -
  have th: "\<not> th_started (rt_thread r)" "th_basename (rt_thread r) = Some p"
    using assms(1) by (auto simp: ReactorThread_init_def Thread_init_def update_name_def Let_def split: option.splits)
  have f: "thread_start mem' True tid' (rt_thread r) = Inl (Undefined ''dangling m_basename'')" for tid'
    using th assms(2) by (simp add: thread_start_def thread_starter_def thread_run_def update_name_def Let_def)
  show ?thesis
  proof
    assume "rt_step mem' (rt_system_init r) res"
    then show "res = Inl (Undefined ''dangling m_basename'')"
      by (cases rule: rt_step.cases) (auto simp: rt_system_init_def f)
  next
    assume "res = Inl (Undefined ''dangling m_basename'')"
    then show "rt_step mem' (rt_system_init r) res"
      using start [of "rt_system_init r" mem' 1 1] by (simp add: rt_system_init_def f)
  qed
qed

theorem reactor_thread_name_dangles_witness:
  "rt_step (\<lambda>p. None) (rt_system_init witness_thread) (Inl (Undefined ''dangling m_basename''))"
  using reactor_thread_name_dangles [OF witness_thread_init, of "\<lambda>p. None"] by simp

end
