(* ===== verification/LogFile.thy ===== *)
theory LogFile
  imports Timestamp
begin

text \<open>
  FileUtil.h, FileUtil.cc, LogFile.h and LogFile.cc: reading a small file, appending to a file through stdio, and a log
  file that rolls over by size and by day. What the C library and the kernel return is an argument: how many bytes a
  call of \<^verbatim>\<open>fwrite_unlocked\<close> or \<^verbatim>\<open>read\<close> takes, whether \<^verbatim>\<open>fopen\<close> succeeds, the time at each call of \<^verbatim>\<open>time\<close>. A stream
  is the sequence of bytes it has accepted and how many of them have been flushed.
\<close>

section \<open>The environment\<close>

record file_system =
  fs_fwrite :: "nat \<Rightarrow> nat \<Rightarrow> nat"      \<comment> \<open>call number and size to the count returned, cut off at the size\<close>
  fs_ferror :: "nat \<Rightarrow> int"
  fs_strerror :: "int \<Rightarrow> string"
  fs_fopen :: "string \<Rightarrow> bool"
  fs_gmtime :: "int \<Rightarrow> tm"
  fs_hostname :: "string option"          \<comment> \<open>\<open>None\<close> when \<^verbatim>\<open>gethostname\<close> fails\<close>
  fs_pid :: int

section \<open>AppendFile\<close>

record append_file =
  af_name :: string
  af_data :: "char list"
  af_flushed :: nat
  af_calls :: nat
  m_written_bytes :: int

definition AppendFile_init :: "string \<Rightarrow> bool \<Rightarrow> append_file res" where
  "AppendFile_init filename opened =
     massert opened ''m_fp''
       (Inr \<lparr> af_name = filename, af_data = [], af_flushed = 0, af_calls = 0, m_written_bytes = 0 \<rparr>)"

definition af_flush :: "append_file \<Rightarrow> append_file" where
  "af_flush f = f\<lparr>af_flushed := length (af_data f)\<rparr>"

text \<open>The destructor: \<^verbatim>\<open>fclose\<close> flushes what the stream holds.\<close>

definition AppendFile_destroy :: "append_file \<Rightarrow> append_file" where
  "AppendFile_destroy f = f\<lparr>af_flushed := length (af_data f)\<rparr>"

definition af_write :: "file_system \<Rightarrow> char list \<Rightarrow> append_file \<Rightarrow> nat \<times> append_file" where
  "af_write E logline f =
     (let n = min (fs_fwrite E (af_calls f) (length logline)) (length logline)
      in (n, f\<lparr> af_data := af_data f @ take n logline, af_calls := Suc (af_calls f) \<rparr>))"

text \<open>The loop of \<^verbatim>\<open>append\<close> over what is left, and what it prints to the standard error.\<close>

function append_rest :: "file_system \<Rightarrow> char list \<Rightarrow> append_file \<Rightarrow> append_file \<times> string list" where
  "append_rest E rest f =
     (if rest = [] then (f, [])
      else case af_write E rest f of (x, f') \<Rightarrow>
        if x = 0
        then (f', let err = fs_ferror E (af_calls f')
                  in if err \<noteq> 0 then [''AppendFile::append() failed '' @ fs_strerror E err @ [CHR 0x0A]] else [])
        else append_rest E (drop x rest) f')"
  by pat_completeness auto

termination
  by (relation "measure (\<lambda>(E, rest, f). length rest)") auto

declare append_rest.simps [simp del]

definition af_append :: "file_system \<Rightarrow> char list \<Rightarrow> append_file \<Rightarrow> append_file \<times> string list" where
  "af_append E logline f =
     (case af_write E logline f of (n, f) \<Rightarrow>
      case append_rest E (drop n logline) f of (f, msgs) \<Rightarrow>
        (f\<lparr>m_written_bytes := m_written_bytes f + int (length logline)\<rparr>, msgs))"

section \<open>ReadSmallFile\<close>

text \<open>
  \<open>fd\<close> is the descriptor, or the error of \<^verbatim>\<open>open\<close>. \<open>rd\<close> gives the result of a \<^verbatim>\<open>read\<close> of so many bytes at an offset, cut
  off at the size asked for and at the end of the file, and \<open>rd_errno\<close> its error.
\<close>

definition kBufferSize :: nat where "kBufferSize = 64 * 1024"
definition EISDIR :: int where "EISDIR = 21"

record small_file =
  sf_fd :: int
  sf_err :: int
  sf_bytes :: "char list"

definition ReadSmallFile_init :: "int \<Rightarrow> int \<Rightarrow> char list \<Rightarrow> small_file" where
  "ReadSmallFile_init fd errno bytes = \<lparr> sf_fd = fd, sf_err = (if fd < 0 then errno else 0), sf_bytes = bytes \<rparr>"

definition sf_read :: "(nat \<Rightarrow> nat \<Rightarrow> int) \<Rightarrow> nat \<Rightarrow> nat \<Rightarrow> small_file \<Rightarrow> int \<times> char list" where
  "sf_read rd off n f =
     (let bytes = take (min (nat (rd off n)) n) (drop off (sf_bytes f))
      in (if rd off n < 0 then rd off n else int (length bytes), bytes))"

lemma sf_read_positive: "(n, buf) = sf_read rd off k f \<Longrightarrow> 0 < n \<Longrightarrow> c < m \<Longrightarrow> m - (c + length buf) < m - c"
  by (cases "length buf") (simp_all add: sf_read_def Let_def split: if_splits)

function read_chunks ::
    "(nat \<Rightarrow> nat \<Rightarrow> int) \<Rightarrow> (nat \<Rightarrow> int) \<Rightarrow> nat \<Rightarrow> small_file \<Rightarrow> int \<Rightarrow> char list \<Rightarrow> int \<times> char list" where
  "read_chunks rd rd_errno maxSize f err content =
     (if length content < maxSize
      then let toRead = min (maxSize - length content) kBufferSize
           in case sf_read rd (length content) toRead f of (n, buf) \<Rightarrow>
                if n > 0 then read_chunks rd rd_errno maxSize f err (content @ buf)
                else (if n < 0 then rd_errno (length content) else err, content)
      else (err, content))"
  by pat_completeness auto

termination
  by (relation "measure (\<lambda>(rd, e, m, f, err, content). m - length content)")
    (auto dest: sf_read_positive)

declare read_chunks.simps [simp del]

datatype file_kind = Regular | Directory | Other_kind

record file_stat =
  st_kind :: file_kind
  st_size :: int
  st_mtime :: int
  st_ctime :: int

record read_result =
  rr_err :: int
  rr_content :: "char list"
  rr_size :: "int option"
  rr_mtime :: "int option"
  rr_ctime :: "int option"

text \<open>
  Which of the three result pointers are not null is \<open>want\<close>; \<open>st\<close> is the outcome of \<^verbatim>\<open>fstat\<close>. The size is an \<^verbatim>\<open>int\<close> that is
  compared as a \<^verbatim>\<open>size_t\<close>.
\<close>

definition read_to_string ::
    "(nat \<Rightarrow> nat \<Rightarrow> int) \<Rightarrow> (nat \<Rightarrow> int) \<Rightarrow> int + file_stat \<Rightarrow> bool \<times> bool \<times> bool \<Rightarrow> int \<Rightarrow> char list \<Rightarrow> small_file \<Rightarrow> read_result" where
  "read_to_string rd rd_errno st want maxSize content f =
     (case want of (want_size, want_mtime, want_ctime) \<Rightarrow>
      let r = \<lparr> rr_err = sf_err f, rr_content = content, rr_size = None, rr_mtime = None, rr_ctime = None \<rparr>
      in if sf_fd f \<ge> 0
         then let r = (if want_size
                       then case st of
                              Inl errno \<Rightarrow> r\<lparr>rr_err := errno\<rparr>
                            | Inr s \<Rightarrow> r\<lparr> rr_err := (if st_kind s = Directory then EISDIR else rr_err r),
                                         rr_size := (if st_kind s = Regular then Some (st_size s) else None),
                                         rr_mtime := (if want_mtime then Some (st_mtime s) else None),
                                         rr_ctime := (if want_ctime then Some (st_ctime s) else None) \<rparr>
                       else r)
              in case read_chunks rd rd_errno (nat (maxSize mod 2 ^ 64)) f (rr_err r) [] of (err, content) \<Rightarrow>
                   r\<lparr> rr_err := err, rr_content := content \<rparr>
         else r)"

definition read_file ::
    "int \<Rightarrow> int \<Rightarrow> char list \<Rightarrow> (nat \<Rightarrow> nat \<Rightarrow> int) \<Rightarrow> (nat \<Rightarrow> int) \<Rightarrow> int + file_stat \<Rightarrow> bool \<times> bool \<times> bool \<Rightarrow> int \<Rightarrow> char list \<Rightarrow> read_result" where
  "read_file fd errno bytes rd rd_errno st want maxSize content =
     read_to_string rd rd_errno st want maxSize content (ReadSmallFile_init fd errno bytes)"

text \<open>\<^verbatim>\<open>read_to_buffer\<close>: the error, the size and the characters before the terminating null.\<close>

definition read_to_buffer :: "int \<Rightarrow> int \<Rightarrow> small_file \<Rightarrow> int \<times> int option \<times> char list" where
  "read_to_buffer n errno f =
     (if sf_fd f \<ge> 0
      then if n \<ge> 0
           then let bytes = take (min (nat n) (kBufferSize - 1)) (sf_bytes f) in (sf_err f, Some (int (length bytes)), bytes)
           else (errno, None, [])
      else (sf_err f, None, []))"

section \<open>LogFile\<close>

record log_file =
  m_basename :: string
  m_rollsize :: int
  m_flush_interval :: int
  m_check_every_n_appends :: int
  m_count :: int
  m_start_time :: int
  m_last_roll :: int
  m_last_flush :: int
  m_file :: "append_file option"
  lf_closed :: "append_file list"     \<comment> \<open>the files written before, closed\<close>
  lf_stderr :: "string list"

definition kRollPerSeconds :: int where "kRollPerSeconds = 60 * 60 * 24"

text \<open>\<^verbatim>\<open>ProcessInfo::hostname\<close>, and the \<^verbatim>\<open>strftime\<close> format \<^verbatim>\<open>.%Y%m%d-%H%M%S.\<close>.\<close>

definition hostname :: "string option \<Rightarrow> string" where
  "hostname h = (case h of Some s \<Rightarrow> take 255 s | None \<Rightarrow> ''unknownhost'')"

definition log_time_text :: "tm \<Rightarrow> string" where
  "log_time_text t =
     ''.'' @ dec_int (tm_year t + 1900) @ fmt_0d 2 (tm_mon t + 1) @ fmt_0d 2 (tm_mday t) @ ''-'' @
     fmt_0d 2 (tm_hour t) @ fmt_0d 2 (tm_min t) @ fmt_0d 2 (tm_sec t) @ ''.''"

definition get_log_file_name :: "file_system \<Rightarrow> string \<Rightarrow> int \<Rightarrow> string" where
  "get_log_file_name E basename now =
     basename @ log_time_text (fs_gmtime E now) @ hostname (fs_hostname E) @ snprintf 32 (''.'' @ dec_int (fs_pid E)) @ ''.log''"

definition roll_file :: "file_system \<Rightarrow> int \<Rightarrow> log_file \<Rightarrow> (bool \<times> log_file) res" where
  "roll_file E now lf =
     (let filename = get_log_file_name E (m_basename lf) now;
          start = now sdiv kRollPerSeconds * kRollPerSeconds
      in if now > m_last_roll lf
         then rbind (AppendFile_init filename (fs_fopen E filename)) (\<lambda>f.
              Inr (True, lf\<lparr> m_last_roll := now, m_last_flush := now, m_start_time := start, m_file := Some f,
                             lf_closed := lf_closed lf @ (case m_file lf of None \<Rightarrow> [] | Some g \<Rightarrow> [AppendFile_destroy g]) \<rparr>))
         else Inr (False, lf))"

definition LogFile_init :: "file_system \<Rightarrow> string \<Rightarrow> int \<Rightarrow> int \<Rightarrow> int \<Rightarrow> int \<Rightarrow> log_file res" where
  "LogFile_init E basename rollSize flushInterval checkEveryN now =
     massert (CHR ''/'' \<notin> set basename) ''basename.find('/') == string::npos''
       (rbind (roll_file E now
                \<lparr> m_basename = basename, m_rollsize = rollSize, m_flush_interval = flushInterval,
                  m_check_every_n_appends = checkEveryN, m_count = 0, m_start_time = 0, m_last_roll = 0,
                  m_last_flush = 0, m_file = None, lf_closed = [], lf_stderr = [] \<rparr>)
          (\<lambda>(rolled, lf). Inr lf))"

text \<open>\<open>now\<close> is the time that \<^verbatim>\<open>append_unlocked\<close> reads itself, \<open>now'\<close> the one that \<^verbatim>\<open>roll_file\<close> reads.\<close>

definition append_unlocked :: "file_system \<Rightarrow> int \<Rightarrow> int \<Rightarrow> char list \<Rightarrow> log_file \<Rightarrow> log_file res" where
  "append_unlocked E now now' logline lf =
     (case m_file lf of
        None \<Rightarrow> Inl (Undefined ''null m_file'')
      | Some f \<Rightarrow>
          case af_append E logline f of (f, msgs) \<Rightarrow>
          let lf = lf\<lparr> m_file := Some f, lf_stderr := lf_stderr lf @ msgs \<rparr>
          in if m_written_bytes f > m_rollsize lf then rbind (roll_file E now' lf) (\<lambda>(rolled, lf). Inr lf)
             else let lf = lf\<lparr>m_count := m_count lf + 1\<rparr>
             in if m_count lf \<ge> m_check_every_n_appends lf
                then let lf = lf\<lparr>m_count := 0\<rparr>; cur_period = now sdiv kRollPerSeconds * kRollPerSeconds
                     in if cur_period \<noteq> m_start_time lf then rbind (roll_file E now' lf) (\<lambda>(rolled, lf). Inr lf)
                        else if now - m_last_flush lf > m_flush_interval lf
                        then Inr (lf\<lparr> m_last_flush := now, m_file := Some (af_flush f) \<rparr>)
                        else Inr lf
                else Inr lf)"

text \<open>With and without the mutex the body is the same.\<close>

definition lf_append :: "file_system \<Rightarrow> int \<Rightarrow> int \<Rightarrow> char list \<Rightarrow> log_file \<Rightarrow> log_file res" where
  "lf_append E now now' logline lf = append_unlocked E now now' logline lf"

definition lf_flush :: "log_file \<Rightarrow> log_file res" where
  "lf_flush lf =
     (case m_file lf of None \<Rightarrow> Inl (Undefined ''null m_file'') | Some f \<Rightarrow> Inr (lf\<lparr>m_file := Some (af_flush f)\<rparr>))"

text \<open>A user of a log file: lines appended, with the times read on the way, and flushes.\<close>

datatype log_op = Log_append "char list" int int | Log_flush | Log_roll int

fun log_op_run :: "file_system \<Rightarrow> log_op \<Rightarrow> log_file \<Rightarrow> log_file res" where
  "log_op_run E (Log_append line now now') lf = lf_append E now now' line lf"
| "log_op_run E Log_flush lf = lf_flush lf"
| "log_op_run E (Log_roll now) lf = rbind (roll_file E now lf) (\<lambda>(rolled, lf). Inr lf)"

fun log_ops_run :: "file_system \<Rightarrow> log_op list \<Rightarrow> log_file \<Rightarrow> log_file res" where
  "log_ops_run E [] lf = Inr lf"
| "log_ops_run E (x # xs) lf = rbind (log_op_run E x lf) (log_ops_run E xs)"

fun op_lines :: "log_op list \<Rightarrow> char list list" where
  "op_lines [] = []"
| "op_lines (Log_append line now now' # xs) = line # op_lines xs"
| "op_lines (x # xs) = op_lines xs"

section \<open>Streams\<close>

text \<open>Every call of \<^verbatim>\<open>fwrite\<close> takes at least one byte and every file can be opened.\<close>

definition fs_ok :: "file_system \<Rightarrow> bool" where
  "fs_ok E \<longleftrightarrow> (\<forall>k n. 0 < n \<longrightarrow> 0 < fs_fwrite E k n) \<and> (\<forall>name. fs_fopen E name)"

lemma append_rest_keeps:
  "append_rest E rest f = (f', msgs) \<Longrightarrow>
   af_name f' = af_name f \<and> af_flushed f' = af_flushed f \<and> m_written_bytes f' = m_written_bytes f \<and>
   (\<exists>k. af_data f' = af_data f @ take k rest) \<and> (fs_ok E \<longrightarrow> af_data f' = af_data f @ rest \<and> msgs = [])"
proof (induction E rest f arbitrary: f' msgs rule: append_rest.induct)
  case (1 E rest f)
  obtain x f1 where w: "af_write E rest f = (x, f1)" by (cases "af_write E rest f")
  have f1: "f1 = f\<lparr> af_data := af_data f @ take x rest, af_calls := Suc (af_calls f) \<rparr>"
    using w by (auto simp: af_write_def Let_def)
  consider "rest = []" | "rest \<noteq> []" "x = 0" | "rest \<noteq> []" "x \<noteq> 0" by blast
  then show ?case
  proof cases
    case 1
    then show ?thesis using "1.prems" by (simp add: append_rest.simps)
  next
    case 2
    then have "f' = f1" using "1.prems" w by (simp add: append_rest.simps)
    moreover have "\<not> fs_ok E" using 2 w by (auto simp: af_write_def fs_ok_def min_def Let_def split: if_splits)
    ultimately show ?thesis using f1 2 by (auto intro: exI [of _ 0])
  next
    case 3
    then have r: "append_rest E (drop x rest) f1 = (f', msgs)"
      using "1.prems" w by (simp add: append_rest.simps [of E rest f])
    note ih = "1.IH" [OF 3(1) w [symmetric] 3(2) r]
    obtain k where "af_data f' = af_data f1 @ take k (drop x rest)" using ih by blast
    then have "af_data f' = af_data f @ take (x + k) rest" using f1 by (simp add: take_add)
    then show ?thesis using ih f1 by auto
  qed
qed

text \<open>What an append leaves in the stream: a prefix of the line, all of it when the stream takes bytes.\<close>

lemma af_append_spec:
  assumes "af_append E logline f = (f', msgs)"
  shows "af_name f' = af_name f" and "af_flushed f' = af_flushed f"
    and "m_written_bytes f' = m_written_bytes f + int (length logline)"
    and "\<exists>k. af_data f' = af_data f @ take k logline"
    and "fs_ok E \<Longrightarrow> af_data f' = af_data f @ logline \<and> msgs = []"
proof -
  obtain n f1 where w: "af_write E logline f = (n, f1)" by (cases "af_write E logline f")
  obtain f2 ms where r: "append_rest E (drop n logline) f1 = (f2, ms)" by (cases "append_rest E (drop n logline) f1")
  have f': "f' = f2\<lparr>m_written_bytes := m_written_bytes f2 + int (length logline)\<rparr>" "msgs = ms"
    using assms w r by (auto simp: af_append_def)
  have f1: "f1 = f\<lparr> af_data := af_data f @ take n logline, af_calls := Suc (af_calls f) \<rparr>"
    using w by (auto simp: af_write_def Let_def)
  note k = append_rest_keeps [OF r]
  show "af_name f' = af_name f" "af_flushed f' = af_flushed f"
    "m_written_bytes f' = m_written_bytes f + int (length logline)"
    "fs_ok E \<Longrightarrow> af_data f' = af_data f @ logline \<and> msgs = []"
    using k f' f1 by auto
  obtain j where "af_data f2 = af_data f1 @ take j (drop n logline)" using k by blast
  then show "\<exists>k. af_data f' = af_data f @ take k logline"
    using f' f1 by (auto intro: exI [of _ "n + j"] simp: take_add)
qed

lemma sf_read_result:
  assumes "sf_read rd off k f = (n, buf)" and "0 \<le> rd off k"
  shows "buf = take (min (nat (rd off k)) k) (drop off (sf_bytes f))" and "n = int (length buf)"
  using assms by (auto simp: sf_read_def Let_def)

lemma read_chunks_spec:
  assumes "\<forall>off n. 0 \<le> rd off n \<and> (0 < n \<longrightarrow> off < length (sf_bytes f) \<longrightarrow> 0 < rd off n)"
    and "content = take (length content) (sf_bytes f)" and "length content \<le> maxSize"
  shows "read_chunks rd e maxSize f err content = (err, take maxSize (sf_bytes f))"
  using assms(2,3)
proof (induction "maxSize - length content" arbitrary: content rule: less_induct)
  case less
  let ?n = "min (maxSize - length content) kBufferSize"
  obtain n buf where rd: "sf_read rd (length content) ?n f = (n, buf)" by (cases "sf_read rd (length content) ?n f")
  have le: "length content \<le> length (sf_bytes f)" using less.prems(1) by (metis length_take min.cobounded1)
  show ?case
  proof (cases "length content < maxSize")
    case False
    then have c: "content = take maxSize (sf_bytes f)" using less.prems by (metis le_antisym not_less)
    have "read_chunks rd e maxSize f err content = (err, content)" using False by (subst read_chunks.simps) simp
    also have "\<dots> = (err, take maxSize (sf_bytes f))" by (rule arg_cong [OF c])
    finally show ?thesis .
  next
    case True
    have "0 \<le> rd (length content) ?n" using assms(1) [rule_format] by (rule conjunct1)
    note buf = sf_read_result [OF rd this]
    show ?thesis
    proof (cases "length content < length (sf_bytes f)")
      case False
      then have len: "length content = length (sf_bytes f)" using le by simp
      have c: "take maxSize (sf_bytes f) = content" using less.prems(1) len True by (metis le_eq_less_or_eq take_all)
      have "n = 0" using buf len by simp
      then have "read_chunks rd e maxSize f err content = (err, content)"
        using rd True by (subst read_chunks.simps) (simp add: Let_def)
      also have "\<dots> = (err, take maxSize (sf_bytes f))" by (rule arg_cong [OF c [symmetric]])
      finally show ?thesis .
    next
      case more: True
      have "0 < ?n" using True by (simp add: kBufferSize_def)
      then have "0 < rd (length content) ?n" using assms(1) more by blast
      then have b: "0 < length buf" "length buf \<le> maxSize - length content"
        unfolding buf(1) using more \<open>0 < ?n\<close> by (simp_all add: min.coboundedI2)
      have c: "content @ buf = take (length (content @ buf)) (sf_bytes f)"
      proof -
        have "buf = take (length buf) (drop (length content) (sf_bytes f))" using buf(1) by (metis length_take take_take min.idem take_all_iff linorder_le_cases min.absorb1)
        then show ?thesis using less.prems(1) by (metis length_append take_add)
      qed
      have "read_chunks rd e maxSize f err content = read_chunks rd e maxSize f err (content @ buf)"
        using rd True b buf(2) by (subst read_chunks.simps) (simp add: Let_def)
      then show ?thesis using less.hyps [OF _ c] b by simp
    qed
  qed
qed

text \<open>Reading a small file returns the first \<^verbatim>\<open>maxSize\<close> bytes of it without an error, however the kernel cuts the
  reads up; when the file cannot be opened the error is returned and the string of the caller is untouched.\<close>

theorem read_file_correct:
  assumes "\<forall>off n. 0 \<le> rd off n \<and> (0 < n \<longrightarrow> off < length bytes \<longrightarrow> 0 < rd off n)"
    and "0 \<le> maxSize" and "maxSize < 2147483648" and "st_kind s \<noteq> Directory"
  shows "(0 \<le> fd \<longrightarrow>
           rr_err (read_file fd errno bytes rd e (Inr s) want maxSize content) = 0 \<and>
           rr_content (read_file fd errno bytes rd e (Inr s) want maxSize content) = take (nat maxSize) bytes) \<and>
         (fd < 0 \<longrightarrow>
           rr_err (read_file fd errno bytes rd e (Inr s) want maxSize content) = errno \<and>
           rr_content (read_file fd errno bytes rd e (Inr s) want maxSize content) = content)"
proof -
  have "maxSize mod 2 ^ 64 = maxSize" using assms(2,3) by simp
  moreover have "read_chunks rd e (nat maxSize) f err [] = (err, take (nat maxSize) bytes)" if "sf_bytes f = bytes" for f err
    using read_chunks_spec [of rd f "[]"] assms(1) that by simp
  ultimately show ?thesis
    using assms(4) by (cases want) (simp add: read_file_def read_to_string_def ReadSmallFile_init_def Let_def)
qed

theorem read_file_correct_witness:
  "rr_content (read_file 3 0 ''flute'' (\<lambda>off n. if off < 5 then 2 else 0) (\<lambda>off. 0)
     (Inr \<lparr> st_kind = Regular, st_size = 5, st_mtime = 1, st_ctime = 1 \<rparr>) (True, False, False) 4 ''old'') = ''flut''"
  using read_file_correct [of "\<lambda>off n. if off < 5 then 2 else 0" "''flute''" 4
      "\<lparr> st_kind = Regular, st_size = 5, st_mtime = 1, st_ctime = 1 \<rparr>" 3 0 "\<lambda>off. 0" "(True, False, False)" "''old''"]
  by simp

section \<open>The files of a log\<close>

definition log_files :: "log_file \<Rightarrow> append_file list" where
  "log_files lf = lf_closed lf @ (case m_file lf of None \<Rightarrow> [] | Some f \<Rightarrow> [f])"

definition day_of :: "int \<Rightarrow> int" where
  "day_of t = t sdiv kRollPerSeconds * kRollPerSeconds"

text \<open>
  The files, in the order they were opened: \<open>ts\<close> are the seconds in which they were, \<open>mss\<close> the lines each of them holds.
\<close>

definition lf_inv :: "file_system \<Rightarrow> string \<Rightarrow> char list list \<Rightarrow> log_file \<Rightarrow> bool" where
  "lf_inv E base lines lf \<longleftrightarrow>
     (\<exists>f ts mss. m_file lf = Some f \<and> m_basename lf = base \<and> m_written_bytes f = int (length (af_data f)) \<and>
        m_start_time lf = day_of (m_last_roll lf) \<and> lf_stderr lf = [] \<and>
        ts \<noteq> [] \<and> sorted_wrt (<) ts \<and> last ts = m_last_roll lf \<and>
        map af_name (log_files lf) = map (get_log_file_name E base) ts \<and>
        map af_data (log_files lf) = map concat mss \<and> concat mss = lines \<and>
        list_all (\<lambda>g. af_flushed g = length (af_data g)) (lf_closed lf))"

lemma lf_invE:
  assumes "lf_inv E base lines lf"
  obtains f ts mss where "m_file lf = Some f" "m_basename lf = base" "m_written_bytes f = int (length (af_data f))"
    "m_start_time lf = day_of (m_last_roll lf)" "lf_stderr lf = []" "ts \<noteq> []" "sorted_wrt (<) ts" "last ts = m_last_roll lf"
    "map af_name (log_files lf) = map (get_log_file_name E base) ts" "map af_data (log_files lf) = map concat mss"
    "concat mss = lines" "list_all (\<lambda>g. af_flushed g = length (af_data g)) (lf_closed lf)"
  using assms by (auto simp: lf_inv_def)

lemma lf_inv_count [simp]: "lf_inv E base lines (lf\<lparr>m_count := n\<rparr>) = lf_inv E base lines lf"
  by (simp add: lf_inv_def log_files_def)

lemma lf_inv_flushed:
  assumes "lf_inv E base lines lf" and "m_file lf = Some f"
  shows "lf_inv E base lines (lf\<lparr> m_last_flush := t, m_file := Some (af_flush f) \<rparr>)"
    and "lf_inv E base lines (lf\<lparr>m_file := Some (af_flush f)\<rparr>)"
  using assms by (auto simp: lf_inv_def log_files_def af_flush_def)

lemma roll_file_inv:
  assumes "lf_inv E base lines lf" and "fs_ok E"
  shows "\<exists>rolled lf'. roll_file E now lf = Inr (rolled, lf') \<and> lf_inv E base lines lf' \<and>
     (if m_last_roll lf < now
      then m_last_flush lf' = now \<and> m_start_time lf' = day_of now \<and> (\<exists>g. m_file lf' = Some g \<and> m_written_bytes g = 0)
      else lf' = lf)"
proof (cases "m_last_roll lf < now")
  case False
  then show ?thesis using assms by (intro exI [of _ False] exI [of _ lf]) (simp add: roll_file_def)
next
  case True
  from assms(1) obtain f ts mss where i: "m_file lf = Some f" "m_basename lf = base" "lf_stderr lf = []" "ts \<noteq> []"
    "sorted_wrt (<) ts" "last ts = m_last_roll lf" "map af_name (log_files lf) = map (get_log_file_name E base) ts"
    "map af_data (log_files lf) = map concat mss" "concat mss = lines"
    "list_all (\<lambda>g. af_flushed g = length (af_data g)) (lf_closed lf)"
    by (rule lf_invE)
  define g where "g = \<lparr> af_name = get_log_file_name E base now, af_data = [], af_flushed = 0, af_calls = 0, m_written_bytes = 0 \<rparr>"
  define lf' where "lf' = lf\<lparr> m_last_roll := now, m_last_flush := now, m_start_time := day_of now, m_file := Some g,
     lf_closed := lf_closed lf @ [AppendFile_destroy f] \<rparr>"
  have r: "roll_file E now lf = Inr (True, lf')"
    using True assms(2) i(1,2) by (simp add: roll_file_def AppendFile_init_def fs_ok_def lf'_def g_def day_of_def Let_def)
  have "map af_name (log_files lf') = map (get_log_file_name E base) (ts @ [now])"
    "map af_data (log_files lf') = map concat (mss @ [[]])"
    using i(1,7,8) by (simp_all add: lf'_def log_files_def AppendFile_destroy_def g_def)
  moreover have "sorted_wrt (<) (ts @ [now])"
  proof -
    have "t \<le> last ts" if "t \<in> set ts" for t
      using i(4,5) that by (induction ts) (auto split: if_splits, metis last_in_set less_imp_le)
    then show ?thesis using i(5,6) True by (fastforce simp: sorted_wrt_append)
  qed
  moreover have "list_all (\<lambda>g. af_flushed g = length (af_data g)) (lf_closed lf')"
    using i(10) by (simp add: lf'_def AppendFile_destroy_def)
  moreover have "concat (mss @ [[]]) = lines" using i(9) by simp
  ultimately have "lf_inv E base lines lf'"
    unfolding lf_inv_def using i(2,3)
    by (intro exI [of _ g] exI [of _ "ts @ [now]"] exI [of _ "mss @ [[]]"]) (simp add: lf'_def g_def)
  then show ?thesis using r True by (intro exI [of _ True] exI [of _ lf']) (simp add: lf'_def g_def)
qed

lemma stored_line_inv:
  assumes "lf_inv E base lines lf" and "fs_ok E" and "m_file lf = Some f" and "af_append E line f = (g, msgs)"
  shows "lf_inv E base (lines @ [line]) (lf\<lparr> m_file := Some g, lf_stderr := lf_stderr lf @ msgs \<rparr>)"
proof -
  from assms(1) obtain f' ts mss where i: "m_file lf = Some f'" "m_basename lf = base"
    "m_written_bytes f' = int (length (af_data f'))" "m_start_time lf = day_of (m_last_roll lf)" "lf_stderr lf = []" "ts \<noteq> []"
    "sorted_wrt (<) ts" "last ts = m_last_roll lf" "map af_name (log_files lf) = map (get_log_file_name E base) ts"
    "map af_data (log_files lf) = map concat mss" "concat mss = lines"
    "list_all (\<lambda>g. af_flushed g = length (af_data g)) (lf_closed lf)"
    by (rule lf_invE)
  have f: "f' = f" using i(1) assms(3) by simp
  note g = af_append_spec(1,3) [OF assms(4)] af_append_spec(5) [OF assms(4,2)]
  have "mss \<noteq> []" using i(1,10) by (auto simp: log_files_def)
  then obtain ms m where ms: "mss = ms @ [m]" by (metis rev_exhaust)
  have d: "map af_data (lf_closed lf) = map concat ms" "af_data f = concat m"
    using i(1,10) f by (simp_all add: log_files_def ms)
  let ?lf = "lf\<lparr> m_file := Some g, lf_stderr := lf_stderr lf @ msgs \<rparr>"
  have "map af_name (log_files ?lf) = map (get_log_file_name E base) ts"
    using i(1,9) f g by (simp add: log_files_def)
  moreover have "map af_data (log_files ?lf) = map concat (ms @ [m @ [line]])"
    using d g by (simp add: log_files_def)
  moreover have "concat (ms @ [m @ [line]]) = lines @ [line]" using i(11) by (simp add: ms)
  ultimately show ?thesis
    unfolding lf_inv_def using i(2-8,12) f g
    by (intro exI [of _ g] exI [of _ ts] exI [of _ "ms @ [m @ [line]]"]) simp
qed

lemma append_unlocked_inv:
  assumes "lf_inv E base lines lf" and "fs_ok E"
  shows "\<exists>lf'. append_unlocked E now now' line lf = Inr lf' \<and> lf_inv E base (lines @ [line]) lf'"
proof -
  obtain f where f: "m_file lf = Some f" using assms(1) by (rule lf_invE)
  obtain g msgs where g: "af_append E line f = (g, msgs)" by (cases "af_append E line f")
  let ?lf = "lf\<lparr> m_file := Some g, lf_stderr := lf_stderr lf @ msgs \<rparr>"
  note st = stored_line_inv [OF assms f g]
  have roll: "\<exists>rolled lf'. roll_file E now' (?lf\<lparr>m_count := n\<rparr>) = Inr (rolled, lf') \<and> lf_inv E base (lines @ [line]) lf'" for n
    using roll_file_inv [OF _ assms(2), of base "lines @ [line]" "?lf\<lparr>m_count := n\<rparr>" now'] st by (metis lf_inv_count)
  have roll': "\<exists>rolled lf'. roll_file E now' ?lf = Inr (rolled, lf') \<and> lf_inv E base (lines @ [line]) lf'"
    using roll_file_inv [OF st assms(2)] by blast
  have fl: "lf_inv E base (lines @ [line]) (?lf\<lparr> m_count := 0, m_last_flush := now, m_file := Some (af_flush g) \<rparr>)"
    using lf_inv_flushed(1) [of E base "lines @ [line]" "?lf\<lparr>m_count := 0\<rparr>" g now] st by simp
  have cnt: "lf_inv E base (lines @ [line]) (?lf\<lparr>m_count := n\<rparr>)" for n using st by simp
  show ?thesis
    using f g roll [of 0] roll' fl cnt
    by (auto simp: append_unlocked_def Let_def)
qed

lemma log_ops_inv:
  "lf_inv E base lines lf \<Longrightarrow> fs_ok E \<Longrightarrow> \<exists>lf'. log_ops_run E ops lf = Inr lf' \<and> lf_inv E base (lines @ op_lines ops) lf'"
proof (induction ops arbitrary: lines lf)
  case (Cons x ops)
  have "\<exists>lf1. log_op_run E x lf = Inr lf1 \<and> lf_inv E base (lines @ op_lines [x]) lf1"
  proof (cases x)
    case (Log_append line now now')
    then show ?thesis using append_unlocked_inv [OF Cons.prems] by (simp add: lf_append_def)
  next
    case Log_flush
    obtain f where "m_file lf = Some f" using Cons.prems(1) by (rule lf_invE)
    then show ?thesis using Log_flush lf_inv_flushed(2) [OF Cons.prems(1)] by (simp add: lf_flush_def)
  next
    case (Log_roll now)
    obtain b lf' where "roll_file E now lf = Inr (b, lf')" "lf_inv E base lines lf'"
      using roll_file_inv [OF Cons.prems, of now] by blast
    then show ?thesis using Log_roll by simp
  qed
  then obtain lf1 where "log_op_run E x lf = Inr lf1" "lf_inv E base (lines @ op_lines [x]) lf1" by blast
  moreover have "op_lines (x # ops) = op_lines [x] @ op_lines ops" by (cases x) simp_all
  ultimately show ?case using Cons.IH [OF _ Cons.prems(2), of "lines @ op_lines [x]" lf1] by simp
qed simp

lemma LogFile_init_inv:
  assumes "fs_ok E" and "0 < t0" and "CHR ''/'' \<notin> set base"
  shows "\<exists>lf. LogFile_init E base roll interval n t0 = Inr lf \<and> lf_inv E base [] lf"
proof -
  define lf where "lf = \<lparr> m_basename = base, m_rollsize = roll, m_flush_interval = interval, m_check_every_n_appends = n,
     m_count = 0, m_start_time = day_of t0, m_last_roll = t0, m_last_flush = t0,
     m_file = Some \<lparr> af_name = get_log_file_name E base t0, af_data = [], af_flushed = 0, af_calls = 0, m_written_bytes = 0 \<rparr>,
     lf_closed = [], lf_stderr = [] \<rparr>"
  have "LogFile_init E base roll interval n t0 = Inr lf"
    using assms by (simp add: LogFile_init_def roll_file_def AppendFile_init_def fs_ok_def lf_def day_of_def Let_def)
  moreover have "lf_inv E base [] lf"
    unfolding lf_inv_def by (intro exI [of _ "the (m_file lf)"] exI [of _ "[t0]"] exI [of _ "[[]]"]) (simp add: lf_def log_files_def)
  ultimately show ?thesis by blast
qed

text \<open>C18: Whatever the clock does, a log file loses, splits and reorders no line: the files it leaves behind, in the
  order they were opened, each hold some of the lines whole, and together all of them in order. They were opened in different
  seconds and are named after them, and all but the last are flushed and closed.\<close>

theorem log_file_keeps_lines:
  assumes "fs_ok E" and "0 < t0" and "CHR ''/'' \<notin> set base"
  shows "\<exists>lf lf' ts mss. LogFile_init E base roll interval n t0 = Inr lf \<and> log_ops_run E ops lf = Inr lf' \<and>
     map af_data (log_files lf') = map concat mss \<and> concat mss = op_lines ops \<and>
     map af_name (log_files lf') = map (get_log_file_name E base) ts \<and> sorted_wrt (<) ts \<and>
     list_all (\<lambda>g. af_flushed g = length (af_data g)) (lf_closed lf')"
proof -
  obtain lf where lf: "LogFile_init E base roll interval n t0 = Inr lf" "lf_inv E base [] lf"
    using LogFile_init_inv [OF assms] by blast
  obtain lf' where lf': "log_ops_run E ops lf = Inr lf'" "lf_inv E base (op_lines ops) lf'"
    using log_ops_inv [OF lf(2) assms(1), of ops] by auto
  from lf'(2) show ?thesis using lf lf'(1) by (auto simp: lf_inv_def)
qed

definition witness_fs :: file_system where
  "witness_fs = \<lparr> fs_fwrite = (\<lambda>k n. 1), fs_ferror = (\<lambda>k. 0), fs_strerror = (\<lambda>e. []), fs_fopen = (\<lambda>name. True),
     fs_gmtime = (\<lambda>t. tm_zero\<lparr>tm_sec := t\<rparr>), fs_hostname = None, fs_pid = 7 \<rparr>"

theorem log_file_keeps_lines_witness:
  "\<exists>lf lf' mss. LogFile_init witness_fs ''app'' 4 3 1024 5 = Inr lf \<and>
     log_ops_run witness_fs [Log_append ''first'' 5 6, Log_append ''second'' 6 6, Log_flush] lf = Inr lf' \<and>
     map af_data (log_files lf') = map concat mss \<and> concat mss = [''first'', ''second'']"
proof -
  have "fs_ok witness_fs" "(0 :: int) < 5" "CHR ''/'' \<notin> set ''app''" by (simp_all add: fs_ok_def witness_fs_def)
  from log_file_keeps_lines [OF this, of 4 3 1024 "[Log_append ''first'' 5 6, Log_append ''second'' 6 6, Log_flush]"]
  show ?thesis by auto
qed

text \<open>An append that finds the clock past the last roll leaves a current file within the roll size. When it is the
  append that checks the period, the file belongs to the current day and was flushed within the flush interval.\<close>

theorem log_file_rolls:
  assumes "lf_inv E base lines lf" and "fs_ok E" and "m_last_roll lf < now'" and "0 \<le> m_rollsize lf"
    and "0 \<le> m_flush_interval lf" and "now \<le> now'" and "day_of now = day_of now'"
  shows "\<exists>lf' g. lf_append E now now' line lf = Inr lf' \<and> m_file lf' = Some g \<and> m_written_bytes g \<le> m_rollsize lf \<and>
     (m_check_every_n_appends lf \<le> m_count lf + 1 \<longrightarrow>
        m_start_time lf' = day_of now \<and> now - m_last_flush lf' \<le> m_flush_interval lf)"
proof -
  obtain f where f: "m_file lf = Some f" using assms(1) by (rule lf_invE)
  obtain g msgs where g: "af_append E line f = (g, msgs)" by (cases "af_append E line f")
  let ?lf = "lf\<lparr> m_file := Some g, lf_stderr := lf_stderr lf @ msgs \<rparr>"
  note st = stored_line_inv [OF assms(1,2) f g]
  have roll: "\<exists>rolled lf' g'. roll_file E now' l = Inr (rolled, lf') \<and> m_file lf' = Some g' \<and> m_written_bytes g' = 0 \<and>
      m_start_time lf' = day_of now \<and> m_last_flush lf' = now'"
    if "l = ?lf \<or> l = ?lf\<lparr>m_count := 0\<rparr>" for l
    using roll_file_inv [OF _ assms(2), of base "lines @ [line]" l now'] that st assms(3,7) by (auto split: if_splits)
  show ?thesis
  proof (cases "m_rollsize lf < m_written_bytes g")
    case True
    then show ?thesis using f g roll [of ?lf] assms(4-6) by (auto simp: lf_append_def append_unlocked_def Let_def)
  next
    case False
    then show ?thesis using f g roll [of "?lf\<lparr>m_count := 0\<rparr>"] assms(4-6)
      by (auto simp: lf_append_def append_unlocked_def Let_def af_flush_def day_of_def)
  qed
qed

theorem log_file_rolls_witness:
  "\<exists>lf lf' g. LogFile_init witness_fs ''app'' 4 3 1 5 = Inr lf \<and> lf_append witness_fs 9 9 ''first line'' lf = Inr lf' \<and>
     m_file lf' = Some g \<and> m_written_bytes g \<le> 4 \<and> m_start_time lf' = day_of 9"
proof -
  have ok: "fs_ok witness_fs" by (simp add: fs_ok_def witness_fs_def)
  obtain lf where lf: "LogFile_init witness_fs ''app'' 4 3 1 5 = Inr lf" "lf_inv witness_fs ''app'' [] lf"
    using LogFile_init_inv [OF ok, of 5 "''app''" 4 3 1] by auto
  have "m_last_roll lf = 5" "m_rollsize lf = 4" "m_flush_interval lf = 3" "m_check_every_n_appends lf = 1" "m_count lf = 0"
    using lf(1) by (auto simp: LogFile_init_def roll_file_def AppendFile_init_def massert_def Let_def split: if_splits)
  then show ?thesis using log_file_rolls [OF lf(2) ok, of 9 9 "''first line''"] lf(1) by auto
qed

end
