(* ===== verification/AsyncLogging.thy ===== *)
theory AsyncLogging
  imports Logging LogFile Safe_System
begin

text \<open>
  AsyncLogging.h and AsyncLogging.cc: log lines go into fixed-size buffers under a mutex, and a thread of its own writes
  full buffers, and at intervals the current one, to a log file. A section under the mutex is one step; the back end is a
  step relation whose control points are those of \<^verbatim>\<open>backend_thread_func\<close>, so that front-end threads append between
  any two of them. A \<^verbatim>\<open>unique_ptr\<close> is an option.
\<close>

section \<open>The front end\<close>

record async_logging =
  al_is_running :: bool
  m_cur_buffer_ptr :: "fixed_buffer option"
  m_reserved_buffer_ptr :: "fixed_buffer option"
  m_used_buffers :: "fixed_buffer option list"

definition new_log_buffer :: fixed_buffer where
  "new_log_buffer = FixedBuffer_init kLogBufferSize"

definition AsyncLogging_init :: async_logging where
  "AsyncLogging_init =
     \<lparr> al_is_running = False, m_cur_buffer_ptr = Some (reset_buffer new_log_buffer),
       m_reserved_buffer_ptr = Some (reset_buffer new_log_buffer), m_used_buffers = [] \<rparr>"

definition al_start :: "async_logging \<Rightarrow> async_logging" where
  "al_start s = s\<lparr>al_is_running := True\<rparr>"

definition al_stop :: "async_logging \<Rightarrow> async_logging" where
  "al_stop s = s\<lparr>al_is_running := False\<rparr>"

text \<open>Whether the back end is notified, and the new state.\<close>

definition al_append :: "char list \<Rightarrow> async_logging \<Rightarrow> (bool \<times> async_logging) res" where
  "al_append logline s =
     (case m_cur_buffer_ptr s of
        None \<Rightarrow> Inl (Undefined ''null m_cur_buffer_ptr'')
      | Some b \<Rightarrow>
          if fb_avail b > int (length logline)
          then rbind (fb_append logline b) (\<lambda>b. Inr (False, s\<lparr>m_cur_buffer_ptr := Some b\<rparr>))
          else let s = s\<lparr>m_used_buffers := m_used_buffers s @ [Some b]\<rparr>;
                   (cur, reserved) = (case m_reserved_buffer_ptr s of Some r \<Rightarrow> (r, None) | None \<Rightarrow> (new_log_buffer, None))
               in rbind (fb_append logline cur) (\<lambda>b.
                    Inr (True, s\<lparr> m_cur_buffer_ptr := Some b, m_reserved_buffer_ptr := reserved \<rparr>)))"

section \<open>The back end\<close>

record backend =
  new_buffer_ptr1 :: "fixed_buffer option"
  new_buffer_ptr2 :: "fixed_buffer option"
  buffers_to_write :: "fixed_buffer option list"
  be_output :: log_file

text \<open>The log file is not thread safe and has the default flush interval and check count.\<close>

definition backend_init :: "file_system \<Rightarrow> string \<Rightarrow> int \<Rightarrow> int \<Rightarrow> async_logging \<Rightarrow> backend res" where
  "backend_init E basename rollsize now s =
     massert (al_is_running s) ''m_is_running == true''
       (rbind (LogFile_init E basename rollsize 3 1024 now) (\<lambda>out.
          Inr \<lparr> new_buffer_ptr1 = Some (reset_buffer new_log_buffer), new_buffer_ptr2 = Some (reset_buffer new_log_buffer),
                buffers_to_write = [], be_output = out \<rparr>))"

definition buffer_empty :: "fixed_buffer option \<Rightarrow> bool" where
  "buffer_empty p \<longleftrightarrow> (case p of None \<Rightarrow> False | Some b \<Rightarrow> fb_length b = 0)"

text \<open>The assertions at the head of the loop.\<close>

definition backend_enter :: "backend \<Rightarrow> unit res" where
  "backend_enter b =
     massert (buffer_empty (new_buffer_ptr1 b)) ''new_buffer_ptr1 && new_buffer_ptr1->length() == 0''
    (massert (buffer_empty (new_buffer_ptr2 b)) ''new_buffer_ptr2 && new_buffer_ptr2->length() == 0''
    (massert (buffers_to_write b = []) ''buffers_to_write.empty()'' (Inr ())))"

text \<open>The part under the mutex, once the wait is over.\<close>

definition backend_swap :: "async_logging \<Rightarrow> backend \<Rightarrow> async_logging \<times> backend" where
  "backend_swap s b =
     (let s = s\<lparr> m_used_buffers := m_used_buffers s @ [m_cur_buffer_ptr s], m_cur_buffer_ptr := new_buffer_ptr1 b \<rparr>;
          b = b\<lparr>new_buffer_ptr1 := None\<rparr>;
          b' = b\<lparr>buffers_to_write := m_used_buffers s\<rparr>;
          s' = s\<lparr>m_used_buffers := buffers_to_write b\<rparr>
      in if m_reserved_buffer_ptr s' = None
         then (s'\<lparr>m_reserved_buffer_ptr := new_buffer_ptr2 b'\<rparr>, b'\<lparr>new_buffer_ptr2 := None\<rparr>)
         else (s', b'))"

text \<open>\<open>clk i\<close> are the two times that the \<open>i\<close>-th call of \<^verbatim>\<open>output.append\<close> of the round may read.\<close>

fun write_buffers :: "file_system \<Rightarrow> (nat \<Rightarrow> int \<times> int) \<Rightarrow> nat \<Rightarrow> fixed_buffer option list \<Rightarrow> log_file \<Rightarrow> log_file res" where
  "write_buffers E clk i [] out = Inr out"
| "write_buffers E clk i (None # ps) out = Inl (Undefined ''null buffer'')"
| "write_buffers E clk i (Some b # ps) out =
     rbind (lf_append E (fst (clk i)) (snd (clk i)) (fb_to_string b) out) (write_buffers E clk (Suc i) ps)"

definition drop_notice :: "string \<Rightarrow> nat \<Rightarrow> string" where
  "drop_notice stamp n =
     snprintf 256 (''Dropped log messages at '' @ stamp @ '', '' @ dec_nat (n - 2) @ '' larger buffers'' @ [CHR 0x0A])"

text \<open>Taking a written buffer back as a new one.\<close>

definition recycle :: "fixed_buffer option \<Rightarrow> fixed_buffer option list \<Rightarrow> (fixed_buffer option \<times> fixed_buffer option list) res" where
  "recycle new_ptr ps =
     (case new_ptr of
        Some b \<Rightarrow> Inr (Some b, ps)
      | None \<Rightarrow> massert (ps \<noteq> []) ''!buffers_to_write.empty()''
          (case last ps of
             None \<Rightarrow> Inl (Undefined ''null buffer'')
           | Some b \<Rightarrow> Inr (Some (reset_cur b), butlast ps)))"

definition backend_write :: "file_system \<Rightarrow> string \<Rightarrow> (nat \<Rightarrow> int \<times> int) \<Rightarrow> backend \<Rightarrow> backend res" where
  "backend_write E stamp clk b =
     massert (buffers_to_write b \<noteq> []) ''!buffers_to_write.empty()''
    (rbind (if length (buffers_to_write b) > 2
            then rbind (lf_append E (fst (clk 0)) (snd (clk 0)) (drop_notice stamp (length (buffers_to_write b))) (be_output b))
                   (\<lambda>out. Inr (take 2 (buffers_to_write b), out))
            else Inr (buffers_to_write b, be_output b)) (\<lambda>(ps, out).
     rbind (write_buffers E clk 1 ps out) (\<lambda>out.
     let ps = (if length ps > 2 then take 2 ps else ps)
     in rbind (recycle (new_buffer_ptr1 b) ps) (\<lambda>(p1, ps).
        rbind (recycle (new_buffer_ptr2 b) ps) (\<lambda>(p2, ps).
        rbind (lf_flush out) (\<lambda>out.
        Inr \<lparr> new_buffer_ptr1 = p1, new_buffer_ptr2 = p2, buffers_to_write = [], be_output = out \<rparr>))))))"

section \<open>Front and back end together\<close>

datatype backend_pc = Loop_head | Waiting | Writing | Exited

record async_system =
  as_front :: async_logging
  as_back :: backend
  as_pc :: backend_pc
  as_lines :: "char list list"       \<comment> \<open>the lines appended so far\<close>
  as_dropped :: nat                  \<comment> \<open>the buffers abandoned so far\<close>

definition async_swap :: "async_system \<Rightarrow> async_system" where
  "async_swap s =
     (case backend_swap (as_front s) (as_back s) of (f, b) \<Rightarrow> s\<lparr> as_front := f, as_back := b, as_pc := Writing \<rparr>)"

text \<open>A wait ends by a notification, after the flush interval, or spuriously: \<open>wake\<close> is all three.\<close>

inductive async_step :: "file_system \<Rightarrow> async_system \<Rightarrow> async_system res \<Rightarrow> bool" for E where
  append: "async_step E s (rbind (al_append line (as_front s)) (\<lambda>(notify, f).
     Inr (s\<lparr> as_front := f, as_lines := as_lines s @ [line] \<rparr>)))"
| enter: "as_pc s = Loop_head \<Longrightarrow> al_is_running (as_front s) \<Longrightarrow>
    async_step E s (rbind (backend_enter (as_back s)) (\<lambda>_.
      Inr (if m_used_buffers (as_front s) = [] then s\<lparr>as_pc := Waiting\<rparr> else async_swap s)))"
| wake: "as_pc s = Waiting \<Longrightarrow> async_step E s (Inr (async_swap s))"
| write_out: "as_pc s = Writing \<Longrightarrow>
    async_step E s (rbind (backend_write E stamp clk (as_back s)) (\<lambda>b.
      Inr (s\<lparr> as_back := b, as_pc := Loop_head,
             as_dropped := as_dropped s + (length (buffers_to_write (as_back s)) - 2) \<rparr>)))"
| stop: "async_step E s (Inr (s\<lparr>as_front := al_stop (as_front s)\<rparr>))"
| exit: "as_pc s = Loop_head \<Longrightarrow> \<not> al_is_running (as_front s) \<Longrightarrow>
    async_step E s (rbind (lf_flush (be_output (as_back s))) (\<lambda>out.
      Inr (s\<lparr> as_back := (as_back s)\<lparr>be_output := out\<rparr>, as_pc := Exited \<rparr>)))"

inductive_cases async_stepE: "async_step E s r"

definition async_start :: "file_system \<Rightarrow> string \<Rightarrow> int \<Rightarrow> int \<Rightarrow> async_system res" where
  "async_start E basename rollsize now =
     (let f = al_start AsyncLogging_init
      in rbind (backend_init E basename rollsize now f) (\<lambda>b.
         Inr \<lparr> as_front = f, as_back = b, as_pc = Loop_head, as_lines = [], as_dropped = 0 \<rparr>))"

section \<open>Buffers\<close>

definition ptr_text :: "fixed_buffer option \<Rightarrow> string" where
  "ptr_text p = (case p of None \<Rightarrow> [] | Some b \<Rightarrow> fb_to_string b)"

definition ptr_ok :: "fixed_buffer option \<Rightarrow> bool" where
  "ptr_ok p \<longleftrightarrow> (case p of None \<Rightarrow> False | Some b \<Rightarrow> fb_inv kLogBufferSize b)"

definition ptr_new :: "fixed_buffer option \<Rightarrow> bool" where
  "ptr_new p \<longleftrightarrow> ptr_ok p \<and> buffer_empty p"

lemma ptr_new_text [simp]: "ptr_new p \<Longrightarrow> ptr_text p = []"
  by (auto simp: ptr_new_def ptr_text_def buffer_empty_def fb_to_string_def split: option.splits)

lemma ptr_new_ok [simp]: "ptr_new p \<Longrightarrow> ptr_ok p"
  by (simp add: ptr_new_def)

lemma ptr_okE: "ptr_ok p \<Longrightarrow> (\<And>b. p = Some b \<Longrightarrow> fb_inv kLogBufferSize b \<Longrightarrow> thesis) \<Longrightarrow> thesis"
  by (auto simp: ptr_ok_def split: option.splits)

lemma ptr_not_ok [simp]: "\<not> ptr_ok None" "\<not> ptr_new None"
  by (simp_all add: ptr_ok_def ptr_new_def)

lemma new_buffer_new [simp]: "ptr_new (Some new_log_buffer)" "ptr_new (Some (reset_buffer new_log_buffer))"
  by (simp_all add: ptr_new_def ptr_ok_def buffer_empty_def fb_inv_def fb_length_def new_log_buffer_def FixedBuffer_init_def
      reset_buffer_def kLogBufferSize_def)

lemma reset_cur_new [simp]: "ptr_ok (Some b) \<Longrightarrow> ptr_new (Some (reset_cur b))"
  by (simp add: ptr_new_def ptr_ok_def buffer_empty_def fb_inv_def fb_length_def reset_cur_def)

text \<open>The lines that a buffer can hold.\<close>

definition fitting :: "char list list \<Rightarrow> char list list" where
  "fitting = filter (\<lambda>line. length line < kLogBufferSize)"

definition front_ok :: "async_logging \<Rightarrow> bool" where
  "front_ok s \<longleftrightarrow>
     ptr_ok (m_cur_buffer_ptr s) \<and> list_all ptr_ok (m_used_buffers s) \<and>
     (if m_reserved_buffer_ptr s = None then m_used_buffers s \<noteq> [] else ptr_new (m_reserved_buffer_ptr s))"

definition front_text :: "async_logging \<Rightarrow> string" where
  "front_text s = concat (map ptr_text (m_used_buffers s)) @ ptr_text (m_cur_buffer_ptr s)"

lemma al_append_ok:
  assumes "front_ok s"
  shows "\<exists>notify s'. al_append line s = Inr (notify, s') \<and> front_ok s' \<and> al_is_running s' = al_is_running s \<and>
     front_text s' = front_text s @ concat (fitting [line])"
proof -
  obtain b where b: "m_cur_buffer_ptr s = Some b" "fb_inv kLogBufferSize b"
    using assms unfolding front_ok_def by (meson ptr_okE)
  have l: "length (fb_to_string b) = m_cur b" "fb_avail b = int kLogBufferSize - int (m_cur b)"
    using b(2) by (simp_all add: length_fb_to_string fb_avail_def) (simp add: fb_inv_def)
  show ?thesis
  proof (cases "fb_avail b > int (length line)")
    case True
    then obtain b' where "fb_append line b = Inr b'" "fb_inv kLogBufferSize b'" "fb_to_string b' = fb_to_string b @ line"
      using fb_append_ok [OF b(2), of line] l by auto
    then show ?thesis
      using assms b True l by (auto simp: al_append_def front_ok_def front_text_def ptr_text_def ptr_ok_def fitting_def)
  next
    case False
    define cur where "cur = (case m_reserved_buffer_ptr s of Some r \<Rightarrow> r | None \<Rightarrow> new_log_buffer)"
    have new: "ptr_new (Some cur)"
      using assms by (auto simp: cur_def front_ok_def split: option.splits if_splits)
    then have inv: "fb_inv kLogBufferSize cur" "fb_to_string cur = []"
      using ptr_new_text [OF new] by (auto simp: ptr_new_def ptr_ok_def ptr_text_def)
    obtain c where c: "fb_append line cur = Inr c" "fb_inv kLogBufferSize c" "fb_to_string c = concat (fitting [line])"
      using fb_append_ok [OF inv(1), of line] inv(2) by (auto simp: fitting_def)
    let ?s = "s\<lparr> m_used_buffers := m_used_buffers s @ [Some b], m_cur_buffer_ptr := Some c, m_reserved_buffer_ptr := None \<rparr>"
    have "al_append line s = Inr (True, ?s)"
      using b(1) False c(1) by (auto simp: al_append_def Let_def cur_def split: option.splits)
    moreover have "front_ok ?s" using assms b(2) c(2) by (simp add: front_ok_def ptr_ok_def)
    moreover have "front_text ?s = front_text s @ concat (fitting [line])"
      using b(1) c(3) by (simp add: front_text_def ptr_text_def)
    ultimately show ?thesis by (intro exI conjI) (assumption | simp)+
  qed
qed

text \<open>The back end's buffers: between two rounds both new buffers are there and empty; while it writes, the first has
  been given away, and the second only if there are two buffers to take back.\<close>

definition back_ok :: "backend_pc \<Rightarrow> backend \<Rightarrow> bool" where
  "back_ok pc b \<longleftrightarrow>
     (if pc = Writing
      then new_buffer_ptr1 b = None \<and> buffers_to_write b \<noteq> [] \<and> list_all ptr_ok (buffers_to_write b) \<and>
           (if new_buffer_ptr2 b = None then 2 \<le> length (buffers_to_write b) else ptr_new (new_buffer_ptr2 b))
      else ptr_new (new_buffer_ptr1 b) \<and> ptr_new (new_buffer_ptr2 b) \<and> buffers_to_write b = [])"

lemma backend_enter_ok: "back_ok pc b \<Longrightarrow> pc \<noteq> Writing \<Longrightarrow> backend_enter b = Inr ()"
  by (simp add: back_ok_def backend_enter_def ptr_new_def)

lemma backend_swap_ok:
  assumes "front_ok f" and "back_ok pc b" and "pc \<noteq> Writing" and "backend_swap f b = (f', b')"
  shows "front_ok f'" and "back_ok Writing b'" and "front_text f' = []" and "be_output b' = be_output b"
    and "concat (map ptr_text (buffers_to_write b')) = front_text f"
    and "length (buffers_to_write b') = Suc (length (m_used_buffers f))"
  using assms
  by (auto simp: backend_swap_def Let_def front_ok_def back_ok_def front_text_def Suc_le_eq split: if_splits)

lemma write_buffers_ok:
  "list_all ptr_ok ps \<Longrightarrow> lf_inv E base ls out \<Longrightarrow> fs_ok E \<Longrightarrow>
   \<exists>out'. write_buffers E clk i ps out = Inr out' \<and> lf_inv E base (ls @ map ptr_text ps) out'"
proof (induction ps arbitrary: i ls out)
  case (Cons p ps)
  then obtain b where p: "p = Some b" by (auto elim: ptr_okE)
  obtain out1 where "lf_append E (fst (clk i)) (snd (clk i)) (fb_to_string b) out = Inr out1"
    "lf_inv E base (ls @ [fb_to_string b]) out1"
    using append_unlocked_inv [OF Cons.prems(2,3)] unfolding lf_append_def by blast
  then show ?case using Cons.IH [of "ls @ [fb_to_string b]" out1 "Suc i"] Cons.prems p by (simp add: ptr_text_def)
qed simp

lemma recycle_ok:
  assumes "list_all ptr_ok ps" and "if p = None then ps \<noteq> [] else ptr_new p"
  shows "\<exists>p' ps'. recycle p ps = Inr (p', ps') \<and> ptr_new p' \<and> list_all ptr_ok ps' \<and>
     length ps' = length ps - (if p = None then 1 else 0)"
proof (cases p)
  case None
  then obtain qs q where q: "ps = qs @ [q]" using assms(2) by (metis rev_exhaust)
  then obtain b where "q = Some b" "ptr_ok (Some b)" using assms(1) by (cases q) auto
  then show ?thesis using None q assms(1) by (simp add: recycle_def)
qed (use assms in \<open>simp add: recycle_def\<close>)

definition all_flushed :: "log_file \<Rightarrow> bool" where
  "all_flushed lf \<longleftrightarrow> list_all (\<lambda>g. af_flushed g = length (af_data g)) (log_files lf)"

lemma lf_flush_ok:
  assumes "lf_inv E base ls lf"
  shows "\<exists>lf'. lf_flush lf = Inr lf' \<and> lf_inv E base ls lf' \<and> all_flushed lf'"
proof -
  obtain f where f: "m_file lf = Some f" "list_all (\<lambda>g. af_flushed g = length (af_data g)) (lf_closed lf)"
    using assms by (rule lf_invE)
  then show ?thesis
    using lf_inv_flushed(2) [OF assms f(1)] by (simp add: lf_flush_def all_flushed_def log_files_def af_flush_def)
qed

lemma backend_write_ok:
  assumes "back_ok Writing b" and "lf_inv E base ls (be_output b)" and "fs_ok E"
  shows "\<exists>b' ls'. backend_write E stamp clk b = Inr b' \<and> back_ok Loop_head b' \<and>
     lf_inv E base (ls @ ls') (be_output b') \<and> all_flushed (be_output b') \<and>
     (length (buffers_to_write b) \<le> 2 \<longrightarrow> concat ls' = concat (map ptr_text (buffers_to_write b)))"
proof -
  let ?bs = "buffers_to_write b"
  define ps where "ps = take 2 ?bs"
  have b: "new_buffer_ptr1 b = None" "?bs \<noteq> []" "list_all ptr_ok ?bs"
    "if new_buffer_ptr2 b = None then 2 \<le> length ?bs else ptr_new (new_buffer_ptr2 b)"
    using assms(1) by (simp_all add: back_ok_def)
  have ps: "list_all ptr_ok ps" "ps \<noteq> []" "length ps = min 2 (length ?bs)"
    using b by (auto simp: ps_def list_all_iff dest: in_set_takeD)
  obtain notice out where out: "lf_inv E base (ls @ notice) out" "2 < length ?bs \<or> notice = []"
    "(if length ?bs > 2
      then rbind (lf_append E (fst (clk 0)) (snd (clk 0)) (drop_notice stamp (length ?bs)) (be_output b)) (\<lambda>out. Inr (take 2 ?bs, out))
      else Inr (?bs, be_output b)) = Inr (ps, out)"
  proof (cases "length ?bs > 2")
    case True
    then show ?thesis
      using append_unlocked_inv [OF assms(2,3), of "fst (clk 0)" "snd (clk 0)" "drop_notice stamp (length ?bs)"] that
      by (auto simp: lf_append_def ps_def)
  next
    case False
    then show ?thesis using that [of "[]" "be_output b"] assms(2) by (simp add: ps_def)
  qed
  obtain out1 where out1: "write_buffers E clk 1 ps out = Inr out1" "lf_inv E base ((ls @ notice) @ map ptr_text ps) out1"
    using write_buffers_ok [OF ps(1) out(1) assms(3)] by blast
  obtain p1 ps1 where r1: "recycle (new_buffer_ptr1 b) ps = Inr (p1, ps1)" "ptr_new p1" "list_all ptr_ok ps1" "length ps1 = length ps - 1"
    using recycle_ok [of ps "new_buffer_ptr1 b"] ps b(1) by auto
  have "if new_buffer_ptr2 b = None then ps1 \<noteq> [] else ptr_new (new_buffer_ptr2 b)"
    using b(4) r1(4) ps(3) by (auto split: if_splits)
  from recycle_ok [OF r1(3) this] obtain p2 ps2 where r2: "recycle (new_buffer_ptr2 b) ps1 = Inr (p2, ps2)" "ptr_new p2" by blast
  obtain out2 where out2: "lf_flush out1 = Inr out2" "lf_inv E base (ls @ notice @ map ptr_text ps) out2" "all_flushed out2"
    using lf_flush_ok [OF out1(2)] by auto
  let ?b = "\<lparr> new_buffer_ptr1 = p1, new_buffer_ptr2 = p2, buffers_to_write = [], be_output = out2 \<rparr>"
  have "\<not> 2 < length ps" using ps(3) by simp
  then have "backend_write E stamp clk b = Inr ?b"
    unfolding backend_write_def out(3) using b(2) out1(1) r1(1) r2(1) out2(1) by simp
  moreover have "back_ok Loop_head ?b" using r1(2) r2(2) by (simp add: back_ok_def)
  moreover have "concat (notice @ map ptr_text ps) = concat (map ptr_text ?bs)" if "length ?bs \<le> 2"
    using out(2) that by (auto simp: ps_def)
  ultimately show ?thesis using out2(2,3)
    by (intro exI [of _ ?b] exI [of _ "notice @ map ptr_text ps"]) simp
qed

section \<open>Nothing is lost while nothing is dropped\<close>

definition written_text :: "async_system \<Rightarrow> string" where
  "written_text s = concat (map af_data (log_files (be_output (as_back s))))"

lemma lf_inv_text: "lf_inv E base ls lf \<Longrightarrow> concat (map af_data (log_files lf)) = concat ls"
  by (erule lf_invE) (metis concat_map_concat)

definition async_inv :: "file_system \<Rightarrow> string \<Rightarrow> async_system \<Rightarrow> bool" where
  "async_inv E base s \<longleftrightarrow>
     front_ok (as_front s) \<and> back_ok (as_pc s) (as_back s) \<and>
     (\<exists>ls. lf_inv E base ls (be_output (as_back s))) \<and>
     (as_dropped s = 0 \<longrightarrow>
        written_text s @ concat (map ptr_text (buffers_to_write (as_back s))) @ front_text (as_front s) = concat (fitting (as_lines s)))"

lemma async_swap_inv:
  assumes "async_inv E base s" and "as_pc s \<noteq> Writing"
  shows "async_inv E base (async_swap s)"
proof -
  obtain f b where fb: "backend_swap (as_front s) (as_back s) = (f, b)" by (cases "backend_swap (as_front s) (as_back s)")
  have "front_ok (as_front s)" "back_ok (as_pc s) (as_back s)" using assms(1) by (simp_all add: async_inv_def)
  note sw = backend_swap_ok [OF this assms(2) fb]
  have "buffers_to_write (as_back s) = []" using assms by (simp add: async_inv_def back_ok_def)
  then show ?thesis using assms(1) fb sw by (simp add: async_inv_def async_swap_def written_text_def)
qed

lemma async_inv_step:
  assumes i: "async_inv E base s" and ok: "fs_ok E" and "async_step E s r"
  shows "\<exists>s'. r = Inr s' \<and> async_inv E base s'"
  using assms(3)
proof (cases rule: async_step.cases)
  case (append line)
  obtain notify f where "al_append line (as_front s) = Inr (notify, f)" "front_ok f"
    "front_text f = front_text (as_front s) @ concat (fitting [line])"
    using al_append_ok [of "as_front s" line] i by (auto simp: async_inv_def)
  moreover have "fitting (as_lines s @ [line]) = fitting (as_lines s) @ fitting [line]" by (simp add: fitting_def)
  ultimately show ?thesis using append i by (auto simp: async_inv_def written_text_def)
next
  case enter
  have "backend_enter (as_back s) = Inr ()" using backend_enter_ok [of "as_pc s" "as_back s"] i enter by (simp add: async_inv_def)
  moreover have "async_inv E base (s\<lparr>as_pc := Waiting\<rparr>)"
    using i enter by (auto simp: async_inv_def back_ok_def written_text_def)
  ultimately show ?thesis using enter async_swap_inv [OF i] by simp
next
  case wake
  then show ?thesis using async_swap_inv [OF i] by simp
next
  case (write_out stamp clk)
  obtain ls where ls: "lf_inv E base ls (be_output (as_back s))" using i by (auto simp: async_inv_def)
  have "back_ok Writing (as_back s)" using i write_out by (simp add: async_inv_def)
  from backend_write_ok [OF this ls ok] obtain b ls' where b: "backend_write E stamp clk (as_back s) = Inr b" "back_ok Loop_head b"
    "lf_inv E base (ls @ ls') (be_output b)"
    "length (buffers_to_write (as_back s)) \<le> 2 \<longrightarrow> concat ls' = concat (map ptr_text (buffers_to_write (as_back s)))"
    by blast
  have "buffers_to_write b = []" using b(2) by (simp add: back_ok_def)
  then show ?thesis
    using write_out b i lf_inv_text [OF ls] lf_inv_text [OF b(3)] by (auto simp: async_inv_def written_text_def)
next
  case stop
  then show ?thesis using i by (simp add: async_inv_def al_stop_def front_ok_def front_text_def written_text_def)
next
  case exit
  obtain ls where ls: "lf_inv E base ls (be_output (as_back s))" using i by (auto simp: async_inv_def)
  from lf_flush_ok [OF this] obtain out where "lf_flush (be_output (as_back s)) = Inr out" "lf_inv E base ls out" by blast
  then show ?thesis
    using exit i lf_inv_text [OF ls] lf_inv_text [of E base ls out] by (auto simp: async_inv_def written_text_def back_ok_def)
qed

interpretation logging: safe_system "async_step E" "\<lambda>s. fs_ok E \<and> async_inv E base s" for E base
  by unfold_locales (use async_inv_step in blast)

lemma async_start_inv:
  assumes "fs_ok E" and "0 < t0" and "CHR ''/'' \<notin> set base"
  shows "\<exists>s. async_start E base roll t0 = Inr s \<and> async_inv E base s \<and> as_pc s = Loop_head \<and> as_dropped s = 0 \<and> as_lines s = [] \<and>
     al_is_running (as_front s) \<and> m_used_buffers (as_front s) = []"
proof -
  obtain out where out: "LogFile_init E base roll 3 1024 t0 = Inr out" "lf_inv E base [] out"
    using LogFile_init_inv [OF assms] by blast
  then show ?thesis
    using lf_inv_text [OF out(2)]
    by (auto simp: async_start_def al_start_def AsyncLogging_init_def backend_init_def Let_def async_inv_def front_ok_def back_ok_def
        front_text_def written_text_def fitting_def)
qed

lemma append_step:
  assumes "async_inv E base s"
  shows "\<exists>s'. async_step E s (Inr s') \<and> as_lines s' = as_lines s @ [line] \<and> as_pc s' = as_pc s \<and> as_back s' = as_back s \<and>
     as_dropped s' = as_dropped s \<and> al_is_running (as_front s') = al_is_running (as_front s) \<and>
     front_text (as_front s') = front_text (as_front s) @ concat (fitting [line])"
proof -
  obtain notify f where f: "al_append line (as_front s) = Inr (notify, f)" "al_is_running f = al_is_running (as_front s)"
    "front_text f = front_text (as_front s) @ concat (fitting [line])"
    using al_append_ok [of "as_front s" line] assms by (auto simp: async_inv_def)
  have "async_step E s (Inr (s\<lparr> as_front := f, as_lines := as_lines s @ [line] \<rparr>))"
    using append [of E s line] f(1) by simp
  then show ?thesis using f(2,3) by (intro exI [of _ "s\<lparr> as_front := f, as_lines := as_lines s @ [line] \<rparr>"]) simp
qed

lemma wait_step:
  assumes "async_inv E base s" and "as_pc s = Loop_head" and "al_is_running (as_front s)" and "m_used_buffers (as_front s) = []"
  shows "async_step E s (Inr (s\<lparr>as_pc := Waiting\<rparr>))"
  using enter [OF assms(2,3), of E] backend_enter_ok [of "as_pc s" "as_back s"] assms(1,2,4) by (simp add: async_inv_def)

lemma swap_result:
  assumes "async_inv E base s" and "as_pc s \<noteq> Writing"
  shows "as_pc (async_swap s) = Writing" and "as_lines (async_swap s) = as_lines s" and "as_dropped (async_swap s) = as_dropped s"
    and "front_text (as_front (async_swap s)) = []"
    and "length (buffers_to_write (as_back (async_swap s))) = Suc (length (m_used_buffers (as_front s)))"
proof -
  obtain f b where fb: "backend_swap (as_front s) (as_back s) = (f, b)" by (cases "backend_swap (as_front s) (as_back s)")
  have "front_ok (as_front s)" "back_ok (as_pc s) (as_back s)" using assms(1) by (simp_all add: async_inv_def)
  note sw = backend_swap_ok [OF this assms(2) fb]
  show "as_pc (async_swap s) = Writing" "as_lines (async_swap s) = as_lines s" "as_dropped (async_swap s) = as_dropped s"
    "front_text (as_front (async_swap s)) = []"
    "length (buffers_to_write (as_back (async_swap s))) = Suc (length (m_used_buffers (as_front s)))"
    using fb sw(3,6) by (simp_all add: async_swap_def)
qed

lemma write_step:
  assumes "async_inv E base s" and "fs_ok E" and "as_pc s = Writing"
  shows "\<exists>s'. async_step E s (Inr s') \<and> as_pc s' = Loop_head \<and> as_front s' = as_front s \<and> as_lines s' = as_lines s \<and>
     as_dropped s' = as_dropped s + (length (buffers_to_write (as_back s)) - 2) \<and> all_flushed (be_output (as_back s'))"
proof -
  obtain ls where "lf_inv E base ls (be_output (as_back s))" "back_ok Writing (as_back s)"
    using assms(1,3) by (auto simp: async_inv_def)
  from backend_write_ok [OF this(2,1) assms(2)] obtain b where
    b: "backend_write E [] (\<lambda>i. (0, 0)) (as_back s) = Inr b" "all_flushed (be_output b)" by blast
  show ?thesis
    using write_out [OF assms(3), of E "[]" "\<lambda>i. (0, 0)"] b
    by (intro exI [of _ "s\<lparr> as_back := b, as_pc := Loop_head,
        as_dropped := as_dropped s + (length (buffers_to_write (as_back s)) - 2) \<rparr>"]) simp
qed

lemma exit_step:
  assumes "async_inv E base s" and "as_pc s = Loop_head" and "\<not> al_is_running (as_front s)"
  shows "\<exists>s'. async_step E s (Inr s') \<and> as_pc s' = Exited \<and> as_front s' = as_front s \<and> as_lines s' = as_lines s \<and>
     as_dropped s' = as_dropped s"
proof -
  obtain out where "lf_flush (be_output (as_back s)) = Inr out" using assms(1) lf_flush_ok unfolding async_inv_def by metis
  then show ?thesis
    using exit [OF assms(2,3), of E]
    by (intro exI [of _ "s\<lparr> as_back := (as_back s)\<lparr>be_output := out\<rparr>, as_pc := Exited \<rparr>"]) simp
qed

text \<open>C15: No interleaving of appends with the back end fails an assertion or touches a null buffer. As long as no buffer was
  abandoned, the log files, the buffers being written, the full buffers and the current one together hold the lines appended so far, in
  order, except those longer than a buffer.\<close>

theorem async_logging_ordered:
  assumes "fs_ok E" and "0 < t0" and "CHR ''/'' \<notin> set base"
    and "async_start E base roll t0 = Inr s0" and "ok_steps (async_step E) s0 s"
  shows "(\<forall>r. async_step E s r \<longrightarrow> (\<exists>s'. r = Inr s')) \<and>
     (as_dropped s = 0 \<longrightarrow>
        written_text s @ concat (map ptr_text (buffers_to_write (as_back s))) @ front_text (as_front s) =
        concat (filter (\<lambda>line. length line < kLogBufferSize) (as_lines s)))"
proof -
  have i0: "fs_ok E \<and> async_inv E base s0" using async_start_inv [OF assms(1-3), of roll] assms(1,4) by auto
  have "async_inv E base s" using logging.reachable_inv [OF assms(5) i0] by blast
  then show ?thesis using logging.never_fails [OF assms(5) i0] by (simp add: async_inv_def fitting_def)
qed

lemma witness_fs_ok: "fs_ok witness_fs" "(0 :: int) < 5" "CHR ''/'' \<notin> set ''app''"
  by (simp_all add: fs_ok_def witness_fs_def)

theorem async_logging_ordered_witness:
  "\<exists>s0 s. async_start witness_fs ''app'' 1000 5 = Inr s0 \<and> ok_steps (async_step witness_fs) s0 s \<and>
     as_lines s = [''hello''] \<and> written_text s @ concat (map ptr_text (buffers_to_write (as_back s))) @ front_text (as_front s) = ''hello''"
proof -
  obtain s0 where s0: "async_start witness_fs ''app'' 1000 5 = Inr s0" "async_inv witness_fs ''app'' s0" "as_dropped s0 = 0" "as_lines s0 = []"
    using async_start_inv [OF witness_fs_ok, of 1000] by blast
  obtain s where s: "async_step witness_fs s0 (Inr s)" "as_lines s = [''hello'']" "as_dropped s = 0"
    using append_step [OF s0(2), of "''hello''"] s0(3,4) by auto
  from async_logging_ordered [OF witness_fs_ok s0(1) ok_steps_one [where step = "async_step witness_fs", OF s(1)]] s(2,3)
  show ?thesis using s0(1) s(1) by (auto simp: kLogBufferSize_def)
qed

text \<open>When the back end sleeps with at most one full buffer waiting and nothing was abandoned before, its next round puts
  every line appended so far into the log files and flushes them.\<close>

theorem async_logging_flushes:
  assumes "fs_ok E" and "0 < t0" and "CHR ''/'' \<notin> set base"
    and "async_start E base roll t0 = Inr s0" and "ok_steps (async_step E) s0 s"
    and "as_pc s = Waiting" and "as_dropped s = 0" and "length (m_used_buffers (as_front s)) \<le> 1"
  shows "\<exists>s'. async_step E s (Inr (async_swap s)) \<and> async_step E (async_swap s) (Inr s') \<and> as_dropped s' = 0 \<and>
     as_lines s' = as_lines s \<and> written_text s' = concat (filter (\<lambda>line. length line < kLogBufferSize) (as_lines s)) \<and> all_flushed (be_output (as_back s'))"
proof -
  have i0: "fs_ok E \<and> async_inv E base s0" using async_start_inv [OF assms(1-3), of roll] assms(1,4) by auto
  have i: "async_inv E base s" using logging.reachable_inv [OF assms(5) i0] by blast
  have pc: "as_pc s \<noteq> Writing" using assms(6) by simp
  note i1 = async_swap_inv [OF i pc] and sw = swap_result [OF i pc]
  obtain s' where s': "async_step E (async_swap s) (Inr s')" "as_pc s' = Loop_head" "as_front s' = as_front (async_swap s)"
    "as_lines s' = as_lines s" "as_dropped s' = 0" "all_flushed (be_output (as_back s'))"
    using write_step [OF i1 assms(1) sw(1)] sw assms(7,8) by auto
  have "async_inv E base s'" using async_inv_step [OF i1 assms(1) s'(1)] by blast
  then have "written_text s' = concat (fitting (as_lines s))"
    using s' sw(4) by (auto simp: async_inv_def back_ok_def)
  then show ?thesis using wake [OF assms(6)] s' by (auto simp: fitting_def)
qed

text \<open>A line appended while the back end sleeps for the first time.\<close>

lemma one_line_waiting:
  assumes "length line < kLogBufferSize"
  shows "\<exists>s0 s. async_start witness_fs ''app'' 1000 5 = Inr s0 \<and> ok_steps (async_step witness_fs) s0 s \<and>
     as_pc s = Waiting \<and> as_dropped s = 0 \<and> length (m_used_buffers (as_front s)) \<le> 1 \<and> as_lines s = [line]"
proof -
  obtain s0 where s0: "async_start witness_fs ''app'' 1000 5 = Inr s0" "async_inv witness_fs ''app'' s0" "as_pc s0 = Loop_head"
    "as_dropped s0 = 0" "as_lines s0 = []" "al_is_running (as_front s0)" "m_used_buffers (as_front s0) = []"
    "m_cur_buffer_ptr (as_front s0) = Some (reset_buffer new_log_buffer)"
    using async_start_inv [OF witness_fs_ok, of 1000]
    by (auto simp: async_start_def al_start_def AsyncLogging_init_def backend_init_def Let_def res_simps)
  define s1 where "s1 = s0\<lparr>as_pc := Waiting\<rparr>"
  have t1: "async_step witness_fs s0 (Inr s1)" unfolding s1_def by (rule wait_step [OF s0(2,3,6,7)])
  obtain c where c: "al_append line (as_front s1) = Inr (False, (as_front s1)\<lparr>m_cur_buffer_ptr := Some c\<rparr>)"
    using s0(8) assms by (auto simp: al_append_def s1_def fb_avail_def fb_append_def fb_store_def reset_buffer_def new_log_buffer_def
        FixedBuffer_init_def kLogBufferSize_def)
  define s2 where "s2 = s1\<lparr> as_front := (as_front s1)\<lparr>m_cur_buffer_ptr := Some c\<rparr>, as_lines := [line] \<rparr>"
  have "async_step witness_fs s1 (Inr s2)"
    using append [of witness_fs s1 line] c s0(5) by (simp add: s1_def s2_def)
  then have "ok_steps (async_step witness_fs) s0 s2" using t1 by (blast intro: ok_steps_snoc)
  moreover have "as_pc s2 = Waiting \<and> as_dropped s2 = 0 \<and> length (m_used_buffers (as_front s2)) \<le> 1 \<and> as_lines s2 = [line]"
    using s0(4,7) by (simp add: s2_def s1_def)
  ultimately show ?thesis using s0(1) by blast
qed

theorem async_logging_flushes_witness:
  "\<exists>s s'. ok_steps (async_step witness_fs) s s' \<and> as_lines s' = [''hello''] \<and> written_text s' = ''hello''"
proof -
  obtain s0 s where s: "async_start witness_fs ''app'' 1000 5 = Inr s0" "ok_steps (async_step witness_fs) s0 s" "as_pc s = Waiting"
    "as_dropped s = 0" "length (m_used_buffers (as_front s)) \<le> 1" "as_lines s = [''hello'']"
    using one_line_waiting [of "''hello''"] by (auto simp: kLogBufferSize_def)
  from async_logging_flushes [OF witness_fs_ok s(1-5)] s(6)
  obtain s' where s': "async_step witness_fs s (Inr (async_swap s))" "async_step witness_fs (async_swap s) (Inr s')"
    "as_lines s' = [''hello'']" "written_text s' = ''hello''" by (auto simp: kLogBufferSize_def)
  then show ?thesis using ok_steps_snoc [OF ok_steps_snoc [OF s(2) s'(1)] s'(2)] by blast
qed

text \<open>Stopping loses what was appended during the last round: a line appended while the back end writes, before \<^verbatim>\<open>stop\<close>, is in
  no log file when the back end has ended.\<close>

theorem async_stop_loses_line:
  assumes "fs_ok E" and "0 < t0" and "CHR ''/'' \<notin> set base" and "length line < kLogBufferSize"
  shows "\<exists>s0 s. async_start E base roll t0 = Inr s0 \<and> ok_steps (async_step E) s0 s \<and> as_pc s = Exited \<and>
     as_dropped s = 0 \<and> as_lines s = [line] \<and> written_text s = []"
proof -
  obtain s0 where s0: "async_start E base roll t0 = Inr s0" "async_inv E base s0" "as_pc s0 = Loop_head"
    "as_dropped s0 = 0" "as_lines s0 = []" "al_is_running (as_front s0)" "m_used_buffers (as_front s0) = []"
    using async_start_inv [OF assms(1-3), of roll] by blast
  have inv: "async_inv E base s" if "ok_steps (async_step E) s0 s" for s
    using logging.reachable_inv [OF that, of base] assms(1) s0(2) by blast
  define s1 where "s1 = s0\<lparr>as_pc := Waiting\<rparr>"
  have r1: "ok_steps (async_step E) s0 s1" unfolding s1_def using wait_step [OF s0(2,3,6,7)] by blast
  have pc: "as_pc s1 = Waiting" "as_pc s1 \<noteq> Writing" by (simp_all add: s1_def)
  note r2 = ok_steps_snoc [OF r1 wake [OF pc(1)]] and sw = swap_result [OF inv [OF r1] pc(2)]
  obtain s3 where s3: "async_step E (async_swap s1) (Inr s3)" "as_lines s3 = [line]" "as_pc s3 = Writing" "as_dropped s3 = 0"
    "front_text (as_front s3) = line" "length (buffers_to_write (as_back s3)) = 1"
    using append_step [OF inv [OF r2], of line] sw s0(4,5,7) assms(4) by (auto simp: fitting_def s1_def)
  define s4 where "s4 = s3\<lparr>as_front := al_stop (as_front s3)\<rparr>"
  have "async_step E s3 (Inr s4)" unfolding s4_def by (rule stop)
  note r4 = ok_steps_snoc [OF ok_steps_snoc [OF r2 s3(1)] this]
  have s4: "as_pc s4 = Writing" "as_lines s4 = [line]" "as_dropped s4 = 0" "front_text (as_front s4) = line"
    "\<not> al_is_running (as_front s4)" "length (buffers_to_write (as_back s4)) = 1"
    using s3 by (simp_all add: s4_def al_stop_def front_text_def)
  obtain s5 where s5: "async_step E s4 (Inr s5)" "as_pc s5 = Loop_head" "as_front s5 = as_front s4" "as_lines s5 = [line]" "as_dropped s5 = 0"
    using write_step [OF inv [OF r4] assms(1) s4(1)] s4 by auto
  note r5 = ok_steps_snoc [OF r4 s5(1)]
  obtain s6 where s6: "async_step E s5 (Inr s6)" "as_pc s6 = Exited" "as_front s6 = as_front s4" "as_lines s6 = [line]" "as_dropped s6 = 0"
    using exit_step [OF inv [OF r5] s5(2)] s5 s4(5) by auto
  note r6 = ok_steps_snoc [OF r5 s6(1)]
  have "written_text s6 @ line = line" using inv [OF r6] s6 s4(4) assms(4) by (auto simp: async_inv_def back_ok_def fitting_def)
  then show ?thesis using s0(1) r6 s6 by auto
qed

theorem async_stop_loses_line_witness:
  "\<exists>s0 s. async_start witness_fs ''app'' 1000 5 = Inr s0 \<and> ok_steps (async_step witness_fs) s0 s \<and> as_pc s = Exited \<and>
     as_dropped s = 0 \<and> as_lines s = [''last words''] \<and> written_text s = []"
  using async_stop_loses_line [OF witness_fs_ok, of "''last words''" 1000] by (simp add: kLogBufferSize_def)

end
