(* ===== verification/ProcessInfo.thy ===== *)
theory ProcessInfo
  imports LogFile
begin

text \<open>
  ProcessInfo.h and ProcessInfo.cc: what a process reads about itself. The contents of the files under \<^verbatim>\<open>/proc\<close>, the names in its
  directories and the results of the system calls are arguments; the parsing of them is the code modelled here.
  The CPU time, a quotient of two floating-point numbers, is left out.
\<close>

section \<open>The C library\<close>

text \<open>\<^verbatim>\<open>atoi\<close>: white space, a sign, and digits.\<close>

definition is_digit :: "char \<Rightarrow> bool" where
  "is_digit c \<longleftrightarrow> of_char c \<ge> (48 :: nat) \<and> of_char c \<le> (57 :: nat)"

definition is_space :: "char \<Rightarrow> bool" where
  "is_space c \<longleftrightarrow> c = CHR '' '' \<or> of_char c \<ge> (9 :: nat) \<and> of_char c \<le> (13 :: nat)"

definition atoi :: "string \<Rightarrow> int" where
  "atoi s =
     (let s = dropWhile is_space s
      in if s \<noteq> [] \<and> hd s = CHR ''-'' then - int (dec_val (takeWhile is_digit (tl s)))
         else int (dec_val (takeWhile is_digit (if s \<noteq> [] \<and> hd s = CHR ''+'' then tl s else s))))"

text \<open>\<^verbatim>\<open>string::find\<close> and \<^verbatim>\<open>string::rfind\<close> of a character, \<open>None\<close> for \<^verbatim>\<open>npos\<close>.\<close>

definition str_find :: "char \<Rightarrow> string \<Rightarrow> nat option" where
  "str_find c s = (if cpp_find c s = length s then None else Some (cpp_find c s))"

definition str_rfind :: "char \<Rightarrow> string \<Rightarrow> nat option" where
  "str_rfind c s = (if cpp_find c (rev s) = length s then None else Some (length s - 1 - cpp_find c (rev s)))"

section \<open>Operations\<close>

definition pidString :: "int \<Rightarrow> string" where
  "pidString pid = snprintf 32 (dec_int pid)"

definition username :: "string option \<Rightarrow> string" where
  "username pw_name = (case pw_name of Some n \<Rightarrow> n | None \<Rightarrow> ''unknownuser'')"

definition procname_of :: "string \<Rightarrow> string" where
  "procname_of stat =
     (case (str_find (CHR ''('') stat, str_rfind (CHR '')'') stat) of
        (Some lp, Some rp) \<Rightarrow> if lp < rp then take (rp - lp - 1) (drop (lp + 1) stat) else []
      | _ \<Rightarrow> [])"

text \<open>\<^verbatim>\<open>procStatus\<close> and \<^verbatim>\<open>procStat\<close>: the whole file, up to 64 KB.\<close>

definition proc_file :: "int \<Rightarrow> int \<Rightarrow> char list \<Rightarrow> (nat \<Rightarrow> nat \<Rightarrow> int) \<Rightarrow> (nat \<Rightarrow> int) \<Rightarrow> string" where
  "proc_file fd errno bytes rd rd_errno =
     rr_content (read_file fd errno bytes rd rd_errno (Inl 0) (False, False, False) 65536 [])"

definition procname :: "int \<Rightarrow> int \<Rightarrow> char list \<Rightarrow> (nat \<Rightarrow> nat \<Rightarrow> int) \<Rightarrow> (nat \<Rightarrow> int) \<Rightarrow> string" where
  "procname fd errno bytes rd rd_errno = procname_of (proc_file fd errno bytes rd rd_errno)"

definition thread_stat_path :: "int \<Rightarrow> string" where
  "thread_stat_path tid = snprintf 64 (''/proc/self/task/'' @ dec_int tid @ ''/stat'')"

definition exePath :: "int \<Rightarrow> char list \<Rightarrow> string" where
  "exePath n buf = (if n > 0 then take (nat n) buf else [])"

text \<open>The filters of \<^verbatim>\<open>scandir\<close> count, or collect, the names that start with a digit.\<close>

definition openedFiles :: "string list \<Rightarrow> int" where
  "openedFiles names = int (length (filter (\<lambda>n. n \<noteq> [] \<and> is_digit (hd n)) names))"

definition maxOpenFiles :: "int option \<Rightarrow> string list \<Rightarrow> int" where
  "maxOpenFiles rlim names = (case rlim of None \<Rightarrow> openedFiles names | Some n \<Rightarrow> cast_int32 n)"

definition proc_threads :: "string list \<Rightarrow> int list" where
  "proc_threads names = sort (map atoi (filter (\<lambda>n. n \<noteq> [] \<and> is_digit (hd n)) names))"

definition numThreads :: "string \<Rightarrow> int" where
  "numThreads status =
     (let pos = cpp_search ''Threads:'' status
      in if pos < length status then atoi (drop (pos + 8) status) else 0)"

section \<open>Lemmas\<close>

lemma str_find_append: "c \<notin> set pre \<Longrightarrow> str_find c (pre @ c # post) = Some (length pre)"
  by (simp add: str_find_def cpp_find_append)

lemma str_rfind_append: "c \<notin> set post \<Longrightarrow> str_rfind c (pre @ c # post) = Some (length pre)"
  by (simp add: str_rfind_def cpp_find_append)

lemma is_digit_mem: "is_digit c" if "c \<in> set ''0123456789''"
  using that by (auto simp: is_digit_def)

lemma takeWhile_digits: "takeWhile is_digit (dec_nat n @ rest) = dec_nat n" if "rest = [] \<or> \<not> is_digit (hd rest)"
proof -
  have "\<forall>c \<in> set (dec_nat n). is_digit c" using dec_nat_digits is_digit_mem by blast
  then show ?thesis using that by (cases rest) (auto simp: takeWhile_append)
qed

lemma hd_dec_nat: "hd (dec_nat n) \<in> set ''0123456789''"
  using dec_nat_digits [of "hd (dec_nat n)" n] by simp

text \<open>Reading a printed number behind white space gives the number.\<close>

lemma atoi_dec:
  assumes "\<forall>c \<in> set ws. is_space c" and "rest = [] \<or> \<not> is_digit (hd rest)"
  shows "atoi (ws @ dec_nat n @ rest) = int n"
proof -
  obtain c ds where d: "dec_nat n = c # ds" by (cases "dec_nat n") auto
  have c: "c \<in> set ''0123456789''" using hd_dec_nat [of n] d by simp
  then have "\<not> is_space c" "c \<noteq> CHR ''-''" "c \<noteq> CHR ''+''" by (auto simp: is_space_def)
  then have "dropWhile is_space (ws @ dec_nat n @ rest) = dec_nat n @ rest"
    using assms(1) d by (simp add: dropWhile_append)
  then show ?thesis using takeWhile_digits [OF assms(2), of n] dec_val_dec_nat [of n] d \<open>c \<noteq> CHR ''-''\<close> \<open>c \<noteq> CHR ''+''\<close> by (simp add: atoi_def Let_def)
qed

section \<open>Properties\<close>

text \<open>The name of the process is what stands between the first and the last parenthesis, even when it contains parentheses itself.\<close>

theorem procname_correct:
  assumes "CHR ''('' \<notin> set pid" and "CHR '')'' \<notin> set rest"
  shows "procname_of (pid @ ''('' @ name @ '')'' @ rest) = name"
proof -
  have "str_find (CHR ''('') (pid @ ''('' @ name @ '')'' @ rest) = Some (length pid)"
    using str_find_append [OF assms(1)] by simp
  moreover have "str_rfind (CHR '')'') (pid @ ''('' @ name @ '')'' @ rest) = Some (length pid + 1 + length name)"
    using str_rfind_append [OF assms(2), of "pid @ ''('' @ name"] by simp
  ultimately show ?thesis by (simp add: procname_of_def)
qed

text \<open>The number of threads is the numeral behind the first \<^verbatim>\<open>Threads:\<close> of the status file, whatever surrounds it.\<close>

theorem numThreads_correct:
  assumes "\<forall>j < length pre. take 8 (drop j (pre @ ''Threads:'' @ ws @ dec_nat n @ rest)) \<noteq> ''Threads:''"
    and "\<forall>c \<in> set ws. is_space c" and "rest = [] \<or> \<not> is_digit (hd rest)"
  shows "numThreads (pre @ ''Threads:'' @ ws @ dec_nat n @ rest) = int n"
proof -
  have "cpp_search ''Threads:'' (pre @ ''Threads:'' @ ws @ dec_nat n @ rest) = length pre"
  proof (rule cpp_search_at [OF refl])
    have "length ''Threads:'' = 8" by simp
    then show "\<forall>j < length pre. take (length ''Threads:'') (drop j (pre @ ''Threads:'' @ ws @ dec_nat n @ rest)) \<noteq> ''Threads:''"
      using assms(1) by metis
  qed simp
  then show ?thesis using atoi_dec [OF assms(2,3), of n] by (simp add: numThreads_def)
qed

theorem numThreads_correct_witness:
  "numThreads (''Pid:'' @ [CHR 0x0A] @ ''Threads:'' @ [CHR 0x09] @ ''12'' @ [CHR 0x0A] @ ''SigQ:'') = 12"
proof -
  have d: "dec_nat 12 = ''12''" by code_simp
  have "\<forall>j < 5. take 8 (drop j (''Pid:'' @ [CHR 0x0A] @ ''Threads:'' @ [CHR 0x09] @ dec_nat 12 @ [CHR 0x0A] @ ''SigQ:'')) \<noteq> ''Threads:''"
    unfolding d by code_simp
  then show ?thesis
    using numThreads_correct [of "''Pid:'' @ [CHR 0x0A]" "[CHR 0x09]" 12 "[CHR 0x0A] @ ''SigQ:''"] d
    by (simp add: is_space_def is_digit_def)
qed

lemma proc_threads_sorted: "sorted (proc_threads names)" "length (proc_threads names) = nat (openedFiles names)"
  by (simp_all add: proc_threads_def openedFiles_def)

end
