(* ===== verification/ZlibStream.thy ===== *)
theory ZlibStream
  imports Buffer "HOL-Library.While_Combinator"
begin

text \<open>
  ZlibStream.h: the compressing stream \<^verbatim>\<open>ZlibOutputStream\<close>. The zlib function \<^verbatim>\<open>deflate\<close> is a parameter: from its flush mode, its
  internal state, the input and the room for output it gives the number of input bytes consumed, the bytes
  produced, its new state and its return value. \<^verbatim>\<open>ZlibInputStream\<close> is declared and never defined in the source.
\<close>

definition Z_OK :: int where "Z_OK = 0"
definition Z_STREAM_END :: int where "Z_STREAM_END = 1"
definition Z_BUF_ERROR :: int where "Z_BUF_ERROR = - 5"
definition Z_NO_FLUSH :: int where "Z_NO_FLUSH = 0"
definition Z_FINISH :: int where "Z_FINISH = 4"

type_synonym 's deflate = "int \<Rightarrow> 's \<Rightarrow> char list \<Rightarrow> nat \<Rightarrow> nat \<times> char list \<times> 's \<times> int"

text \<open>\<open>zo_next_in\<close> is the array that \<^verbatim>\<open>next_in\<close> points into and the position in it, \<open>None\<close> the null pointer; \<open>zo_in\<close> and \<open>zo_out\<close> are the
  bytes whose numbers \<^verbatim>\<open>total_in\<close> and \<^verbatim>\<open>total_out\<close> count. Lengths stay below the range of \<^verbatim>\<open>int\<close>.\<close>

record 's zlib_out =
  zo_output :: buffer
  zo_next_in :: "(char list \<times> nat) option"
  zo_avail_in :: nat
  zo_state :: 's
  zo_in :: "char list"
  zo_out :: "char list"
  zo_error :: int
  zo_bufferSize :: nat

definition ZlibOutputStream_init :: "'s \<Rightarrow> int \<Rightarrow> buffer \<Rightarrow> 's zlib_out" where
  "ZlibOutputStream_init s0 init_error output =
     \<lparr> zo_output = output, zo_next_in = None, zo_avail_in = 0, zo_state = s0, zo_in = [], zo_out = [],
       zo_error = init_error, zo_bufferSize = 1024 \<rparr>"

definition inputBytes :: "'s zlib_out \<Rightarrow> nat" where "inputBytes z = length (zo_in z)"
definition outputBytes :: "'s zlib_out \<Rightarrow> nat" where "outputBytes z = length (zo_out z)"

definition zo_input :: "'s zlib_out \<Rightarrow> char list" where
  "zo_input z = (case zo_next_in z of None \<Rightarrow> [] | Some (a, i) \<Rightarrow> take (zo_avail_in z) (drop i a))"

definition compress :: "'s deflate \<Rightarrow> int \<Rightarrow> 's zlib_out \<Rightarrow> (int \<times> 's zlib_out) res" where
  "compress deflate flush z =
     rbind (ensure_writable_len (zo_bufferSize z) (zo_output z)) (\<lambda>b.
       case deflate flush (zo_state z) (zo_input z) (writable_bytes_len b) of (k, out, s, error) \<Rightarrow>
       let avail_out = writable_bytes_len b - length out; b = b\<lparr>m_buffer := copy_at (m_buffer b) (m_write_idx b) out\<rparr>
       in rbind (mark_written (writable_bytes_len b - avail_out) b) (\<lambda>b. Inr (error,
            z\<lparr> zo_output := b, zo_next_in := map_option (\<lambda>(a, i). (a, i + k)) (zo_next_in z), zo_avail_in := zo_avail_in z - k,
               zo_state := s, zo_in := zo_in z @ take k (zo_input z), zo_out := zo_out z @ out,
               zo_bufferSize := if writable_bytes_len b = 0 \<and> zo_bufferSize z < 65536 then 2 * zo_bufferSize z else zo_bufferSize z \<rparr>)))"

text \<open>One round of a loop that assigns \<^verbatim>\<open>zerror_ = compress(flush)\<close>.\<close>

definition zlib_round :: "'s deflate \<Rightarrow> int \<Rightarrow> 's zlib_out res \<Rightarrow> 's zlib_out res" where
  "zlib_round deflate flush r = rbind r (\<lambda>z. rbind (compress deflate flush z) (\<lambda>(e, z). Inr (z\<lparr>zo_error := e\<rparr>)))"

definition zlib_going :: "('s zlib_out \<Rightarrow> bool) \<Rightarrow> 's zlib_out res \<Rightarrow> bool" where
  "zlib_going p r = (case r of Inl _ \<Rightarrow> False | Inr z \<Rightarrow> zo_error z = Z_OK \<and> p z)"

definition zlib_write :: "'s deflate \<Rightarrow> char list \<Rightarrow> 's zlib_out \<Rightarrow> (bool \<times> 's zlib_out) res option" where
  "zlib_write deflate buf z =
     (if zo_error z \<noteq> Z_OK then Some (Inr (False, z))
      else map_option
        (\<lambda>r. rbind r (\<lambda>z.
           rbind (if zo_avail_in z = 0
                  then massert (zo_next_in z = Some (buf, length buf)) ''next_in == buf.end()'' (Inr (z\<lparr>zo_next_in := None\<rparr>))
                  else Inr z) (\<lambda>z. Inr (zo_error z = Z_OK, z))))
        (while_option (zlib_going (\<lambda>z. 0 < zo_avail_in z)) (zlib_round deflate Z_NO_FLUSH)
          (massert (zo_next_in z = None \<and> zo_avail_in z = 0) ''next_in == NULL && avail_in == 0''
            (Inr (z\<lparr> zo_next_in := Some (buf, 0), zo_avail_in := length buf \<rparr>)))))"

text \<open>Writing a buffer compresses once and retrieves what was consumed.\<close>

definition zlib_write_buffer :: "'s deflate \<Rightarrow> buffer \<Rightarrow> 's zlib_out \<Rightarrow> (bool \<times> buffer \<times> 's zlib_out) res" where
  "zlib_write_buffer deflate input z =
     (if zo_error z \<noteq> Z_OK then Inr (False, input, z)
      else let z = z\<lparr> zo_next_in := Some (contents input, 0), zo_avail_in := content_bytes_len input \<rparr>
           in rbind (if 0 < zo_avail_in z \<and> zo_error z = Z_OK then zlib_round deflate Z_NO_FLUSH (Inr z) else Inr z) (\<lambda>z.
              rbind (retrieve (content_bytes_len input - zo_avail_in z) input) (\<lambda>input. Inr (zo_error z = Z_OK, input, z))))"

definition zlib_finish :: "'s deflate \<Rightarrow> ('s \<Rightarrow> int) \<Rightarrow> 's zlib_out \<Rightarrow> (bool \<times> 's zlib_out) res option" where
  "zlib_finish deflate deflateEnd z =
     (if zo_error z \<noteq> Z_OK then Some (Inr (False, z))
      else map_option (\<lambda>r. rbind r (\<lambda>z. Inr (deflateEnd (zo_state z) = Z_OK, z\<lparr>zo_error := Z_STREAM_END\<rparr>)))
        (while_option (zlib_going (\<lambda>z. True)) (zlib_round deflate Z_FINISH) (Inr z)))"

section \<open>What zlib promises\<close>

text \<open>\<^verbatim>\<open>deflate\<close> consumes no more than the input, produces no more than there is room for, and, with room, returns \<^verbatim>\<open>Z_OK\<close> only when it has
  made progress: it has consumed input, or produced some of the output it still holds. \<open>rank\<close> counts that output.\<close>

definition deflate_ok :: "('s \<Rightarrow> nat) \<Rightarrow> 's deflate \<Rightarrow> bool" where
  "deflate_ok rank deflate \<longleftrightarrow> (\<forall>flush s inp n k out s' e. deflate flush s inp n = (k, out, s', e) \<longrightarrow>
     k \<le> length inp \<and> length out \<le> n \<and> (0 < n \<and> e = Z_OK \<longrightarrow> 0 < k \<or> rank s' < rank s))"

text \<open>A compressor that stores its input and hands it out as there is room.\<close>

fun store_deflate :: "char list deflate" where
  "store_deflate flush s inp n =
     (length inp, take n (s @ inp), drop n (s @ inp),
      if flush = Z_FINISH then (if length (s @ inp) \<le> n then Z_STREAM_END else Z_OK)
      else if s @ inp = [] then Z_BUF_ERROR else Z_OK)"

lemma store_deflate_ok: "deflate_ok length store_deflate"
  by (auto simp: deflate_ok_def Z_OK_def Z_STREAM_END_def Z_BUF_ERROR_def Z_FINISH_def)

section \<open>Invariant\<close>

definition zlib_inv :: "'s zlib_out \<Rightarrow> bool" where
  "zlib_inv z \<longleftrightarrow> buf_inv (zo_output z) \<and> (\<exists>j\<le>6. zo_bufferSize z = 1024 * 2 ^ j)"

definition zlib_ready :: "'s zlib_out \<Rightarrow> bool" where
  "zlib_ready z \<longleftrightarrow> zlib_inv z \<and> zo_error z = Z_OK \<and> zo_next_in z = None \<and> zo_avail_in z = 0"

text \<open>\<open>z'\<close> has consumed the first \<open>k\<close> bytes of the input of \<open>z\<close>, and whatever deflate produced is behind the old output.\<close>

definition zlib_advances :: "'s zlib_out \<Rightarrow> nat \<Rightarrow> 's zlib_out \<Rightarrow> bool" where
  "zlib_advances z k z' \<longleftrightarrow>
     k \<le> length (zo_input z) \<and> zo_next_in z' = map_option (\<lambda>(a, i). (a, i + k)) (zo_next_in z) \<and>
     zo_avail_in z' = zo_avail_in z - k \<and> zo_in z' = zo_in z @ take k (zo_input z) \<and>
     (\<exists>out. zo_out z' = zo_out z @ out \<and> contents (zo_output z') = contents (zo_output z) @ out)"

lemma bufferSize_doubles:
  assumes "\<exists>j\<le>6. n = 1024 * 2 ^ j"
  shows "\<exists>j\<le>6. (if p \<and> n < 65536 then 2 * n else n) = 1024 * (2::nat) ^ j"
proof (cases "p \<and> n < 65536")
  case True
  obtain j where j: "j \<le> 6" "n = 1024 * 2 ^ j" using assms by blast
  then have "j \<noteq> 6" using True by auto
  then show ?thesis using True j by (intro exI [of _ "Suc j"]) auto
qed (use assms in auto)

lemma compress_spec:
  assumes "deflate_ok rank deflate" and "zlib_inv z"
  shows "\<exists>e z' k. compress deflate flush z = Inr (e, z') \<and> zlib_inv z' \<and> zlib_advances z k z' \<and>
    (e = Z_OK \<longrightarrow> 0 < k \<or> rank (zo_state z') < rank (zo_state z))"
proof -
  have b: "buf_inv (zo_output z)" and bs: "\<exists>j\<le>6. zo_bufferSize z = 1024 * 2 ^ j" using assms(2) by (auto simp: zlib_inv_def)
  then have pos: "0 < zo_bufferSize z" by auto
  obtain b1 where b1: "ensure_writable_len (zo_bufferSize z) (zo_output z) = Inr b1" "buf_inv b1"
    "contents b1 = contents (zo_output z)" "zo_bufferSize z \<le> writable_bytes_len b1"
    using ensure_writable_len_spec [OF b] by blast
  obtain k out s e where d: "deflate flush (zo_state z) (zo_input z) (writable_bytes_len b1) = (k, out, s, e)"
    by (metis prod_cases4)
  then have ok: "k \<le> length (zo_input z)" "length out \<le> writable_bytes_len b1"
    "0 < writable_bytes_len b1 \<Longrightarrow> e = Z_OK \<Longrightarrow> 0 < k \<or> rank s < rank (zo_state z)"
    using assms(1) unfolding deflate_ok_def by blast+
  obtain b2 where b2: "mark_written (length out) (b1\<lparr>m_buffer := copy_at (m_buffer b1) (m_write_idx b1) out\<rparr>) = Inr b2"
    "buf_inv b2" "contents b2 = contents b1 @ out"
    using fill_and_mark_spec [OF b1(2) ok(2)] by blast
  have w: "writable_bytes_len (b1\<lparr>m_buffer := copy_at (m_buffer b1) (m_write_idx b1) out\<rparr>) = writable_bytes_len b1"
    using ok(2) b1(2) by (auto simp: writable_bytes_len_def buf_inv_def copy_at_def)
  let ?n = "if writable_bytes_len b2 = 0 \<and> zo_bufferSize z < 65536 then 2 * zo_bufferSize z else zo_bufferSize z"
  let ?z = "z\<lparr> zo_output := b2, zo_next_in := map_option (\<lambda>(a, i). (a, i + k)) (zo_next_in z), zo_avail_in := zo_avail_in z - k,
    zo_state := s, zo_in := zo_in z @ take k (zo_input z), zo_out := zo_out z @ out, zo_bufferSize := ?n \<rparr>"
  have "compress deflate flush z = Inr (e, ?z)"
    using b2(1) ok(2) by (simp add: compress_def b1(1) d w)
  moreover have "zlib_inv ?z"
    using b2(2) bufferSize_doubles [OF bs, of "writable_bytes_len b2 = 0"] by (simp add: zlib_inv_def del: if_split)
  moreover have "zlib_advances z k ?z" using ok(1) b1(3) b2(3) by (simp add: zlib_advances_def)
  moreover have "e = Z_OK \<longrightarrow> 0 < k \<or> rank (zo_state ?z) < rank (zo_state z)" using ok(3) b1(4) pos by simp
  ultimately show ?thesis by blast
qed

lemma zlib_round_spec:
  assumes "deflate_ok rank deflate" and "zlib_inv z"
  shows "\<exists>z' k. zlib_round deflate flush (Inr z) = Inr z' \<and> zlib_inv z' \<and> zlib_advances z k z' \<and>
    (zo_error z' = Z_OK \<longrightarrow> 0 < k \<or> rank (zo_state z') < rank (zo_state z))"
proof -
  obtain e z' k where c: "compress deflate flush z = Inr (e, z')" "zlib_inv z'" "zlib_advances z k z'"
    "e = Z_OK \<longrightarrow> 0 < k \<or> rank (zo_state z') < rank (zo_state z)"
    using compress_spec [OF assms] by metis
  then show ?thesis
    by (intro exI [of _ "z'\<lparr>zo_error := e\<rparr>"] exI [of _ k]) (simp add: zlib_round_def zlib_inv_def zlib_advances_def)
qed

lemma length_zo_input: "length (zo_input z) \<le> zo_avail_in z"
  by (auto simp: zo_input_def split: option.split)

lemma zlib_advances_refl: "zlib_advances z 0 z"
  by (cases "zo_next_in z") (auto simp: zlib_advances_def)

lemma zlib_advances_input: "zlib_advances z k z' \<Longrightarrow> zo_input z' = drop k (zo_input z)"
  by (cases "zo_next_in z") (auto simp: zlib_advances_def zo_input_def drop_take add.commute)

lemma zlib_advances_trans:
  assumes "zlib_advances z k z1" and "zlib_advances z1 l z2"
  shows "zlib_advances z (k + l) z2"
  using assms zlib_advances_input [OF assms(1)]
  by (cases "zo_next_in z") (auto simp: zlib_advances_def take_add add.assoc)

definition zlib_measure :: "('s \<Rightarrow> nat) \<Rightarrow> 's zlib_out res \<Rightarrow> nat \<times> nat" where
  "zlib_measure rank r =
     (case r of Inl _ \<Rightarrow> (0, 0) | Inr z \<Rightarrow> if zo_error z = Z_OK then (Suc (zo_avail_in z), rank (zo_state z)) else (0, 0))"

text \<open>Each round consumes input or drains what deflate holds, so every loop ends.\<close>

lemma zlib_loop:
  fixes z :: "'a zlib_out"
  assumes "deflate_ok rank deflate" and "zlib_inv z"
  shows "\<exists>z' k. while_option (zlib_going p) (zlib_round deflate flush) (Inr z) = Some (Inr z') \<and>
    zlib_inv z' \<and> zlib_advances z k z' \<and> \<not> (zo_error z' = Z_OK \<and> p z')"
proof -
  define I where "I r \<longleftrightarrow> (\<exists>z' k. r = Inr z' \<and> zlib_inv z' \<and> zlib_advances z k z')" for r :: "'a zlib_out res"
  let ?b = "zlib_going p" and ?c = "zlib_round deflate flush"
  have keep: "I (?c r)" if "I r" for r
    using that zlib_round_spec [OF assms(1)] zlib_advances_trans unfolding I_def by (metis (no_types, lifting))
  have "(zlib_measure rank (?c r), zlib_measure rank r) \<in> less_than <*lex*> less_than" if r: "I r" and b: "?b r" for r
  proof -
    obtain z1 where r: "r = Inr z1" "zlib_inv z1" using r I_def by blast
    obtain z2 k where "?c r = Inr z2" "zlib_advances z1 k z2"
      "zo_error z2 = Z_OK \<longrightarrow> 0 < k \<or> rank (zo_state z2) < rank (zo_state z1)"
      using zlib_round_spec [OF assms(1) r(2)] r(1) by metis
    then show ?thesis using b length_zo_input [of z1]
      by (auto simp: r(1) zlib_measure_def zlib_going_def zlib_advances_def)
  qed
  then have "{(t, s). (I s \<and> ?b s) \<and> t = ?c s} \<subseteq> inv_image (less_than <*lex*> less_than) (zlib_measure rank)" by auto
  then have wf: "wf {(t, s). (I s \<and> ?b s) \<and> t = ?c s}" by (rule wf_subset [rotated]) auto
  have start: "I (Inr z)" unfolding I_def using assms(2) zlib_advances_refl by blast
  obtain r where r: "while_option ?b ?c (Inr z) = Some r"
    using wf_while_option_Some [OF wf _ start] keep by blast
  moreover have "I r" using while_option_rule [where P = I, OF _ r start] keep by blast
  moreover have "\<not> ?b r" using while_option_stop [OF r] .
  ultimately show ?thesis by (auto simp: zlib_going_def I_def)
qed

section \<open>Properties\<close>

text \<open>
  C28: Writing a piece of memory to the compressing stream ends, fails no assertion, and hands the bytes of the piece to deflate in order,
  all of them when it reports success; exactly what deflate produces is added to the output buffer, and the stream is
  ready for the next piece. This holds for every compressor that keeps zlib's promises.
\<close>

theorem zlib_write_correct:
  assumes "deflate_ok rank deflate" and "zlib_ready z"
  shows "\<exists>ok z' n out. zlib_write deflate buf z = Some (Inr (ok, z')) \<and> zlib_inv z' \<and> n \<le> length buf \<and>
    zo_in z' = zo_in z @ take n buf \<and> zo_out z' = zo_out z @ out \<and>
    contents (zo_output z') = contents (zo_output z) @ out \<and> (ok \<longrightarrow> n = length buf \<and> zlib_ready z')"
proof -
  let ?z = "z\<lparr> zo_next_in := Some (buf, 0), zo_avail_in := length buf \<rparr>"
  have i: "zlib_inv ?z" "zo_input ?z = buf" and z: "zo_error z = Z_OK" "zo_next_in z = None" "zo_avail_in z = 0"
    using assms(2) by (simp_all add: zlib_ready_def zlib_inv_def zo_input_def)
  obtain z1 k where l: "while_option (zlib_going (\<lambda>z. 0 < zo_avail_in z)) (zlib_round deflate Z_NO_FLUSH) (Inr ?z) = Some (Inr z1)"
    "zlib_inv z1" "zlib_advances ?z k z1" "\<not> (zo_error z1 = Z_OK \<and> 0 < zo_avail_in z1)"
    using zlib_loop [OF assms(1) i(1)] by blast
  have a: "k \<le> length buf" "zo_next_in z1 = Some (buf, k)" "zo_avail_in z1 = length buf - k" "zo_in z1 = zo_in z @ take k buf"
    using l(3) i(2) by (auto simp: zlib_advances_def)
  obtain out where out: "zo_out z1 = zo_out z @ out" "contents (zo_output z1) = contents (zo_output z) @ out"
    using l(3) by (auto simp: zlib_advances_def)
  show ?thesis
  proof (cases "k = length buf")
    case True
    have "zlib_write deflate buf z = Some (Inr (zo_error z1 = Z_OK, z1\<lparr>zo_next_in := None\<rparr>))"
      using z l(1) a True by (simp add: zlib_write_def)
    then show ?thesis using l(2) a out True
      by (intro exI [of _ "zo_error z1 = Z_OK"] exI [of _ "z1\<lparr>zo_next_in := None\<rparr>"] exI [of _ k] exI [of _ out])
        (simp add: zlib_ready_def zlib_inv_def)
  next
    case False
    then have "zo_avail_in z1 \<noteq> 0" "zo_error z1 \<noteq> Z_OK" using a l(4) by auto
    then have "zlib_write deflate buf z = Some (Inr (False, z1))" using z l(1) by (simp add: zlib_write_def)
    then show ?thesis using l(2) a out by blast
  qed
qed

theorem zlib_write_correct_witness:
  "deflate_ok length store_deflate \<and> zlib_ready (ZlibOutputStream_init ([] :: char list) Z_OK (Buffer_init 16)) \<and>
   (\<exists>ok z' n out. zlib_write store_deflate ''hello'' (ZlibOutputStream_init [] Z_OK (Buffer_init 16)) = Some (Inr (ok, z')) \<and>
      zlib_inv z' \<and> n \<le> 5 \<and> zo_in z' = take n ''hello'' \<and> zo_out z' = out \<and> contents (zo_output z') = out \<and>
      (ok \<longrightarrow> n = 5 \<and> zlib_ready z'))"
proof -
  let ?z = "ZlibOutputStream_init [] Z_OK (Buffer_init 16) :: char list zlib_out"
  have r: "zlib_ready ?z"
    by (auto simp: zlib_ready_def zlib_inv_def ZlibOutputStream_init_def intro: exI [of _ 0])
  have "zo_in ?z = []" "zo_out ?z = []" "contents (zo_output ?z) = []" "length ''hello'' = 5"
    by (simp_all add: ZlibOutputStream_init_def)
  then show ?thesis
    using zlib_write_correct [OF store_deflate_ok r, of "''hello''"] store_deflate_ok r by (simp only: append_Nil)
qed

text \<open>Finishing the stream ends and adds what deflate still produces; afterwards every write is refused.\<close>

theorem zlib_finish_correct:
  assumes "deflate_ok rank deflate" and "zlib_inv z" and "zo_error z = Z_OK"
  shows "\<exists>ok z' out. zlib_finish deflate deflateEnd z = Some (Inr (ok, z')) \<and> zlib_inv z' \<and>
    zo_out z' = zo_out z @ out \<and> contents (zo_output z') = contents (zo_output z) @ out \<and>
    zlib_write deflate buf z' = Some (Inr (False, z'))"
proof -
  obtain z1 k where l: "while_option (zlib_going (\<lambda>z. True)) (zlib_round deflate Z_FINISH) (Inr z) = Some (Inr z1)"
    "zlib_inv z1" "zlib_advances z k z1"
    using zlib_loop [OF assms(1,2)] by blast
  let ?z = "z1\<lparr>zo_error := Z_STREAM_END\<rparr>"
  obtain out where "zo_out z1 = zo_out z @ out" "contents (zo_output z1) = contents (zo_output z) @ out"
    using l(3) by (auto simp: zlib_advances_def)
  moreover have "zlib_finish deflate deflateEnd z = Some (Inr (deflateEnd (zo_state z1) = Z_OK, ?z))"
    using l(1) assms(3) by (simp add: zlib_finish_def)
  moreover have "zlib_write deflate buf ?z = Some (Inr (False, ?z))" by (simp add: zlib_write_def Z_OK_def Z_STREAM_END_def)
  ultimately show ?thesis using l(2) by (intro exI [of _ "deflateEnd (zo_state z1) = Z_OK"] exI [of _ ?z] exI [of _ out])
    (simp add: zlib_inv_def)
qed

text \<open>Writing a buffer leaves \<^verbatim>\<open>next_in\<close> pointing into it; the next write of a piece of memory then fails its assertion.\<close>

lemma zlib_round_next_in: "zlib_round deflate flush (Inr z) = Inr z' \<Longrightarrow> zo_next_in z \<noteq> None \<Longrightarrow> zo_next_in z' \<noteq> None"
  by (auto simp: zlib_round_def compress_def Let_def rbind_eq_Inr_iff case_prod_beta)

lemma zlib_loop_aborted: "while_option (zlib_going p) c (Inl e) = Some (Inl e)"
  by (subst while_option_unfold) (simp add: zlib_going_def)

theorem zlib_write_after_buffer_fails:
  assumes "zo_error z = Z_OK" and "zlib_write_buffer deflate input z = Inr (True, input', z')"
  shows "zlib_write deflate buf z' = Some (Inl (AssertFailed ''next_in == NULL && avail_in == 0''))"
proof -
  have "zo_next_in z' \<noteq> None" "zo_error z' = Z_OK"
    using assms zlib_round_next_in [where z = "z\<lparr> zo_next_in := Some (contents input, 0), zo_avail_in := content_bytes_len input \<rparr>"]
    by (auto simp: zlib_write_buffer_def Let_def rbind_eq_Inr_iff split: if_splits)
  then show ?thesis
    by (auto simp: zlib_write_def massert_def zlib_loop_aborted)
qed

end
