(* ===== verification/Stacktrace.thy ===== *)
theory Stacktrace
  imports Flute_Prelude
begin

text \<open>
  \<^verbatim>\<open>CurrentThread::stacktrace\<close> (CurrentThread.cc) and the exception that carries one (Exception.h, Exception.cc). The texts of the frames,
  as \<^verbatim>\<open>backtrace_symbols\<close> gives them, are an argument, \<open>None\<close> when it fails; so is the demangler, \<open>None\<close> when its status is not 0.
\<close>

text \<open>The last opening parenthesis and the last plus sign of a frame.\<close>

fun scan_frame :: "nat \<Rightarrow> string \<Rightarrow> nat option \<times> nat option \<Rightarrow> nat option \<times> nat option" where
  "scan_frame p [] r = r"
| "scan_frame p (c # cs) (left_par, plus_pos) =
     scan_frame (Suc p) cs
       (if c = CHR ''('' then (Some p, plus_pos) else if c = CHR ''+'' then (left_par, Some p) else (left_par, plus_pos))"

text \<open>With the plus sign replaced by a NUL the mangled name ends there, unless the sign comes before the parenthesis.\<close>

definition demangle_frame :: "(string \<Rightarrow> string option) \<Rightarrow> string \<Rightarrow> string option" where
  "demangle_frame demangler s =
     (case scan_frame 0 s (None, None) of
        (Some left_par, Some plus_pos) \<Rightarrow>
          let mangled = if left_par < plus_pos then take (plus_pos - (left_par + 1)) (drop (left_par + 1) s) else drop (left_par + 1) s
          in (case demangler mangled of
                Some demangled \<Rightarrow> Some (take (left_par + 1) s @ demangled @ drop plus_pos s)
              | None \<Rightarrow> None)
      | _ \<Rightarrow> None)"

definition frame_line :: "(string \<Rightarrow> string option) \<Rightarrow> bool \<Rightarrow> string \<Rightarrow> string" where
  "frame_line demangler demangle s =
     (case if demangle then demangle_frame demangler s else None of
        Some t \<Rightarrow> t @ [CHR 0x0A]
      | None \<Rightarrow> s @ [CHR 0x0A])"

definition max_frames :: nat where "max_frames = 200"

text \<open>The first frame is the function itself.\<close>

definition stacktrace :: "(string \<Rightarrow> string option) \<Rightarrow> bool \<Rightarrow> string list option \<Rightarrow> string" where
  "stacktrace demangler demangle strings =
     (case strings of
        None \<Rightarrow> []
      | Some fs \<Rightarrow> concat (map (frame_line demangler demangle) (drop 1 (take max_frames fs))))"

record exception =
  m_message_str :: string
  m_stack_str :: string

definition Exception_init :: "(string \<Rightarrow> string option) \<Rightarrow> string list option \<Rightarrow> string \<Rightarrow> exception" where
  "Exception_init demangler strings msg = \<lparr> m_message_str = msg, m_stack_str = stacktrace demangler False strings \<rparr>"

section \<open>Lemmas\<close>

lemma scan_frame_append: "scan_frame p (xs @ ys) r = scan_frame (p + length xs) ys (scan_frame p xs r)"
  by (induction p xs r rule: scan_frame.induct) auto

lemma scan_frame_none: "CHR ''('' \<notin> set xs \<Longrightarrow> CHR ''+'' \<notin> set xs \<Longrightarrow> scan_frame p xs r = r"
  by (induction p xs r rule: scan_frame.induct) auto

lemma scan_frame_typical:
  assumes "CHR ''('' \<notin> set (name @ rest)" and "CHR ''+'' \<notin> set (name @ rest)"
  shows "scan_frame 0 (pre @ CHR ''('' # name @ CHR ''+'' # rest) (None, None) = (Some (length pre), Some (length pre + length name + 1))"
proof -
  obtain l q where "scan_frame 0 pre (None, None) = (l, q)" by fastforce
  then show ?thesis using assms by (simp add: scan_frame_append scan_frame_none)
qed

text \<open>In a frame of the usual form the mangled name is replaced, and nothing else; a name that cannot be demangled stays.\<close>

theorem frame_line_demangles:
  assumes "CHR ''('' \<notin> set (name @ rest)" and "CHR ''+'' \<notin> set (name @ rest)"
  shows "frame_line demangler True (pre @ CHR ''('' # name @ CHR ''+'' # rest) =
    pre @ CHR ''('' # (case demangler name of Some d \<Rightarrow> d | None \<Rightarrow> name) @ CHR ''+'' # rest @ [CHR 0x0A]"
  by (cases "demangler name")
    (simp_all add: frame_line_def demangle_frame_def scan_frame_typical [OF assms])

text \<open>Without demangling the trace is the frames themselves, one a line, but for the first.\<close>

theorem stacktrace_plain:
  assumes "length fs \<le> max_frames"
  shows "m_stack_str (Exception_init demangler (Some fs) msg) = concat (map (\<lambda>s. s @ [CHR 0x0A]) (drop 1 fs))"
  using assms by (simp add: Exception_init_def stacktrace_def frame_line_def [abs_def])

end
