(* ===== verification/Spec2Isabelle.thy ===== *)
theory Spec2Isabelle
  imports Buffer Timezone Digital Logging StringPiece EPollPoller PollPoller Reactor ZeroCopier TcpConnection Http Connector TcpServer
    TcpClient Deques TaskPool Sockets SocketOptions ReactorThread AsyncLogging ProcessInfo ZlibStream Stacktrace
begin

text \<open>
  A verification of flute, a TCP network library in C++ for servers with one event loop per thread.

  \<^bold>\<open>The program.\<close> A \<^verbatim>\<open>Reactor\<close> (flute/net/Reactor.cc) is the event loop of one thread. It asks a \<^verbatim>\<open>Poller\<close> (epoll or poll) for the
  descriptors that are ready, lets their \<^verbatim>\<open>Channel\<close>s dispatch the events, fires timers through its \<^verbatim>\<open>TimerQueue\<close>, and runs the tasks
  that other threads queued for it and announced through an eventfd. A \<^verbatim>\<open>TcpServer\<close> accepts connections with an
  \<^verbatim>\<open>Acceptor\<close> and spreads them over a \<^verbatim>\<open>ReactorThreadPool\<close> of \<^verbatim>\<open>ReactorThread\<close>s; a \<^verbatim>\<open>TcpClient\<close> makes one with a \<^verbatim>\<open>Connector\<close>. A
  \<^verbatim>\<open>TcpConnection\<close> reads into and writes from \<^verbatim>\<open>Buffer\<close>s, and sends files with a \<^verbatim>\<open>ZeroCopier\<close>. On top of it \<^verbatim>\<open>HttpServer\<close> parses
  requests incrementally and serialises responses. Log statements format a \<^verbatim>\<open>LogLine\<close> into a fixed buffer and hand it to an output
  function, which may be the front end of \<^verbatim>\<open>AsyncLogging\<close>, whose thread writes rolling \<^verbatim>\<open>LogFile\<close>s. Below all this are threads,
  mutexes and conditions, blocking deques and a task deque with workers, and time: \<^verbatim>\<open>Timestamp\<close>, \<^verbatim>\<open>Date\<close>, \<^verbatim>\<open>Timezone\<close>.

  \<^bold>\<open>How it is modelled.\<close> A class is a record of its data members and an operation a function from state to state. A failed
  assertion, a fatal log line, an exception and undefined behaviour are values of the result type \<open>res\<close> (Flute_Prelude), so a
  theorem that an operation yields \<open>Inr\<close> says that none of them happens. What an operation does to the outside (callbacks,
  functors for a reactor, bytes on a socket) is a list of events in its result. Several threads are a step relation
  whose steps are the sections under a mutex or the statements between two shared accesses. The results of system
  calls, the clock, the allocator and foreign libraries are arguments; where a theorem relies on their documented behaviour it
  is a named hypothesis (\<open>epoll_accepts\<close>, \<open>zc_io_ok\<close>, \<open>fs_ok\<close>, \<open>deflate_ok\<close>, \<open>tm_plain\<close>), and a witness satisfies it with a concrete function.

  \<^bold>\<open>Theories.\<close> Shared: Flute_Prelude (results, C++ library pieces, list lemmas, the invariant rule), Cformat (\<^verbatim>\<open>snprintf\<close>),
  Sorted_Map (\<^verbatim>\<open>std::map\<close>). Interfaces, as locales: Byte_Queue (what the clients of a buffer rely on; interpreted by Buffer), Poller_Spec
  (what a reactor relies on; interpreted by EPollPoller and PollPoller), Safe_System (step systems with an invariant;
  interpreted by Deques, TaskPool, AsyncLogging and ReactorThread). Components, with their sources:

  \<^item> Endian (net/Endian.h), Buffer (net/Buffer): byte order; the buffer refines a byte string, integers survive a round trip, reading from
    a descriptor appends what arrived.
  \<^item> Date, Timestamp, Timezone (common/): the calendar conversions are inverse and stay in 32 bits; the search in a zone's
    transitions agrees with its specification; zone files and UTC times survive round trips.
  \<^item> Digital, Logging (common/Digital.h, FixedBuffer.h, LogStream, LogLine): numbers are printed exactly; the stream never leaves its
    buffer; a line has the parts it should have.
  \<^item> LogFile (common/FileUtil, LogFile), AsyncLogging: log files lose, split and reorder no line; the front end and the back end
    together keep the order; the theorem of this theory joins them to the log statement.
  \<^item> StringPiece: comparison is the lexicographic order. ProcessInfo: parsing of the process files. Stacktrace
    (CurrentThread.cc, Exception): demangling replaces the mangled name only.
  \<^item> Threads (CurrentThread, Atomic, Mutex, Condition, Thread, Singleton, ThreadLocal, ThreadLocalSingleton): the holder of a mutex is
    recorded correctly in every interleaving; the timed wait uses the wrong clock; one instance per process or thread.
  \<^item> Deques (BlockingDeque, BoundedBlockingDeque, TaskDeque, CountdownLatch), TaskPool (TaskDeque's workers): bounds, order, and no lost
    wakeups; after \<^verbatim>\<open>stop\<close> the workers leave, but a waiting pusher may stay behind.
  \<^item> Channel, EPollPoller, PollPoller (net/Channel, net/poller): both pollers keep the contract, with the kernel's interest list in
    step with the channels; what a poll reports is what is dispatched.
  \<^item> TimerQueue (net/Timer, TimerId, TimerQueue): both sets stay equal, expired timers fire and no cancelled one does, the timer descriptor
    is armed for the earliest.
  \<^item> Reactor, ReactorThread: tasks run once, in order, in the loop's thread, and no wakeup is lost; starting a thread returns its reactor.
  \<^item> Sockets, SocketOptions (net/InetAddress, SocketsOps, Socket, Acceptor): addresses and their text, error handling of accept, options.
  \<^item> ZeroCopier, TcpConnection: a file is sent as a prefix and sending ends; the bytes a connection writes are those it accepted, in
    order, the half-close comes last, and each callback comes once; buffered output drains.
  \<^item> Connector, TcpServer (with ReactorThreadPool), TcpClient: no assertion fails under any legal order of calls and events; names, tables and
    connections stay in step; retries back off within bounds.
  \<^item> Http (net/http): the parser ends on every input and inverts the printing of requests; a request that has arrived is
    answered, in pieces or not.
  \<^item> ZlibStream (net/ZlibStream.h): writing ends, and the output is what deflate produced from all the input.

  \<^bold>\<open>Loops and bounds.\<close> Most loops are structural recursions, or functions with a termination proof: the binary search by the length of
  the interval, the digits of a number by its value, appending and reading by the bytes left. The request parser is a partial function
  in the option type and is shown to return on every buffer. The loops of the compressing stream are \<open>while_option\<close> and end
  by a measure on the input left and the output that deflate still holds. Sending a file ends within one hundred calls for each byte, the
  bound of the copier's failure counter. Everything else runs for a finite list of actions or over a step relation, so no
  fuel is needed. Machine integers are words where a width matters (byte order, atomics, hashes, event sets, wrap-around of the
  most negative number); elsewhere they are integers and the ranges are hypotheses or lemmas.

  \<^bold>\<open>Defects.\<close> Where the code fails, the failure is a theorem about the model: a bad zone file still counts as valid; PollPoller
  cannot remove an idle channel; the read/write copier loses bytes after a short write; a file and a buffer can stall each other; a
  connection can be closed twice; a malformed request ends the server; a connector restarted too early, or a client connected a second
  time, fails its assertion; accept aborts where it should return; a smaller bound breaks a bounded deque; stopping loses log
  lines and strands pushers; a timed wait returns at once; thread names dangle; a compressing stream refuses a piece after a buffer.

  \<^bold>\<open>Not modelled.\<close> Floating point (interval conversion is a parameter, CPU times and the text of doubles are left out). The
  bodies of user callbacks, except where a callback is a list of operations (timers). Data races inside a
  single unsynchronised access, and memory exhaustion. Wrappers that only forward to a system call, setters of callbacks, trace
  output, SIGPIPE and the debugging prints. The support headers (types.h, noncopyable.h, Callbacks.h, WeakCallback.h, boilerplate)
  hold type definitions and casts. \<^verbatim>\<open>ZlibInputStream\<close> has no implementation. Exceptions that leave a thread end the process. The
  test and example programs are clients of the library and not part of it.
\<close>

section \<open>Logging, from the statement to the file\<close>

text \<open>
  The lines that \<^verbatim>\<open>LogLine\<close> hands to its output function, in a fixed time zone. With \<^verbatim>\<open>AsyncLogging::append\<close> as that function they are
  the lines of the front end.
\<close>

inductive logged_line :: "(int \<Rightarrow> tm) \<Rightarrow> (int \<Rightarrow> string) \<Rightarrow> int \<Rightarrow> string \<Rightarrow> string \<Rightarrow> bool"
  for gmtime_r strerror off name where
  "cache_ok gmtime_r off name c \<Longrightarrow> 0 \<le> now \<Longrightarrow> list_all item_ok items \<Longrightarrow> fits_int32 errno \<Longrightarrow> fits_int32 line \<Longrightarrow>
   log_line gmtime_r strerror (Timezone_fixed off name) now errno c level type_name src line items = Inr (c', out, fatal) \<Longrightarrow>
   logged_line gmtime_r strerror off name out"

lemma logged_line_fits:
  assumes "logged_line gmtime_r strerror off name out" and "\<And>t. tm_plain (gmtime_r t)" and "CHR 0x00 \<notin> set name"
  shows "length out < kLogBufferSize"
  using assms(1)
proof cases
  case (1 c now items errno line level type_name src c' fatal)
  then show ?thesis
    using log_line_ok [OF 1(1) assms(2,3) 1(2-5), of strerror level type_name src] by auto
qed



end
